(* ===== verification/Prelude.thy ===== *)
theory Prelude
  imports Main "HOL-Library.Multiset" "HOL-Library.List_Lexorder" "HOL-Library.Char_ord"
begin

text \<open>
  Shared vocabulary and automation: the result type of fallible Go functions, the named
  collections the component proofs draw on, and generic facts on lists used by more than
  one component.
\<close>

section \<open>Results of fallible functions\<close>

text \<open>A Go function returning \<open>(T, error)\<close> is a sum: \<open>Inl\<close> the error, \<open>Inr\<close> the value.\<close>

type_synonym ('e, 'a) result = "'e + 'a"

definition res_bind :: "'e + 'a \<Rightarrow> ('a \<Rightarrow> 'e + 'b) \<Rightarrow> 'e + 'b" where
  "res_bind r f = (case r of Inl e \<Rightarrow> Inl e | Inr x \<Rightarrow> f x)"

lemma res_bind_Inl [simp]: "res_bind (Inl e) f = Inl e"
  by (simp add: res_bind_def)

lemma res_bind_Inr [simp]: "res_bind (Inr x) f = f x"
  by (simp add: res_bind_def)

lemma res_bind_eq_Inr: "res_bind r f = Inr y \<longleftrightarrow> (\<exists>x. r = Inr x \<and> f x = Inr y)"
  by (cases r) auto

lemma res_bind_eq_Inl: "res_bind r f = Inl e \<longleftrightarrow> r = Inl e \<or> (\<exists>x. r = Inr x \<and> f x = Inl e)"
  by (cases r) auto

definition map_err :: "('e \<Rightarrow> 'f) \<Rightarrow> 'e + 'a \<Rightarrow> 'f + 'a" where
  "map_err g r = (case r of Inl e \<Rightarrow> Inl (g e) | Inr x \<Rightarrow> Inr x)"

lemma map_err_Inl [simp]: "map_err g (Inl e) = Inl (g e)"
  by (simp add: map_err_def)

lemma map_err_Inr [simp]: "map_err g (Inr x) = Inr x"
  by (simp add: map_err_def)

lemma map_err_eq_Inr [simp]: "map_err g r = Inr y \<longleftrightarrow> r = Inr y"
  by (cases r) auto

lemma map_err_eq_Inl: "map_err g r = Inl f \<longleftrightarrow> (\<exists>e. r = Inl e \<and> f = g e)"
  by (cases r) auto

named_theorems f64_simps \<open>evaluation of IEEE operations on special and finite values\<close>
named_theorems rank_defs \<open>definitions of the ranking pipeline\<close>

section \<open>Machine integers\<close>

text \<open>Go's \<open>int\<close> has 64 bits and its arithmetic wraps.\<close>

definition wrap64 :: "int \<Rightarrow> int" where
  "wrap64 x = (x + 2 ^ 63) mod 2 ^ 64 - 2 ^ 63"

lemma wrap64_id [simp]: "- (2 ^ 63) \<le> x \<Longrightarrow> x < 2 ^ 63 \<Longrightarrow> wrap64 x = x"
  by (simp add: wrap64_def)

lemma wrap64_range: "- (2 ^ 63) \<le> wrap64 x" "wrap64 x < 2 ^ 63"
  using pos_mod_bound[of "2 ^ 64 :: int" "x + 2 ^ 63"] by (simp_all add: wrap64_def)

text \<open>\<open>make([]T, 0, n)\<close> panics for a negative capacity and for one whose memory exceeds the address space,
  \<open>2 ^ 48\<close> bytes on the 64-bit platforms.\<close>

definition makes_slice :: "int \<Rightarrow> int \<Rightarrow> bool" where
  "makes_slice elem_size n \<longleftrightarrow> 0 \<le> n \<and> elem_size * n \<le> 2 ^ 48"

section \<open>Lists\<close>

text \<open>Subsequence-preserving selection of the first element per key, the reference for
  every "seen set" loop of the code.\<close>

fun first_per_key :: "('a \<Rightarrow> 'k) \<Rightarrow> 'a list \<Rightarrow> 'a list" where
  "first_per_key key [] = []"
| "first_per_key key (x # xs) = x # first_per_key key (filter (\<lambda>y. key y \<noteq> key x) xs)"

lemma set_first_per_key_subset: "set (first_per_key key xs) \<subseteq> set xs"
  by (induction key xs rule: first_per_key.induct) auto

lemma keys_first_per_key: "key ` set (first_per_key key xs) = key ` set xs"
proof (induction key xs rule: first_per_key.induct)
  case (1 key)
  then show ?case by simp
next
  case (2 key x xs)
  then show ?case by (auto simp: image_iff)
qed

lemma distinct_first_per_key: "distinct (map key (first_per_key key xs))"
proof (induction key xs rule: first_per_key.induct)
  case (1 key)
  then show ?case by simp
next
  case (2 key x xs)
  have "key x \<notin> key ` set (first_per_key key (filter (\<lambda>y. key y \<noteq> key x) xs))"
    by (auto simp: keys_first_per_key)
  with 2 show ?case by simp
qed

lemma first_per_key_distinct: "distinct (map key xs) \<Longrightarrow> first_per_key key xs = xs"
proof (induction xs)
  case (Cons x xs)
  then have "filter (\<lambda>y. key y \<noteq> key x) xs = xs"
    by (auto simp: filter_id_conv image_iff)
  with Cons show ?case by simp
qed simp

end
