(* ===== verification/Float64.thy ===== *)
theory Float64
  imports Complex_Main "HOL-Library.Log_Nat" Prelude
begin

text \<open>
  Go's \<open>float64\<close>: IEEE 754 binary64 with NaN, the infinities, and finite values as
  reals. Every arithmetic operation rounds the exact result to nearest, ties to even, with
  gradual underflow (the unit is never below \<open>2 ^ -1074\<close>) and overflow to an infinity.
  The functions of package \<open>math\<close> the program calls (\<open>Max\<close>, \<open>Min\<close>, \<open>Abs\<close>, \<open>Exp\<close>,
  \<open>Log\<close>, \<open>Log1p\<close>, \<open>IsInf\<close>) follow its documented special cases; their
  transcendental values are the exact real value rounded once. The sign of a zero is not
  represented, and no product and sum are fused.
\<close>

section \<open>Rounding to nearest, ties to even\<close>

definition rne :: "real \<Rightarrow> int" where
  "rne x = (let n = \<lfloor>x\<rfloor>; d = x - of_int n in
     if d < 1/2 then n else if d > 1/2 then n + 1 else if even n then n else n + 1)"

lemma rne_bounds: "\<lfloor>x\<rfloor> \<le> rne x" "rne x \<le> \<lfloor>x\<rfloor> + 1"
  by (auto simp: rne_def Let_def)

lemma rne_of_int [simp]: "rne (of_int n) = n"
  by (simp add: rne_def Let_def)

lemma rne_mono:
  assumes "x \<le> y"
  shows "rne x \<le> rne y"
proof (cases "\<lfloor>x\<rfloor> = \<lfloor>y\<rfloor>")
  case True
  with assms show ?thesis by (auto simp: rne_def Let_def)
next
  case False
  with floor_mono[OF assms] have "\<lfloor>x\<rfloor> + 1 \<le> \<lfloor>y\<rfloor>" by simp
  with rne_bounds[of x] rne_bounds[of y] show ?thesis by linarith
qed

lemma rne_nonneg: "0 \<le> x \<Longrightarrow> 0 \<le> rne x"
  using rne_mono[of 0 x] rne_of_int[of 0] by simp

text \<open>
  A nonnegative real scaled by \<open>2 ^ 1074\<close> is rounded to a multiple of \<open>2 ^ e\<close>, where
  \<open>e\<close> leaves 53 significant bits; natural-number subtraction makes \<open>e = 0\<close> the
  subnormal range.
\<close>

definition unit_exp :: "real \<Rightarrow> nat" where
  "unit_exp y = floorlog 2 (nat \<lfloor>y\<rfloor>) - 53"

definition rnd_scaled :: "real \<Rightarrow> real" where
  "rnd_scaled y = of_int (rne (y / 2 ^ unit_exp y)) * 2 ^ unit_exp y"

definition scale64 :: real where
  "scale64 = 2 ^ 1074"

definition rnd :: "real \<Rightarrow> real" where
  "rnd x = (if x < 0 then - (rnd_scaled (- x * scale64) / scale64)
            else rnd_scaled (x * scale64) / scale64)"

lemma scale64_pos [simp]: "0 < scale64"
  unfolding scale64_def by (rule zero_less_power) simp

lemma scale64_neq [simp]: "scale64 \<noteq> 0"
  using scale64_pos by (rule less_imp_neq[symmetric])

lemma scale64_nonneg [simp]: "0 \<le> scale64"
  using scale64_pos by (rule less_imp_le)

lemma scale64_split:
  assumes "j \<le> 1074"
  shows "scale64 = 2 ^ j * 2 ^ (1074 - j)"
  unfolding scale64_def power_add[symmetric] using assms by (intro arg_cong[of _ _ "(^) 2"]) simp

lemma unit_exp_mono: "x \<le> y \<Longrightarrow> unit_exp x \<le> unit_exp y"
  unfolding unit_exp_def by (intro diff_le_mono floorlog_mono nat_mono floor_mono)

lemma unit_exp_upper:
  assumes "0 \<le> y"
  shows "y < 2 ^ (unit_exp y + 53)"
proof -
  let ?n = "nat \<lfloor>y\<rfloor>"
  have "?n < 2 ^ floorlog 2 ?n"
    by (rule floorlog_leD[of 2 ?n "floorlog 2 ?n"]) simp_all
  also have "(2::nat) ^ floorlog 2 ?n \<le> 2 ^ (unit_exp y + 53)"
    by (rule power_increasing) (auto simp: unit_exp_def)
  finally have "int ?n < int (2 ^ (unit_exp y + 53))"
    by (simp only: of_nat_less_iff)
  with assms have "\<lfloor>y\<rfloor> < 2 ^ (unit_exp y + 53)" by simp
  then show ?thesis by (simp add: floor_less_iff)
qed

lemma unit_exp_lower:
  assumes "0 < unit_exp y"
  shows "2 ^ (unit_exp y + 52) \<le> y"
proof -
  let ?n = "nat \<lfloor>y\<rfloor>"
  from assms have "unit_exp y + 53 \<le> floorlog 2 ?n"
    by (simp add: unit_exp_def)
  then have le: "(2::nat) ^ (unit_exp y + 52) \<le> ?n"
    using floorlog_geD[of "unit_exp y + 53" 2 ?n] by (simp add: add.commute)
  then have "?n > 0"
    using less_le_trans[of 0 "(2::nat) ^ (unit_exp y + 52)" ?n] by simp
  from le have "int (2 ^ (unit_exp y + 52)) \<le> int ?n"
    by (rule of_nat_mono)
  then have "(2::int) ^ (unit_exp y + 52) \<le> int ?n" by (simp only: of_nat_power of_nat_numeral)
  also have "int ?n = \<lfloor>y\<rfloor>"
    using \<open>?n > 0\<close> by simp
  finally show ?thesis by (simp only: le_floor_iff of_int_power of_int_numeral)
qed

lemma rne_pow_le:
  assumes "y \<le> 2 ^ k"
  shows "rne y \<le> 2 ^ k"
proof -
  have "rne y \<le> rne (of_int (2 ^ k))"
    using assms by (intro rne_mono) simp
  then show ?thesis by (simp only: rne_of_int)
qed

lemma rne_pow_ge:
  assumes "2 ^ k \<le> y"
  shows "2 ^ k \<le> rne y"
proof -
  have "rne (of_int (2 ^ k)) \<le> rne y"
    using assms by (intro rne_mono) simp
  then show ?thesis by (simp only: rne_of_int)
qed

lemma rnd_scaled_nonneg: "0 \<le> y \<Longrightarrow> 0 \<le> rnd_scaled y"
  by (simp add: rnd_scaled_def rne_nonneg)

lemma rnd_scaled_mono:
  assumes "0 \<le> x" "x \<le> y"
  shows "rnd_scaled x \<le> rnd_scaled y"
proof (cases "unit_exp x = unit_exp y")
  case True
  have "rne (x / 2 ^ unit_exp y) \<le> rne (y / 2 ^ unit_exp y)"
    using assms(2) by (intro rne_mono divide_right_mono) auto
  with True show ?thesis by (simp add: rnd_scaled_def)
next
  case False
  with unit_exp_mono[OF assms(2)] have less: "unit_exp x < unit_exp y" by simp
  have "x / 2 ^ unit_exp x \<le> 2 ^ 53"
    using unit_exp_upper[OF assms(1)] by (simp add: divide_le_eq power_add mult.commute)
  then have "real_of_int (rne (x / 2 ^ unit_exp x)) \<le> 2 ^ 53"
    using rne_pow_le by (metis of_int_le_iff of_int_numeral of_int_power)
  then have "rnd_scaled x \<le> 2 ^ 53 * 2 ^ unit_exp x"
    unfolding rnd_scaled_def by (intro mult_right_mono) auto
  also have "\<dots> = (2::real) ^ (53 + unit_exp x)" by (rule power_add[symmetric])
  also have "\<dots> \<le> 2 ^ (52 + unit_exp y)" using less by (intro power_increasing) auto
  also have "\<dots> = 2 ^ 52 * 2 ^ unit_exp y" by (rule power_add)
  also have "\<dots> \<le> rnd_scaled y"
  proof -
    have "2 ^ 52 \<le> y / 2 ^ unit_exp y"
      using unit_exp_lower[of y] less by (simp add: le_divide_eq power_add mult.commute)
    then have "(2::real) ^ 52 \<le> of_int (rne (y / 2 ^ unit_exp y))"
      using rne_pow_ge by (metis of_int_le_iff of_int_numeral of_int_power)
    then show ?thesis
      unfolding rnd_scaled_def by (intro mult_right_mono) auto
  qed
  finally show ?thesis .
qed

lemma rnd_nonneg: "0 \<le> x \<Longrightarrow> 0 \<le> rnd x"
  by (simp add: rnd_def rnd_scaled_nonneg)

lemma rnd_minus: "rnd (- x) = - rnd x"
proof -
  have "rnd_scaled 0 = 0"
    using rne_of_int[of 0] by (simp add: rnd_scaled_def)
  then show ?thesis by (auto simp: rnd_def)
qed

lemma rnd_mono_nonneg: "0 \<le> x \<Longrightarrow> x \<le> y \<Longrightarrow> rnd x \<le> rnd y"
  by (auto simp: rnd_def intro!: divide_right_mono rnd_scaled_mono mult_right_mono)

lemma rnd_mono:
  assumes "x \<le> y"
  shows "rnd x \<le> rnd y"
proof -
  consider "0 \<le> x" | "x < 0" "0 \<le> y" | "y < 0" by linarith
  then show ?thesis
  proof cases
    case 1
    with assms show ?thesis by (rule rnd_mono_nonneg[rotated])
  next
    case 2
    with rnd_nonneg[of "- x"] rnd_nonneg[of y] rnd_minus[of x] show ?thesis by simp
  next
    case 3
    with assms rnd_mono_nonneg[of "- y" "- x"] show ?thesis by (simp add: rnd_minus)
  qed
qed

subsection \<open>Representable values\<close>

text \<open>A value with at most 53 significant bits is left alone; so rounding is idempotent.\<close>

lemma rnd_scaled_exact:
  assumes "n < 2 ^ 53"
  shows "rnd_scaled (real n * 2 ^ k) = real n * 2 ^ k"
proof (cases "n = 0")
  case True
  then show ?thesis using rne_of_int[of 0] by (simp add: rnd_scaled_def)
next
  case False
  let ?y = "real n * 2 ^ k"
  have "?y = of_int (int (n * 2 ^ k))" by simp
  then have "nat \<lfloor>?y\<rfloor> = n * 2 ^ k" by (metis floor_of_int nat_int)
  then have e: "unit_exp ?y = floorlog 2 n + k - 53"
    using False by (simp add: unit_exp_def)
  have "floorlog 2 n \<le> 53"
    using assms by (intro floorlog_leI) auto
  with e have le: "unit_exp ?y \<le> k" by simp
  then have "?y / 2 ^ unit_exp ?y = real n * 2 ^ (k - unit_exp ?y)"
    by (simp add: power_diff)
  also have "\<dots> = of_int (int (n * 2 ^ (k - unit_exp ?y)))" by simp
  finally have "rne (?y / 2 ^ unit_exp ?y) = int (n * 2 ^ (k - unit_exp ?y))"
    by (simp only: rne_of_int)
  then have "rnd_scaled ?y = real (n * 2 ^ (k - unit_exp ?y)) * 2 ^ unit_exp ?y"
    by (simp only: rnd_scaled_def of_int_of_nat_eq)
  also have "\<dots> = ?y"
    using le by (simp add: power_add[symmetric])
  finally show ?thesis .
qed

lemma rnd_scaled_exact_le:
  assumes "n \<le> 2 ^ 53"
  shows "rnd_scaled (real n * 2 ^ k) = real n * 2 ^ k"
proof (cases "n = 2 ^ 53")
  case True
  then have "real n * 2 ^ k = real 1 * 2 ^ (53 + k)"
    by (simp add: power_add)
  with rnd_scaled_exact[of 1 "53 + k"] show ?thesis by simp
next
  case False
  with assms show ?thesis by (intro rnd_scaled_exact) simp
qed

lemma rnd_scaled_form:
  assumes "0 \<le> y"
  obtains n k where "n \<le> 2 ^ 53" "rnd_scaled y = real n * 2 ^ k"
proof
  let ?m = "rne (y / 2 ^ unit_exp y)"
  have "y / 2 ^ unit_exp y \<le> 2 ^ 53"
    using unit_exp_upper[OF assms] by (simp add: divide_le_eq power_add mult.commute)
  then have "?m \<le> 2 ^ 53" by (rule rne_pow_le)
  then show "nat ?m \<le> 2 ^ 53" by simp
  have "0 \<le> ?m" using assms by (intro rne_nonneg) simp
  then show "rnd_scaled y = real (nat ?m) * 2 ^ unit_exp y"
    by (simp add: rnd_scaled_def)
qed

lemma rnd_scaled_idem: "0 \<le> y \<Longrightarrow> rnd_scaled (rnd_scaled y) = rnd_scaled y"
  by (metis rnd_scaled_form rnd_scaled_exact_le)

lemma rnd_idem: "rnd (rnd x) = rnd x"
proof -
  have pos: "rnd (rnd x) = rnd x" if "0 \<le> x" for x
    using that rnd_scaled_idem[of "x * scale64"] rnd_nonneg[of x] by (simp add: rnd_def)
  show ?thesis
    using pos[of x] pos[of "- x"] rnd_minus[of x] rnd_minus[of "rnd x"]
    by (cases "0 \<le> x") auto
qed

text \<open>Dyadic fractions: \<open>m / 2 ^ j\<close> with \<open>|m| < 2 ^ 53\<close>.\<close>

lemma rnd_dyadic:
  assumes "\<bar>m\<bar> < 2 ^ 53" "j \<le> 1074"
  shows "rnd (of_int m / 2 ^ j) = of_int m / 2 ^ j"
proof -
  have pos: "rnd (real n / 2 ^ j) = real n / 2 ^ j" if "n < 2 ^ 53" for n :: nat
  proof -
    have "real n / 2 ^ j * scale64 = real n * 2 ^ (1074 - j)"
      by (simp add: scale64_split[OF assms(2)])
    with rnd_scaled_exact[OF that, of "1074 - j"] have
      "rnd (real n / 2 ^ j) = real n * 2 ^ (1074 - j) / scale64"
      by (simp add: rnd_def divide_less_0_iff)
    also have "\<dots> = real n / 2 ^ j"
      by (simp add: scale64_split[OF assms(2)])
    finally show ?thesis .
  qed
  have n: "nat \<bar>m\<bar> < 2 ^ 53" using assms(1) by simp
  show ?thesis
  proof (cases "0 \<le> m")
    case True
    with pos[OF n] show ?thesis by simp
  next
    case False
    then have m: "of_int m / 2 ^ j = - (real (nat \<bar>m\<bar>) / 2 ^ j)" by simp
    show ?thesis unfolding m rnd_minus pos[OF n] ..
  qed
qed

text \<open>In the normal range the unit is known: with 53 bits before the point only the fraction is rounded.\<close>

lemma unit_exp_eq:
  assumes "2 ^ (u + 52) \<le> y" "y < 2 ^ (u + 53)"
  shows "unit_exp y = u"
proof (rule antisym)
  have y: "0 \<le> y" using assms(1) zero_le_power[of "2::real" "u + 52"] by linarith
  show "unit_exp y \<le> u"
  proof (rule ccontr)
    assume "\<not> unit_exp y \<le> u"
    then have "(2::real) ^ (u + 53) \<le> 2 ^ (unit_exp y + 52)" by (intro power_increasing) auto
    with unit_exp_lower[of y] assms(2) \<open>\<not> unit_exp y \<le> u\<close> show False by simp
  qed
  show "u \<le> unit_exp y"
  proof (rule ccontr)
    assume "\<not> u \<le> unit_exp y"
    then have "(2::real) ^ (unit_exp y + 53) \<le> 2 ^ (u + 52)" by (intro power_increasing) auto
    with unit_exp_upper[OF y] assms(1) show False by simp
  qed
qed

lemma rnd_normal:
  assumes "2 ^ 52 \<le> t" "t < 2 ^ 53" "j \<le> 1074"
  shows "rnd (t / 2 ^ j) = of_int (rne t) / 2 ^ j"
proof -
  define u where "u = 1074 - j"
  have scale: "scale64 = 2 ^ j * 2 ^ u" unfolding u_def by (rule scale64_split[OF assms(3)])
  have y: "t / 2 ^ j * scale64 = t * 2 ^ u" by (simp add: scale)
  have "unit_exp (t * 2 ^ u) = u"
    using assms(1,2) by (intro unit_exp_eq) (simp_all only: power_add mult.commute[of "2 ^ u"], simp_all)
  moreover have "0 \<le> t" using assms(1) by simp
  ultimately show ?thesis
    by (simp add: rnd_def y rnd_scaled_def divide_less_0_iff) (simp add: scale)
qed

lemma rnd_of_int: "\<bar>m\<bar> < 2 ^ 53 \<Longrightarrow> rnd (of_int m) = of_int m"
  using rnd_dyadic[of m 0] by simp

lemma rnd_0 [simp]: "rnd 0 = 0"
  using rnd_of_int[of 0] by simp

lemma rnd_1 [simp]: "rnd 1 = 1"
  using rnd_of_int[of 1] by simp

lemma rnd_numeral: "(numeral k :: int) < 2 ^ 53 \<Longrightarrow> rnd (numeral k) = numeral k"
  using rnd_of_int[of "numeral k"] by simp

lemma rnd_half [simp]: "rnd (1/2) = 1/2"
  using rnd_dyadic[of 1 1] by simp

lemma rnd_quarter [simp]: "rnd (1/4) = 1/4"
  using rnd_dyadic[of 1 2] by simp

lemma rnd_three_quarters [simp]: "rnd (3/4) = 3/4"
  using rnd_dyadic[of 3 2] by simp

section \<open>Values and operations\<close>

datatype f64 = NaN | PInf | NInf | Fin real

text \<open>A rounded value of magnitude \<open>2 ^ 1024\<close> or more overflows.\<close>

definition overflow64 :: real where
  "overflow64 = 2 ^ 1024"

definition fround :: "real \<Rightarrow> f64" where
  "fround x = (let r = rnd x in
     if r \<ge> overflow64 then PInf else if r \<le> - overflow64 then NInf else Fin r)"

text \<open>The values a \<open>float64\<close> variable can hold.\<close>

fun f64_wf :: "f64 \<Rightarrow> bool" where
  "f64_wf (Fin r) \<longleftrightarrow> fround r = Fin r"
| "f64_wf _ \<longleftrightarrow> True"

text \<open>A constant of the source, and the conversion \<open>float64(n)\<close> of an integer.\<close>

definition f_const :: "real \<Rightarrow> f64" where
  "f_const q = fround q"

definition f_of_int :: "int \<Rightarrow> f64" where
  "f_of_int n = fround (of_int n)"

fun f_neg :: "f64 \<Rightarrow> f64" where
  "f_neg NaN = NaN"
| "f_neg PInf = NInf"
| "f_neg NInf = PInf"
| "f_neg (Fin x) = Fin (- x)"

fun f_add :: "f64 \<Rightarrow> f64 \<Rightarrow> f64" where
  "f_add (Fin x) (Fin y) = fround (x + y)"
| "f_add NaN _ = NaN"
| "f_add _ NaN = NaN"
| "f_add PInf NInf = NaN"
| "f_add NInf PInf = NaN"
| "f_add PInf _ = PInf"
| "f_add _ PInf = PInf"
| "f_add NInf _ = NInf"
| "f_add _ NInf = NInf"

definition f_sub :: "f64 \<Rightarrow> f64 \<Rightarrow> f64" where
  "f_sub x y = f_add x (f_neg y)"

definition f_signed_inf :: "real \<Rightarrow> f64" where
  "f_signed_inf s = (if s = 0 then NaN else if s > 0 then PInf else NInf)"

fun f_sgn :: "f64 \<Rightarrow> real" where
  "f_sgn NaN = 0"
| "f_sgn PInf = 1"
| "f_sgn NInf = -1"
| "f_sgn (Fin x) = sgn x"

text \<open>\<open>Inf * 0\<close> and \<open>0 / 0\<close>, \<open>Inf / Inf\<close> are NaN; a nonzero value over zero is an infinity.\<close>

fun f_mul :: "f64 \<Rightarrow> f64 \<Rightarrow> f64" where
  "f_mul (Fin x) (Fin y) = fround (x * y)"
| "f_mul NaN _ = NaN"
| "f_mul _ NaN = NaN"
| "f_mul x y = f_signed_inf (f_sgn x * f_sgn y)"

fun f_div :: "f64 \<Rightarrow> f64 \<Rightarrow> f64" where
  "f_div (Fin x) (Fin y) = (if y = 0 then f_signed_inf x else fround (x / y))"
| "f_div NaN _ = NaN"
| "f_div _ NaN = NaN"
| "f_div (Fin _) _ = Fin 0"
| "f_div x (Fin y) = (if y < 0 then f_neg x else x)"
| "f_div _ _ = NaN"

fun f_lt :: "f64 \<Rightarrow> f64 \<Rightarrow> bool" where
  "f_lt (Fin x) (Fin y) \<longleftrightarrow> x < y"
| "f_lt NaN _ \<longleftrightarrow> False"
| "f_lt _ NaN \<longleftrightarrow> False"
| "f_lt PInf _ \<longleftrightarrow> False"
| "f_lt _ PInf \<longleftrightarrow> True"
| "f_lt _ NInf \<longleftrightarrow> False"
| "f_lt NInf _ \<longleftrightarrow> True"

fun f_eq :: "f64 \<Rightarrow> f64 \<Rightarrow> bool" where
  "f_eq NaN _ \<longleftrightarrow> False"
| "f_eq x y \<longleftrightarrow> x = y"

definition f_le :: "f64 \<Rightarrow> f64 \<Rightarrow> bool" where
  "f_le x y \<longleftrightarrow> f_lt x y \<or> f_eq x y"

fun f_abs :: "f64 \<Rightarrow> f64" where
  "f_abs NaN = NaN"
| "f_abs PInf = PInf"
| "f_abs NInf = PInf"
| "f_abs (Fin x) = Fin \<bar>x\<bar>"

text \<open>\<open>math.Max\<close> and \<open>math.Min\<close>: the matching infinity wins even over NaN.\<close>

definition f_max :: "f64 \<Rightarrow> f64 \<Rightarrow> f64" where
  "f_max x y = (if x = PInf \<or> y = PInf then PInf else if x = NaN \<or> y = NaN then NaN
     else if f_lt y x then x else y)"

definition f_min :: "f64 \<Rightarrow> f64 \<Rightarrow> f64" where
  "f_min x y = (if x = NInf \<or> y = NInf then NInf else if x = NaN \<or> y = NaN then NaN
     else if f_lt x y then x else y)"

fun f_exp :: "f64 \<Rightarrow> f64" where
  "f_exp NaN = NaN"
| "f_exp PInf = PInf"
| "f_exp NInf = Fin 0"
| "f_exp (Fin x) = fround (exp x)"

fun f_log :: "f64 \<Rightarrow> f64" where
  "f_log NaN = NaN"
| "f_log PInf = PInf"
| "f_log NInf = NaN"
| "f_log (Fin x) = (if x < 0 then NaN else if x = 0 then NInf else fround (ln x))"

fun f_log1p :: "f64 \<Rightarrow> f64" where
  "f_log1p NaN = NaN"
| "f_log1p PInf = PInf"
| "f_log1p NInf = NaN"
| "f_log1p (Fin x) =
    (if x < -1 then NaN else if x = -1 then NInf else fround (ln (1 + x)))"

text \<open>\<open>math.IsInf(x, 1)\<close>.\<close>

definition is_pinf :: "f64 \<Rightarrow> bool" where
  "is_pinf x \<longleftrightarrow> x = PInf"

section \<open>Order\<close>

lemma f_lt_irrefl [simp]: "\<not> f_lt x x"
  by (cases x) auto

lemma f_lt_trans: "f_lt x y \<Longrightarrow> f_lt y z \<Longrightarrow> f_lt x z"
  by (cases x; cases y; cases z) auto

lemma f_lt_asym: "f_lt x y \<Longrightarrow> \<not> f_lt y x"
  using f_lt_trans f_lt_irrefl by blast

lemma f_eq_refl [simp]: "f_eq x x \<longleftrightarrow> x \<noteq> NaN"
  by (cases x) auto

lemma f_eq_iff: "f_eq x y \<longleftrightarrow> x = y \<and> x \<noteq> NaN"
  by (cases x) auto

lemma f_lt_linear: "x \<noteq> NaN \<Longrightarrow> y \<noteq> NaN \<Longrightarrow> f_lt x y \<or> x = y \<or> f_lt y x"
  by (cases x; cases y) auto

lemma f_lt_NaN [simp]: "\<not> f_lt x NaN" "\<not> f_lt NaN x"
  by (cases x; simp)+

lemma f_lt_Inf [simp]:
  "\<not> f_lt PInf x" "\<not> f_lt x NInf" "f_lt x PInf \<longleftrightarrow> x = NInf \<or> (\<exists>r. x = Fin r)"
  by (cases x; simp)+

lemma f_le_Fin [simp]: "f_le (Fin x) (Fin y) \<longleftrightarrow> x \<le> y"
  by (auto simp: f_le_def)

lemma f_le_refl: "x \<noteq> NaN \<Longrightarrow> f_le x x"
  by (simp add: f_le_def)

lemma f_le_trans: "f_le x y \<Longrightarrow> f_le y z \<Longrightarrow> f_le x z"
  unfolding f_le_def f_eq_iff using f_lt_trans by blast

lemma f_le_PInf [simp]: "f_le x PInf \<longleftrightarrow> x \<noteq> NaN" "f_le PInf x \<longleftrightarrow> x = PInf"
  by (cases x; auto simp: f_le_def f_eq_iff)+

lemma f_le_NInf [simp]: "f_le NInf x \<longleftrightarrow> x \<noteq> NaN" "f_le x NInf \<longleftrightarrow> x = NInf"
  by (cases x; auto simp: f_le_def f_eq_iff)+

lemma f_le_NaN [simp]: "\<not> f_le NaN x" "\<not> f_le x NaN"
  by (auto simp: f_le_def f_eq_iff)

lemma not_f_lt_iff: "x \<noteq> NaN \<Longrightarrow> y \<noteq> NaN \<Longrightarrow> \<not> f_lt x y \<longleftrightarrow> f_le y x"
  unfolding f_le_def f_eq_iff using f_lt_linear f_lt_asym by auto

lemma f_le_antisym: "f_le x y \<Longrightarrow> f_le y x \<Longrightarrow> x = y"
  unfolding f_le_def f_eq_iff using f_lt_asym by blast

section \<open>Rounded results\<close>

lemma overflow64_gt: "x \<le> 2 ^ 53 \<Longrightarrow> x < overflow64"
proof -
  have "(2::real) ^ 53 < 2 ^ 1024" by (rule power_strict_increasing) simp_all
  then show "x \<le> 2 ^ 53 \<Longrightarrow> x < overflow64" by (simp only: overflow64_def)
qed

lemma overflow64_pos [simp]: "0 < overflow64"
  by (rule overflow64_gt) simp

lemma fround_not_NaN [simp]: "fround x \<noteq> NaN"
  by (simp add: fround_def Let_def)

lemma fround_mono: "x \<le> y \<Longrightarrow> f_le (fround x) (fround y)"
  using rnd_mono[of x y] by (auto simp: fround_def Let_def)

lemma fround_Fin: "rnd x = x \<Longrightarrow> \<bar>x\<bar> < overflow64 \<Longrightarrow> fround x = Fin x"
  by (auto simp: fround_def Let_def)

lemma fround_small:
  assumes "0 \<le> x" "x \<le> of_int m" "m < 2 ^ 53" "0 \<le> m"
  shows "\<exists>r. fround x = Fin r \<and> 0 \<le> r \<and> r \<le> of_int m"
proof -
  have le: "rnd x \<le> of_int m"
    using rnd_mono[OF assms(2)] rnd_of_int[of m] assms(3,4) by simp
  moreover have "real_of_int m < overflow64"
  proof (rule overflow64_gt)
    have "real_of_int m \<le> of_int (2 ^ 53)" using assms(3) by (simp only: of_int_le_iff)
    then show "real_of_int m \<le> 2 ^ 53" by simp
  qed
  moreover have "0 \<le> rnd x" by (rule rnd_nonneg[OF assms(1)])
  moreover have "- overflow64 < 0" by simp
  ultimately show ?thesis by (auto simp: fround_def Let_def)
qed

lemma fround_0 [simp]: "fround 0 = Fin 0"
  by (rule fround_Fin) simp_all

lemma fround_dyadic:
  assumes "\<bar>m\<bar> < 2 ^ 53" "j \<le> 1074"
  shows "fround (of_int m / 2 ^ j) = Fin (of_int m / 2 ^ j)"
proof -
  have "\<bar>real_of_int m\<bar> = of_int \<bar>m\<bar>" by simp
  also have "\<dots> < of_int (2 ^ 53)" using assms(1) by (simp only: of_int_less_iff)
  finally have "\<bar>real_of_int m\<bar> \<le> 2 ^ 53" by simp
  moreover have "\<bar>real_of_int m / 2 ^ j\<bar> \<le> \<bar>real_of_int m\<bar>"
  proof -
    have "\<bar>real_of_int m\<bar> * 1 \<le> \<bar>real_of_int m\<bar> * 2 ^ j"
      by (rule mult_left_mono) simp_all
    then show ?thesis by (simp add: abs_divide divide_le_eq)
  qed
  ultimately have "\<bar>real_of_int m / 2 ^ j\<bar> < overflow64"
    by (intro overflow64_gt) linarith
  with rnd_dyadic[OF assms] show ?thesis by (intro fround_Fin)
qed

lemma fround_of_int: "\<bar>m\<bar> < 2 ^ 53 \<Longrightarrow> fround (of_int m) = Fin (of_int m)"
  using fround_dyadic[of m 0] by simp

text \<open>Powers of two below the overflow threshold, and with them every 64-bit integer.\<close>

lemma rnd_pow2: "rnd (2 ^ k) = 2 ^ k"
proof -
  have "(2 ^ k :: real) * scale64 = real 1 * 2 ^ (k + 1074)"
    unfolding scale64_def power_add by (simp only: of_nat_1 mult_1_left)
  with rnd_scaled_exact[of 1 "k + 1074"] have "rnd_scaled ((2 ^ k :: real) * scale64) = (2 ^ k :: real) * scale64"
    by (simp only:) simp
  then show ?thesis by (simp add: rnd_def not_less)
qed

lemma fround_bounded:
  assumes "0 \<le> x" "x \<le> 2 ^ k" "k < 1024"
  shows "\<exists>r. fround x = Fin r \<and> 0 \<le> r \<and> r \<le> 2 ^ k"
proof -
  have "rnd x \<le> 2 ^ k" using rnd_mono[OF assms(2)] by (simp add: rnd_pow2)
  moreover have "(2::real) ^ k < overflow64"
    unfolding overflow64_def using assms(3) by (intro power_strict_increasing) simp_all
  moreover have "0 \<le> rnd x" by (rule rnd_nonneg[OF assms(1)])
  moreover have "- overflow64 < 0" by simp
  ultimately show ?thesis by (auto simp: fround_def Let_def)
qed

lemma fround_1 [simp]: "fround 1 = Fin 1"
  using fround_of_int[of 1] by simp

lemma fround_numeral: "(numeral k :: int) < 2 ^ 53 \<Longrightarrow> fround (numeral k) = Fin (numeral k)"
  using fround_of_int[of "numeral k"] by simp

lemma fround_neg: "fround (- x) = f_neg (fround x)"
proof -
  have "\<not> (overflow64 \<le> rnd x \<and> overflow64 \<le> - rnd x)"
    using overflow64_pos by linarith
  then show ?thesis by (auto simp: fround_def Let_def rnd_minus)
qed

lemma fround_wf: "f64_wf (fround x)"
  by (auto simp: fround_def Let_def rnd_idem split: if_splits)

text \<open>Values in the unit interval, the range every ranking signal promises.\<close>

definition unit_f :: "f64 \<Rightarrow> bool" where
  "unit_f x \<longleftrightarrow> f_le (Fin 0) x \<and> f_le x (Fin 1)"

lemma unit_f_iff: "unit_f x \<longleftrightarrow> (\<exists>r. x = Fin r \<and> 0 \<le> r \<and> r \<le> 1)"
  unfolding unit_f_def by (cases x) auto

lemma unit_f_Fin [simp]: "unit_f (Fin r) \<longleftrightarrow> 0 \<le> r \<and> r \<le> 1"
  by (simp add: unit_f_iff)

lemma unit_f_not_NaN: "unit_f x \<Longrightarrow> x \<noteq> NaN"
  by (auto simp: unit_f_iff)

lemma fround_unit: "0 \<le> x \<Longrightarrow> x \<le> 1 \<Longrightarrow> unit_f (fround x)"
  using fround_small[of x 1] by (auto simp: unit_f_iff)

text \<open>Nonnegative values, infinity included.\<close>

definition nonneg_f :: "f64 \<Rightarrow> bool" where
  "nonneg_f x \<longleftrightarrow> f_le (Fin 0) x"

lemma nonneg_f_iff: "nonneg_f x \<longleftrightarrow> x = PInf \<or> (\<exists>r. x = Fin r \<and> 0 \<le> r)"
  unfolding nonneg_f_def by (cases x) auto

lemma nonneg_f_simps [simp]:
  "nonneg_f PInf" "\<not> nonneg_f NaN" "\<not> nonneg_f NInf" "nonneg_f (Fin r) \<longleftrightarrow> 0 \<le> r"
  by (simp_all add: nonneg_f_iff)

lemma nonneg_fround: "0 \<le> x \<Longrightarrow> nonneg_f (fround x)"
  using fround_mono[of 0 x] by (simp add: nonneg_f_def)

lemma nonneg_f_add: "nonneg_f x \<Longrightarrow> nonneg_f y \<Longrightarrow> nonneg_f (f_add x y)"
  by (auto simp: nonneg_f_iff[of x] nonneg_f_iff[of y] nonneg_fround)

lemma f_add_mono:
  assumes "nonneg_f x" "nonneg_f y" "f_le x x'" "f_le y y'"
  shows "f_le (f_add x y) (f_add x' y')"
proof (cases "x' = PInf \<or> y' = PInf")
  case True
  have "nonneg_f x'" "nonneg_f y'"
    using assms f_le_trans unfolding nonneg_f_def by blast+
  with True have "f_add x' y' = PInf" by (auto simp: nonneg_f_iff)
  moreover have "f_add x y \<noteq> NaN"
    using nonneg_f_add[OF assms(1,2)] by auto
  ultimately show ?thesis by simp
next
  case False
  with assms obtain a b a' b' where "x = Fin a" "y = Fin b" "x' = Fin a'" "y' = Fin b'"
    by (cases x; cases y; cases x'; cases y') auto
  with assms show ?thesis by (auto intro!: fround_mono)
qed

lemma nonneg_f_mul_unit: "nonneg_f w \<Longrightarrow> w \<noteq> PInf \<Longrightarrow> unit_f s \<Longrightarrow> nonneg_f (f_mul w s)"
  by (auto simp: nonneg_f_iff[of w] unit_f_iff nonneg_fround)

lemma f_mul_unit_le:
  assumes "nonneg_f w" "w \<noteq> PInf" "f64_wf w" "unit_f s"
  shows "f_le (f_mul w s) w"
proof -
  from assms obtain a b where ab: "w = Fin a" "s = Fin b" "0 \<le> a" "0 \<le> b" "b \<le> 1" "fround a = Fin a"
    by (auto simp: nonneg_f_iff unit_f_iff)
  then have "f_le (fround (a * b)) (fround a)"
    by (intro fround_mono) (simp add: mult_left_le)
  with ab show ?thesis by simp
qed

lemma f_mul_unit: "unit_f x \<Longrightarrow> unit_f y \<Longrightarrow> unit_f (f_mul x y)"
  by (auto simp: unit_f_iff[of x] unit_f_iff[of y] mult_le_one intro!: fround_unit)

lemma f_of_int_0 [simp]: "f_of_int 0 = Fin 0"
  by (simp add: f_of_int_def)

lemma f_of_int_small: "\<bar>n\<bar> < 2 ^ 53 \<Longrightarrow> f_of_int n = Fin (of_int n)"
  by (simp add: f_of_int_def fround_of_int)

lemma f_of_int_not_NaN [simp]: "f_of_int n \<noteq> NaN"
  by (simp add: f_of_int_def)

lemma f_of_int_nonneg: "0 \<le> n \<Longrightarrow> nonneg_f (f_of_int n)"
  by (simp add: f_of_int_def nonneg_fround)

lemma f_of_int_mono: "m \<le> n \<Longrightarrow> f_le (f_of_int m) (f_of_int n)"
  by (simp add: f_of_int_def fround_mono)

lemma f_NaN [simp]:
  "f_add x NaN = NaN" "f_mul x NaN = NaN" "f_min x NaN = (if x = NInf then NInf else NaN)" "f_min NaN y = (if y = NInf then NInf else NaN)"
  by (cases x; simp add: f_min_def)+

section \<open>Single precision\<close>

text \<open>A \<open>float32\<close> is kept as the \<open>float64\<close> of the same value; the conversion rounds to 24
  significant bits above \<open>2 ^ -149\<close> and overflows at \<open>2 ^ 128\<close>.\<close>

definition rnd32 :: "real \<Rightarrow> real" where
  "rnd32 x = (let y = \<bar>x\<bar> * 2 ^ 149; e = floorlog 2 (nat \<lfloor>y\<rfloor>) - 24
              in sgn x * (of_int (rne (y / 2 ^ e)) * 2 ^ e / 2 ^ 149))"

fun f_to_f32 :: "f64 \<Rightarrow> f64" where
  "f_to_f32 (Fin x) =
     (let r = rnd32 x in if r \<ge> 2 ^ 128 then PInf else if r \<le> - (2 ^ 128) then NInf else Fin r)"
| "f_to_f32 x = x"

lemma f_to_f32_0: "f_to_f32 (Fin 0) = Fin 0"
  by (simp add: rnd32_def)

text \<open>Neither NaN nor an infinity.\<close>

fun finite_f :: "f64 \<Rightarrow> bool" where
  "finite_f (Fin _) = True"
| "finite_f _ = False"

end
