(* ===== verification/Go_Strings.thy ===== *)
theory Go_Strings
  imports Prelude
begin

text \<open>
  Go strings are byte strings; Isabelle's \<open>string\<close> is a list of 8-bit characters, so a Go
  string is its bytes. This theory models what the program uses of \<open>unicode/utf8\<close>,
  \<open>strings\<close> and \<open>regexp\<close>: UTF-8 decoding and encoding (invalid bytes decode to U+FFFD),
  \<open>ToLower\<close>, \<open>TrimSpace\<close>, \<open>Fields\<close>, \<open>Join\<close>, \<open>Contains\<close>, \<open>EqualFold\<close>, and the matches
  of a one-class regular expression. The case table of Unicode, its nonspacing-mark category
  and \<open>norm.NFD\<close> of \<open>golang.org/x/text\<close> are data outside the repository: the record
  \<open>unicode\<close> holds them as parameters.
\<close>

section \<open>UTF-8\<close>

abbreviation byte_of :: "char \<Rightarrow> nat" where
  "byte_of c \<equiv> of_char c"

definition rune_error :: nat where
  "rune_error = 65533"

definition cont_byte :: "nat \<Rightarrow> bool" where
  "cont_byte b \<longleftrightarrow> 128 \<le> b \<and> b \<le> 191"

text \<open>The second byte's accepted range depends on the first (overlong forms, surrogates).\<close>

definition second_lo :: "nat \<Rightarrow> nat" where
  "second_lo b0 = (if b0 = 224 then 160 else if b0 = 240 then 144 else 128)"

definition second_hi :: "nat \<Rightarrow> nat" where
  "second_hi b0 = (if b0 = 237 then 159 else if b0 = 244 then 143 else 191)"

definition decode_bytes :: "nat \<Rightarrow> nat list \<Rightarrow> nat \<times> nat" where
  "decode_bytes b0 bs =
     (if b0 < 128 then (b0, 1)
      else if 194 \<le> b0 \<and> b0 \<le> 223 then
        (case bs of
           b1 # _ \<Rightarrow> if cont_byte b1 then ((b0 - 192) * 64 + (b1 - 128), 2) else (rune_error, 1)
         | _ \<Rightarrow> (rune_error, 1))
      else if 224 \<le> b0 \<and> b0 \<le> 239 then
        (case bs of
           b1 # b2 # _ \<Rightarrow>
             if second_lo b0 \<le> b1 \<and> b1 \<le> second_hi b0 \<and> cont_byte b2
             then ((b0 - 224) * 4096 + (b1 - 128) * 64 + (b2 - 128), 3) else (rune_error, 1)
         | _ \<Rightarrow> (rune_error, 1))
      else if 240 \<le> b0 \<and> b0 \<le> 244 then
        (case bs of
           b1 # b2 # b3 # _ \<Rightarrow>
             if second_lo b0 \<le> b1 \<and> b1 \<le> second_hi b0 \<and> cont_byte b2 \<and> cont_byte b3
             then ((b0 - 240) * 262144 + (b1 - 128) * 4096 + (b2 - 128) * 64 + (b3 - 128), 4)
             else (rune_error, 1)
         | _ \<Rightarrow> (rune_error, 1))
      else (rune_error, 1))"

lemma decode_width_pos: "0 < snd (decode_bytes b bs)"
  by (auto simp: decode_bytes_def split: list.split)

text \<open>A string as its runes, each with the bytes it was decoded from.\<close>

function segs :: "string \<Rightarrow> (nat \<times> string) list" where
  "segs [] = []"
| "segs (c # cs) =
     (let (r, w) = decode_bytes (byte_of c) (map byte_of cs)
      in (r, take w (c # cs)) # segs (drop w (c # cs)))"
  by pat_completeness auto
termination
proof (relation "measure length")
  fix c cs x r w
  assume "x = decode_bytes (byte_of c) (map byte_of cs)" "(r, w) = x"
  then have "0 < w" using decode_width_pos[of "byte_of c" "map byte_of cs"] by (metis snd_conv)
  then show "(drop w (c # cs), c # cs) \<in> measure length" by simp
qed simp

declare segs.simps(2) [simp del]

definition runes :: "string \<Rightarrow> nat list" where
  "runes s = map fst (segs s)"

definition valid_rune :: "nat \<Rightarrow> bool" where
  "valid_rune r \<longleftrightarrow> r < 55296 \<or> 57344 \<le> r \<and> r < 1114112"

definition encode_valid :: "nat \<Rightarrow> nat list" where
  "encode_valid r =
     (if r < 128 then [r]
      else if r < 2048 then [192 + r div 64, 128 + r mod 64]
      else if r < 65536 then [224 + r div 4096, 128 + r div 64 mod 64, 128 + r mod 64]
      else [240 + r div 262144, 128 + r div 4096 mod 64, 128 + r div 64 mod 64, 128 + r mod 64])"

definition encode_rune :: "nat \<Rightarrow> string" where
  "encode_rune r = map char_of (encode_valid (if valid_rune r then r else rune_error))"

definition encode :: "nat list \<Rightarrow> string" where
  "encode rs = concat (map encode_rune rs)"

definition is_ascii :: "string \<Rightarrow> bool" where
  "is_ascii s \<longleftrightarrow> list_all (\<lambda>c. byte_of c < 128) s"

lemma is_ascii_simps [simp]:
  "is_ascii []" "is_ascii (c # s) \<longleftrightarrow> byte_of c < 128 \<and> is_ascii s"
  "is_ascii (s @ t) \<longleftrightarrow> is_ascii s \<and> is_ascii t"
  by (auto simp: is_ascii_def)

subsection \<open>Round trip\<close>

lemma segs_ascii: "is_ascii s \<Longrightarrow> segs s = map (\<lambda>c. (byte_of c, [c])) s"
  by (induction s) (simp_all add: segs.simps decode_bytes_def)

lemma runes_ascii: "is_ascii s \<Longrightarrow> runes s = map byte_of s"
  by (simp add: runes_def segs_ascii comp_def)

lemma concat_segs: "concat (map snd (segs s)) = s"
  by (induction s rule: segs.induct) (auto simp: segs.simps split: prod.split)

lemma split64: "(r::nat) = 64 * (r div 64) + r mod 64"
  by simp

lemma split4096:
  fixes r :: nat
  shows "r = 4096 * (r div 4096) + 64 * (r div 64 mod 64) + r mod 64"
proof -
  have "r div 64 = 64 * (r div 4096) + r div 64 mod 64"
    using split64[of "r div 64"] div_mult2_eq[of r 64 64] by simp
  with split64[of r] show ?thesis by linarith
qed

lemma split262144:
  fixes r :: nat
  shows "r = 262144 * (r div 262144) + 4096 * (r div 4096 mod 64) + 64 * (r div 64 mod 64) + r mod 64"
proof -
  have "r div 4096 = 64 * (r div 262144) + r div 4096 mod 64"
    using split64[of "r div 4096"] div_mult2_eq[of r 4096 64] by simp
  with split4096[of r] show ?thesis by linarith
qed

lemma mod64_less: "(r::nat) mod 64 < 64"
  by simp

lemma decode_encode_valid:
  assumes "valid_rune r"
  shows "encode_valid r \<noteq> [] \<and>
    decode_bytes (hd (encode_valid r)) (tl (encode_valid r) @ bs) = (r, length (encode_valid r))"
proof -
  consider "r < 128" | "128 \<le> r" "r < 2048" | "2048 \<le> r" "r < 65536" | "65536 \<le> r" by linarith
  then show ?thesis
  proof cases
    case 1
    then show ?thesis by (simp add: encode_valid_def decode_bytes_def)
  next
    case 2
    then have "r div 64 \<ge> 2" "r div 64 < 32" by auto
    with 2 show ?thesis by (simp add: encode_valid_def decode_bytes_def cont_byte_def)
  next
    case 3
    note e = split4096[of r] and c = mod64_less[of r] and b = mod64_less[of "r div 64"]
    have q: "r div 4096 < 16" using 3 e by linarith
    have z: "r div 4096 = 0 \<Longrightarrow> 32 \<le> r div 64 mod 64" using 3 e c by linarith
    have s: "r div 64 mod 64 \<le> 31" if d: "r div 4096 = 13"
    proof -
      from d e b c have "r < 57344" by linarith
      with assms have "r < 55296" by (auto simp: valid_rune_def)
      with d e show ?thesis by linarith
    qed
    have enc: "encode_valid r = [224 + r div 4096, 128 + r div 64 mod 64, 128 + r mod 64]"
      using 3 by (simp add: encode_valid_def)
    have "second_lo (224 + r div 4096) \<le> 128 + r div 64 mod 64"
      using z q by (auto simp: second_lo_def)
    moreover have "128 + r div 64 mod 64 \<le> second_hi (224 + r div 4096)"
      using s q b by (auto simp: second_hi_def)
    moreover have "cont_byte (128 + r mod 64)"
      using c by (simp add: cont_byte_def)
    moreover have "r div 4096 * 4096 + r div 64 mod 64 * 64 + r mod 64 = r"
      using e by linarith
    ultimately show ?thesis
      using q by (simp add: enc decode_bytes_def)
  next
    case 4
    with assms have u: "r < 1114112" by (simp add: valid_rune_def)
    note e = split262144[of r] and c = mod64_less[of r] and b = mod64_less[of "r div 64"]
      and a = mod64_less[of "r div 4096"]
    have q: "r div 262144 < 5" using u e by linarith
    have z: "r div 262144 = 0 \<Longrightarrow> 16 \<le> r div 4096 mod 64" using 4 e b c by linarith
    have f: "r div 262144 = 4 \<Longrightarrow> r div 4096 mod 64 \<le> 15" using u e by linarith
    have enc: "encode_valid r = [240 + r div 262144, 128 + r div 4096 mod 64,
        128 + r div 64 mod 64, 128 + r mod 64]"
      using 4 by (simp add: encode_valid_def)
    have "second_lo (240 + r div 262144) \<le> 128 + r div 4096 mod 64"
      using z by (auto simp: second_lo_def)
    moreover have "128 + r div 4096 mod 64 \<le> second_hi (240 + r div 262144)"
      using f a by (auto simp: second_hi_def)
    moreover have "cont_byte (128 + r mod 64)" "cont_byte (128 + r div 64 mod 64)"
      using b c by (simp_all add: cont_byte_def)
    moreover have "r div 262144 * 262144 + r div 4096 mod 64 * 4096 + r div 64 mod 64 * 64 + r mod 64 = r"
      using e by linarith
    ultimately show ?thesis
      using q by (simp add: enc decode_bytes_def)
  qed
qed

lemma encode_valid_bytes:
  assumes "valid_rune r"
  shows "list_all (\<lambda>b. b < 256) (encode_valid r)"
  using assms by (auto simp: encode_valid_def valid_rune_def less_mult_imp_div_less)

lemma byte_of_char_of: "list_all (\<lambda>b. b < 256) bs \<Longrightarrow> map byte_of (map char_of bs) = bs"
  by (induction bs) auto

lemma valid_rune_error [simp]: "valid_rune rune_error"
  by (simp add: valid_rune_def rune_error_def)

lemma segs_encode_rune:
  assumes "valid_rune r"
  shows "segs (encode_rune r @ s) = (r, encode_rune r) # segs s"
proof -
  let ?e = "encode_valid r"
  have ne: "?e \<noteq> []" and dec: "decode_bytes (hd ?e) (tl ?e @ map byte_of s) = (r, length ?e)"
    using decode_encode_valid[OF assms] by auto
  have enc: "encode_rune r = map char_of ?e" using assms by (simp add: encode_rune_def)
  obtain c cs where cs: "encode_rune r = c # cs" using ne enc by (cases ?e) auto
  have "map byte_of (c # cs) = map byte_of (map char_of ?e)"
    using enc cs by simp
  also have "\<dots> = ?e"
    by (rule byte_of_char_of[OF encode_valid_bytes[OF assms]])
  finally have e: "?e = byte_of c # map byte_of cs" by simp
  have "byte_of c = hd ?e" "map byte_of (cs @ s) = tl ?e @ map byte_of s" "length ?e = length (c # cs)"
    by (simp_all add: e)
  with dec have "decode_bytes (byte_of c) (map byte_of (cs @ s)) = (r, length (c # cs))" by simp
  then show ?thesis unfolding cs by (simp add: segs.simps)
qed

lemma runes_encode: "list_all valid_rune rs \<Longrightarrow> runes (encode rs) = rs"
  by (induction rs) (simp_all add: runes_def encode_def segs_encode_rune)

lemma encode_ascii: "is_ascii s \<Longrightarrow> encode (map byte_of s) = s"
  by (induction s) (auto simp: encode_def encode_rune_def encode_valid_def valid_rune_def)

lemma valid_rune_decode:
  assumes "b0 < 256"
  shows "valid_rune (fst (decode_bytes b0 bs))"
proof -
  have three: "valid_rune ((b0 - 224) * 4096 + (b1 - 128) * 64 + (b2 - 128))"
    if "224 \<le> b0" "b0 \<le> 239" "b1 \<le> second_hi b0" "cont_byte b2" for b1 b2
  proof (cases "b0 = 237")
    case True
    with that show ?thesis by (auto simp: valid_rune_def second_hi_def cont_byte_def)
  next
    case False
    with that have "b0 \<le> 236 \<or> 238 \<le> b0" "b1 \<le> 191" "b2 \<le> 191"
      by (auto simp: second_hi_def cont_byte_def split: if_splits)
    with that show ?thesis unfolding valid_rune_def by linarith
  qed
  have four: "valid_rune ((b0 - 240) * 262144 + (b1 - 128) * 4096 + (b2 - 128) * 64 + (b3 - 128))"
    if "240 \<le> b0" "b0 \<le> 244" "second_lo b0 \<le> b1" "b1 \<le> second_hi b0" "cont_byte b2" "cont_byte b3"
    for b1 b2 b3
  proof -
    have "b2 \<le> 191" "b3 \<le> 191" "b0 = 244 \<Longrightarrow> b1 \<le> 143" "b1 \<le> 191" "b0 = 240 \<Longrightarrow> 144 \<le> b1"
      using that by (auto simp: second_lo_def second_hi_def cont_byte_def split: if_splits)
    moreover have "b0 = 240 \<or> 241 \<le> b0" "b0 = 244 \<or> b0 \<le> 243" using that by auto
    ultimately show ?thesis using that(1,2) unfolding valid_rune_def by linarith
  qed
  have two: "valid_rune ((b0 - 192) * 64 + (b1 - 128))" if "b0 \<le> 223" "cont_byte b1" for b1
    using that unfolding valid_rune_def cont_byte_def by linarith
  have one: "valid_rune b0" if "b0 < 128"
    using that by (simp add: valid_rune_def)
  consider "b0 < 128" | "194 \<le> b0" "b0 \<le> 223" | "224 \<le> b0" "b0 \<le> 239" | "240 \<le> b0" "b0 \<le> 244"
    | "128 \<le> b0" "b0 < 194 \<or> 244 < b0"
    by linarith
  then show ?thesis
    by cases (simp_all add: decode_bytes_def one two three four split: list.split)
qed

lemma runes_valid: "list_all valid_rune (runes s)"
proof (induction s rule: segs.induct)
  case (2 c cs)
  obtain r w where rw: "decode_bytes (byte_of c) (map byte_of cs) = (r, w)" by (cases "decode_bytes (byte_of c) (map byte_of cs)")
  have "valid_rune r"
    using valid_rune_decode[of "byte_of c" "map byte_of cs"] rw by simp
  with 2[OF rw[symmetric] refl] rw show ?case by (simp add: runes_def segs.simps)
qed (simp add: runes_def)

section \<open>Unicode data\<close>

text \<open>
  \<open>u_lower\<close> is \<open>unicode.ToLower\<close> on runes beyond ASCII, \<open>u_mn\<close> membership in the category
  \<open>unicode.Mn\<close>, \<open>u_nfd\<close> is \<open>norm.NFD.String\<close>.
\<close>

record unicode =
  u_lower :: "nat \<Rightarrow> nat"
  u_mn :: "nat \<Rightarrow> bool"
  u_nfd :: "string \<Rightarrow> string"

text \<open>What the Unicode standard says of ASCII: no marks, and NFD leaves it alone.\<close>

definition unicode_ascii :: "unicode \<Rightarrow> bool" where
  "unicode_ascii U \<longleftrightarrow> (\<forall>r < 128. \<not> u_mn U r) \<and> (\<forall>s. is_ascii s \<longrightarrow> u_nfd U s = s)"

text \<open>A small instance: no case pairs beyond ASCII and the combining marks U+0300 to U+036F.\<close>

definition basic_unicode :: unicode where
  "basic_unicode = \<lparr>u_lower = (\<lambda>r. r), u_mn = (\<lambda>r. 768 \<le> r \<and> r \<le> 879), u_nfd = (\<lambda>s. s)\<rparr>"

lemma basic_unicode_ascii: "unicode_ascii basic_unicode"
  by (simp add: unicode_ascii_def basic_unicode_def)

section \<open>Package strings\<close>

definition ascii_lower :: "char \<Rightarrow> char" where
  "ascii_lower c = (if 65 \<le> byte_of c \<and> byte_of c \<le> 90 then char_of (byte_of c + 32) else c)"

definition rune_lower :: "unicode \<Rightarrow> nat \<Rightarrow> nat" where
  "rune_lower U r = (if r < 128 then (if 65 \<le> r \<and> r \<le> 90 then r + 32 else r) else u_lower U r)"

definition to_lower :: "unicode \<Rightarrow> string \<Rightarrow> string" where
  "to_lower U s = (if is_ascii s then map ascii_lower s else encode (map (rune_lower U) (runes s)))"

text \<open>\<open>unicode.IsSpace\<close>.\<close>

definition is_space :: "nat \<Rightarrow> bool" where
  "is_space r \<longleftrightarrow> 9 \<le> r \<and> r \<le> 13 \<or> r = 32 \<or> r = 133 \<or> r = 160 \<or> r = 5760 \<or>
     8192 \<le> r \<and> r \<le> 8202 \<or> r = 8232 \<or> r = 8233 \<or> r = 8239 \<or> r = 8287 \<or> r = 12288"

definition trim_segs :: "(nat \<times> string) list \<Rightarrow> (nat \<times> string) list" where
  "trim_segs ss = rev (dropWhile (is_space \<circ> fst) (rev (dropWhile (is_space \<circ> fst) ss)))"

definition trim_space :: "string \<Rightarrow> string" where
  "trim_space s = concat (map snd (trim_segs (segs s)))"

fun split_fields :: "(nat \<times> string) list \<Rightarrow> string \<Rightarrow> string list" where
  "split_fields [] acc = (if acc = [] then [] else [acc])"
| "split_fields ((r, bs) # ss) acc =
     (if is_space r then (if acc = [] then split_fields ss [] else acc # split_fields ss [])
      else split_fields ss (acc @ bs))"

definition fields :: "string \<Rightarrow> string list" where
  "fields s = split_fields (segs s) []"

fun join :: "string \<Rightarrow> string list \<Rightarrow> string" where
  "join sep [] = []"
| "join sep [x] = x"
| "join sep (x # y # xs) = x @ sep @ join sep (y # xs)"

fun has_prefix :: "string \<Rightarrow> string \<Rightarrow> bool" where
  "has_prefix _ [] \<longleftrightarrow> True"
| "has_prefix [] (_ # _) \<longleftrightarrow> False"
| "has_prefix (c # s) (d # p) \<longleftrightarrow> c = d \<and> has_prefix s p"

fun contains :: "string \<Rightarrow> string \<Rightarrow> bool" where
  "contains [] t \<longleftrightarrow> t = []"
| "contains (c # s) t \<longleftrightarrow> has_prefix (c # s) t \<or> contains s t"

text \<open>
  \<open>strings.EqualFold(s, t)\<close> for a lower-case ASCII \<open>t\<close> without the letters \<open>k\<close> and \<open>s\<close>,
  the only ASCII letters that fold together with a rune beyond ASCII.
\<close>

definition equal_fold_ascii :: "string \<Rightarrow> string \<Rightarrow> bool" where
  "equal_fold_ascii s t \<longleftrightarrow> map ascii_lower s = t"

text \<open>All matches of the regular expression \<open>[class]+\<close>: the maximal runs of the class.\<close>

fun find_runs :: "(char \<Rightarrow> bool) \<Rightarrow> string \<Rightarrow> string \<Rightarrow> string list" where
  "find_runs p [] acc = (if acc = [] then [] else [acc])"
| "find_runs p (c # s) acc =
     (if p c then find_runs p s (acc @ [c])
      else if acc = [] then find_runs p s [] else acc # find_runs p s [])"

subsection \<open>Facts\<close>

lemma is_ascii_map_lower [simp]: "is_ascii (map ascii_lower s) \<longleftrightarrow> is_ascii s"
  by (induction s) (auto simp: ascii_lower_def)

lemma ascii_lower_idem [simp]: "ascii_lower (ascii_lower c) = ascii_lower c"
  by (auto simp: ascii_lower_def)

lemma to_lower_ascii: "is_ascii s \<Longrightarrow> to_lower U s = map ascii_lower s"
  by (simp add: to_lower_def)

lemma to_lower_ascii_idem: "is_ascii s \<Longrightarrow> to_lower U (to_lower U s) = to_lower U s"
  by (simp add: to_lower_ascii comp_def)

lemma to_lower_Nil [simp]: "to_lower U [] = []"
  by (simp add: to_lower_ascii)

lemma find_runs_members:
  assumes "list_all p acc"
  shows "list_all (\<lambda>w. w \<noteq> [] \<and> list_all p w) (find_runs p s acc)"
  using assms by (induction p s acc rule: find_runs.induct) auto

lemma find_runs_run: "list_all p w \<Longrightarrow> find_runs p (w @ s) acc = find_runs p s (acc @ w)"
  by (induction w arbitrary: acc) auto

lemma find_runs_join:
  assumes "list_all (\<lambda>w. w \<noteq> [] \<and> list_all p w) ws" "\<not> p sep"
  shows "find_runs p (join [sep] ws) [] = ws"
  using assms
proof (induction "[sep]" ws rule: join.induct)
  case (3 x y xs)
  then have "find_runs p (x @ sep # join [sep] (y # xs)) [] = x # find_runs p (join [sep] (y # xs)) []"
    using find_runs_run[of p x "sep # join [sep] (y # xs)" "[]"] by simp
  with 3 show ?case by simp
qed (use find_runs_run[of p _ "[]" "[]"] in auto)

lemma trim_segs_idem: "trim_segs (trim_segs ss) = trim_segs ss"
proof -
  have hd: "dropWhile P (rev (dropWhile P (rev (dropWhile P xs)))) = rev (dropWhile P (rev (dropWhile P xs)))"
    for P and xs :: "'a list"
  proof (cases "dropWhile P xs")
    case (Cons y ys)
    then have "\<not> P y" by (metis hd_dropWhile list.distinct(1) list.sel(1))
    then have "rev (dropWhile P (rev (y # ys))) = y # rev (dropWhile P (rev ys))"
      by (simp add: dropWhile_append)
    with Cons \<open>\<not> P y\<close> show ?thesis by simp
  next
    case Nil
    show ?thesis unfolding Nil by simp
  qed
  show ?thesis by (simp add: trim_segs_def hd)
qed

text \<open>Cutting whole runes off either end leaves the other runes as they were.\<close>

lemma decode_prefix:
  assumes "decode_bytes b0 (xs @ ys) = (r, w)" "w \<le> Suc (length xs)"
  shows "decode_bytes b0 xs = (r, w)"
proof -
  consider "xs = []" | b1 where "xs = [b1]" | b1 b2 where "xs = [b1, b2]" | b1 b2 b3 zs where "xs = b1 # b2 # b3 # zs"
    by (cases xs; cases "tl xs"; cases "tl (tl xs)") auto
  then show ?thesis
    by cases (use assms in \<open>auto simp: decode_bytes_def split: if_splits list.splits\<close>)
qed

lemma segs_suffix: "segs s = ss1 @ ss2 \<Longrightarrow> segs (concat (map snd ss2)) = ss2"
proof (induction ss1 arbitrary: s)
  case Nil
  then show ?case by (metis append_Nil concat_segs)
next
  case (Cons x ss1)
  then obtain c cs where s: "s = c # cs" by (cases s) auto
  obtain r w where d: "decode_bytes (byte_of c) (map byte_of cs) = (r, w)" by force
  have "segs (drop w (c # cs)) = ss1 @ ss2" using Cons.prems by (simp add: s segs.simps(2) d)
  then show ?case by (rule Cons.IH)
qed

lemma segs_prefix: "segs s = ss1 @ ss2 \<Longrightarrow> segs (concat (map snd ss1)) = ss1"
proof (induction s arbitrary: ss1 rule: segs.induct)
  case (2 c cs)
  show ?case
  proof (cases ss1)
    case (Cons x rest)
    obtain r w where d: "decode_bytes (byte_of c) (map byte_of cs) = (r, w)" by force
    have w: "0 < w" using decode_width_pos[of "byte_of c" "map byte_of cs"] d by simp
    have x: "x = (r, take w (c # cs))" and rest: "segs (drop w (c # cs)) = rest @ ss2"
      using "2.prems" Cons by (simp_all add: segs.simps(2) d)
    have IH: "segs (concat (map snd rest)) = rest" by (rule "2.IH"[OF d[symmetric] refl rest])
    define q where "q = concat (map snd rest)"
    have "drop w (c # cs) = q @ concat (map snd ss2)"
      using concat_segs[of "drop w (c # cs)"] unfolding rest q_def by simp
    then have cat: "c # cs = take w (c # cs) @ q @ concat (map snd ss2)"
      by (metis append_take_drop_id)
    show ?thesis
    proof (cases "w \<le> length (c # cs)")
      case True
      then obtain p where p: "take w (c # cs) = c # p" "length p = w - 1" using w by (cases w) auto
      then have "cs = (p @ q) @ concat (map snd ss2)" using cat by simp
      then have "map byte_of cs = map byte_of (p @ q) @ map byte_of (concat (map snd ss2))"
        by (simp only: map_append)
      moreover have "w \<le> Suc (length (map byte_of (p @ q)))" using p(2) w by simp
      ultimately have "decode_bytes (byte_of c) (map byte_of (p @ q)) = (r, w)"
        using decode_prefix d by metis
      moreover have "take w (c # p @ q) = c # p" "drop w (c # p @ q) = q"
        using p(2) w by (cases w; simp)+
      ultimately have "segs (c # p @ q) = (r, c # p) # segs q" by (simp add: segs.simps(2))
      then show ?thesis using Cons x p(1) IH by (simp add: q_def)
    next
      case False
      then have "segs (drop w (c # cs)) = []" by simp
      then have "rest = []" "ss2 = []" using rest by auto
      then show ?thesis using Cons x False "2.prems" by simp
    qed
  qed simp
qed simp

lemma trim_segs_infix: "\<exists>a b. ss = a @ trim_segs ss @ b"
proof -
  have "ss = takeWhile (is_space \<circ> fst) ss @ dropWhile (is_space \<circ> fst) ss" by simp
  moreover have "dropWhile (is_space \<circ> fst) ss =
      rev (dropWhile (is_space \<circ> fst) (rev (dropWhile (is_space \<circ> fst) ss))) @
      rev (takeWhile (is_space \<circ> fst) (rev (dropWhile (is_space \<circ> fst) ss)))"
    by (metis rev_append rev_rev_ident takeWhile_dropWhile_id)
  ultimately show ?thesis unfolding trim_segs_def by metis
qed

lemma segs_trim_space: "segs (trim_space s) = trim_segs (segs s)"
proof -
  obtain a b where ab: "segs s = a @ trim_segs (segs s) @ b" using trim_segs_infix by blast
  from segs_suffix[OF ab] have "segs (concat (map snd (trim_segs (segs s) @ b))) = trim_segs (segs s) @ b" .
  from segs_prefix[OF this] show ?thesis by (simp add: trim_space_def)
qed

lemma trim_space_idem [simp]: "trim_space (trim_space s) = trim_space s"
  by (simp only: trim_space_def[of "trim_space s"] segs_trim_space trim_segs_idem) (simp add: trim_space_def)

lemma trim_space_Nil [simp]: "trim_space [] = []"
  by (simp add: trim_space_def trim_segs_def)

text \<open>Text without a space at either end is its own trim.\<close>

lemma trim_space_ascii_fixed:
  assumes "is_ascii s" "s = [] \<or> \<not> is_space (byte_of (hd s)) \<and> \<not> is_space (byte_of (last s))"
  shows "trim_space s = s"
proof (cases "s = []")
  case False
  let ?ss = "map (\<lambda>c. (byte_of c, [c])) s"
  have drop: "dropWhile (is_space \<circ> fst) xs = xs" if "xs \<noteq> []" "\<not> is_space (fst (hd xs))" for xs :: "(nat \<times> string) list"
    using that by (cases xs) auto
  have "dropWhile (is_space \<circ> fst) ?ss = ?ss" "dropWhile (is_space \<circ> fst) (rev ?ss) = rev ?ss"
    using assms(2) False by (intro drop; simp add: hd_map hd_rev last_map)+
  then have "trim_segs ?ss = ?ss" by (simp add: trim_segs_def)
  then show ?thesis by (simp add: trim_space_def segs_ascii[OF assms(1)] comp_def)
qed simp

lemma runes_eq_Nil: "runes s = [] \<longleftrightarrow> s = []"
  by (cases s) (auto simp: runes_def segs.simps(2) split: prod.split)

end
