(* ===== verification/Domain.thy ===== *)
theory Domain
  imports Float64 Go_Strings "HOL-Library.Word"
begin

text \<open>
  Package \<open>domain\<close> (\<open>types.go\<close>, \<open>overlay.go\<close>, \<open>repo.go\<close>, \<open>embedder.go\<close>): the records
  the layers exchange, and the two ports as locales. An identifier is the 128-bit value of
  a UUID, a \<open>float32\<close> the \<open>f64\<close> of its value, an instant the
  nanoseconds since the epoch, a nilable pointer an \<open>option\<close>. A port is a state-passing
  function, because an adapter may answer differently on each call; its laws are what
  \<open>repo.go\<close> and \<open>embedder.go\<close> document.
\<close>

type_synonym uuid = "128 word"
type_synonym f32 = f64
type_synonym instant = int

section \<open>Archetypes\<close>

type_synonym archetype = string

definition ArchetypeLowStakesFastNearby :: archetype where
  "ArchetypeLowStakesFastNearby = ''low_stakes_fast_nearby''"

definition ArchetypeMediumStakesOccasion :: archetype where
  "ArchetypeMediumStakesOccasion = ''medium_stakes_occasion''"

definition ArchetypeHighStakesOneTime :: archetype where
  "ArchetypeHighStakesOneTime = ''high_stakes_one_time''"

definition ArchetypeExperiential :: archetype where
  "ArchetypeExperiential = ''experiential''"

definition ArchetypeRecurringService :: archetype where
  "ArchetypeRecurringService = ''recurring_service''"

definition ArchetypeUtilityDistanceDominant :: archetype where
  "ArchetypeUtilityDistanceDominant = ''utility_distance_dominant''"

lemmas archetype_defs = ArchetypeLowStakesFastNearby_def ArchetypeMediumStakesOccasion_def
  ArchetypeHighStakesOneTime_def ArchetypeExperiential_def ArchetypeRecurringService_def
  ArchetypeUtilityDistanceDominant_def

definition all_archetypes :: "archetype list" where
  "all_archetypes = [ArchetypeLowStakesFastNearby, ArchetypeMediumStakesOccasion,
     ArchetypeHighStakesOneTime, ArchetypeExperiential, ArchetypeRecurringService,
     ArchetypeUtilityDistanceDominant]"

lemma distinct_all_archetypes: "distinct all_archetypes"
  by (simp add: all_archetypes_def archetype_defs)

section \<open>Candidates and search options\<close>

record candidate =
  cID :: uuid
  cName :: string
  cCategory :: string
  cSubcategory :: "string option"
  cArchetype :: archetype
  cNeighborhood :: "string option"
  cDistanceKM :: f64
  cLemonScore :: "f64 option"
  cGoogleRating :: "f64 option"
  cGoogleReviewCount :: int
  cPriceRange :: "string option"
  cPhotoCount :: int
  cPhotoURL :: "string option"
  cIsClaimed :: bool
  cFriendCount :: int
  cIsNew :: bool
  cIsOpenNow :: "bool option"
  cOpensLater :: bool
  cHours :: "string option"

record overlay =
  ovCategoryFilter :: "string option"
  ovSubcategoryFilter :: "string list"
  ovUniversalTagFilter :: "string list"
  ovSpecificTagFilter :: "string list"
  ovPriceFilter :: "string list"
  ovRequireOpenNow :: bool

definition zero_overlay :: overlay where
  "zero_overlay = \<lparr>ovCategoryFilter = None, ovSubcategoryFilter = [], ovUniversalTagFilter = [],
     ovSpecificTagFilter = [], ovPriceFilter = [], ovRequireOpenNow = False\<rparr>"

definition IsZero :: "overlay \<Rightarrow> bool" where
  "IsZero ov \<longleftrightarrow> ovCategoryFilter ov = None \<and>
     length (ovSubcategoryFilter ov) = 0 \<and>
     length (ovUniversalTagFilter ov) = 0 \<and>
     length (ovSpecificTagFilter ov) = 0 \<and>
     length (ovPriceFilter ov) = 0 \<and>
     \<not> ovRequireOpenNow ov"

lemma IsZero_iff: "IsZero ov \<longleftrightarrow> ov = zero_overlay"
  by (cases ov) (auto simp: IsZero_def zero_overlay_def)

lemma IsZero_zero_overlay [simp]: "IsZero zero_overlay"
  by (simp add: IsZero_iff)

record search_opts =
  soLat :: f64
  soLng :: f64
  soLimit :: int
  soNow :: instant
  soOverlay :: overlay
  soQueryVec :: "f32 list option"

definition EmbeddingDim :: nat where
  "EmbeddingDim = 384"

section \<open>Ports\<close>

text \<open>
  \<open>BusinessRepo\<close>: \<open>search s q opts\<close> and \<open>exact s q\<close> return a result and the adapter's next
  state. \<open>Search\<close> returns up to \<open>opts.Limit\<close> candidates, \<open>ExactName\<close> at most one; a context
  that is done is the error the adapter returns.
\<close>

locale business_repo =
  fixes search :: "'s \<Rightarrow> string \<Rightarrow> search_opts \<Rightarrow> ('e + candidate list) \<times> 's"
    and exact :: "'s \<Rightarrow> string \<Rightarrow> ('e + candidate option) \<times> 's"
    and ok :: "'s \<Rightarrow> bool"
  assumes search_ok: "ok s \<Longrightarrow> search s q opts = (r, s') \<Longrightarrow> ok s'"
    and exact_ok: "ok s \<Longrightarrow> exact s q = (x, s') \<Longrightarrow> ok s'"
    and search_limit: "ok s \<Longrightarrow> search s q opts = (Inr cs, s') \<Longrightarrow> 0 \<le> soLimit opts \<Longrightarrow>
      int (length cs) \<le> soLimit opts"

text \<open>\<open>Embedder\<close>: vectors of \<open>EmbeddingDim\<close> entries, one per text and index-aligned.\<close>

locale embedder =
  fixes embed :: "'s \<Rightarrow> string \<Rightarrow> ('e + f32 list) \<times> 's"
    and embed_batch :: "'s \<Rightarrow> string list \<Rightarrow> ('e + f32 list list) \<times> 's"
  assumes embed_dim: "embed s t = (Inr v, s') \<Longrightarrow> length v = EmbeddingDim"
    and batch_length: "embed_batch s ts = (Inr vs, s') \<Longrightarrow> length vs = length ts"
    and batch_dim: "embed_batch s ts = (Inr vs, s') \<Longrightarrow> list_all (\<lambda>v. length v = EmbeddingDim) vs"

end
