(* ===== verification/Config.thy ===== *)
theory Config
  imports Domain
begin

text \<open>
  Package \<open>config\<close>: the typed view of \<open>config/ranking.yaml\<close> (\<open>types.go\<close>) and its
  fail-fast validation (\<open>loader.go\<close>). The two lookup-only maps are functions to options; the
  \<open>archetypes\<close> map, which validation ranges over, is the association list of its entries
  in the iteration's order. YAML decoding and opening a file are parameters.
\<close>

record bayesian_rating =
  bPriorStrength :: f64
  bGlobalMean :: f64
  bSource :: string

record open_status_cfg =
  osClosed :: f64
  osOpensLater :: f64
  osOpenNow :: f64
  osUnknownHoursSignal :: f64

record signal_formulas =
  sfRating :: string
  sfBayesianRating :: bayesian_rating
  sfDistance :: string
  sfDistanceDecayKM :: "string \<rightharpoonup> f64"
  sfGlobalMaxReviews :: f64
  sfPhotoDemotionBelow3 :: f64
  sfFriendsFullCredit :: f64
  sfOpenStatus :: open_status_cfg

record archetype_cfg =
  arWeights :: "string \<rightharpoonup> f64"
  arOpenStatus :: string

record new_business =
  nbThresholdReviewCount :: int
  nbRatingDemoteFactor :: f64
  nbPinTop :: bool
  nbSwapWindow :: f64

record ranking =
  rSignals :: "string list"
  rSignalFormulas :: signal_formulas
  rArchetypes :: "(archetype \<times> archetype_cfg) list"
  rNewBusiness :: new_business
  rSimilarityThreshold :: f64

text \<open>Indexing a Go map yields the zero value on a missing key.\<close>

definition lookup_f64 :: "(string \<rightharpoonup> f64) \<Rightarrow> string \<Rightarrow> f64" where
  "lookup_f64 m k = (case m k of None \<Rightarrow> Fin 0 | Some v \<Rightarrow> v)"

definition zero_archetype :: archetype_cfg where
  "zero_archetype = \<lparr>arWeights = (\<lambda>_. None), arOpenStatus = ''''\<rparr>"

definition archetype_of :: "ranking \<Rightarrow> archetype \<Rightarrow> archetype_cfg" where
  "archetype_of cfg a = (case map_of (rArchetypes cfg) a of None \<Rightarrow> zero_archetype | Some x \<Rightarrow> x)"

section \<open>Validation\<close>

text \<open>Every branch that wraps \<open>ErrInvalidConfig\<close>, and the two errors that do not.\<close>

datatype 'd config_error =
    OpeningFailed string 'd
  | DecodingFailed 'd
  | SignalsRequired
  | ArchetypesRequired
  | RatingRequired
  | DistanceRequired
  | BadRatingMode string
  | BadBayesianSource string
  | BadDistanceMode string
  | UnknownArchetype archetype
  | BadOpenStatus archetype string

fun is_invalid_config :: "'d config_error \<Rightarrow> bool" where
  "is_invalid_config (OpeningFailed _ _) = False"
| "is_invalid_config (DecodingFailed _) = False"
| "is_invalid_config _ = True"

definition validArchetype :: "archetype \<Rightarrow> bool" where
  "validArchetype name \<longleftrightarrow>
     (name = ArchetypeLowStakesFastNearby \<or>
      name = ArchetypeMediumStakesOccasion \<or>
      name = ArchetypeHighStakesOneTime \<or>
      name = ArchetypeExperiential \<or>
      name = ArchetypeRecurringService \<or>
      name = ArchetypeUtilityDistanceDominant)"

definition validateOpenStatus :: "archetype \<Rightarrow> string \<Rightarrow> 'd config_error + unit" where
  "validateOpenStatus name status =
     (if status = ''hard_filter'' \<or> status = ''soft'' \<or> status = ''ignore'' then Inr ()
      else Inl (BadOpenStatus name status))"

definition validateBayesianSource :: "string \<Rightarrow> 'd config_error + unit" where
  "validateBayesianSource source =
     (if source = ''google_rating'' \<or> source = ''lemon_score'' then Inr ()
      else Inl (BadBayesianSource source))"

definition validateRequiredBlocks :: "ranking \<Rightarrow> 'd config_error + unit" where
  "validateRequiredBlocks r =
     (if length (rSignals r) = 0 then Inl SignalsRequired
      else if length (rArchetypes r) = 0 then Inl ArchetypesRequired
      else if sfRating (rSignalFormulas r) = '''' then Inl RatingRequired
      else if sfDistance (rSignalFormulas r) = '''' then Inl DistanceRequired
      else Inr ())"

definition validateFormulaModes :: "ranking \<Rightarrow> 'd config_error + unit" where
  "validateFormulaModes r = res_bind
     (if sfRating (rSignalFormulas r) = ''literal'' then Inr ()
      else if sfRating (rSignalFormulas r) = ''bayesian'' then
        validateBayesianSource (bSource (sfBayesianRating (rSignalFormulas r)))
      else Inl (BadRatingMode (sfRating (rSignalFormulas r))))
     (\<lambda>_. if sfDistance (rSignalFormulas r) = ''literal'' \<or> sfDistance (rSignalFormulas r) = ''decay''
          then Inr () else Inl (BadDistanceMode (sfDistance (rSignalFormulas r))))"

fun validate_entries :: "(archetype \<times> archetype_cfg) list \<Rightarrow> 'd config_error + unit" where
  "validate_entries [] = Inr ()"
| "validate_entries ((name, a) # rest) =
     (if \<not> validArchetype name then Inl (UnknownArchetype name)
      else res_bind (validateOpenStatus name (arOpenStatus a)) (\<lambda>_. validate_entries rest))"

definition validateArchetypes :: "ranking \<Rightarrow> 'd config_error + unit" where
  "validateArchetypes r = validate_entries (rArchetypes r)"

definition validate :: "ranking \<Rightarrow> 'd config_error + unit" where
  "validate r = res_bind (validateRequiredBlocks r) (\<lambda>_.
     res_bind (validateFormulaModes r) (\<lambda>_. validateArchetypes r))"

text \<open>\<open>Load\<close> and \<open>LoadFile\<close>, over a YAML decoder and a file opener.\<close>

definition Load :: "('r \<Rightarrow> 'd + ranking) \<Rightarrow> 'r \<Rightarrow> 'd config_error + ranking" where
  "Load decode r = res_bind (map_err DecodingFailed (decode r)) (\<lambda>cfg.
     res_bind (validate cfg) (\<lambda>_. Inr cfg))"

definition LoadFile :: "(string \<Rightarrow> 'd + 'r) \<Rightarrow> ('r \<Rightarrow> 'd + ranking) \<Rightarrow> string \<Rightarrow> 'd config_error + ranking" where
  "LoadFile open_file decode path =
     res_bind (map_err (OpeningFailed path) (open_file path)) (Load decode)"

section \<open>What is accepted\<close>

text \<open>The configuration the ranker is promised.\<close>

definition known_status :: "string \<Rightarrow> bool" where
  "known_status s \<longleftrightarrow> s \<in> {''hard_filter'', ''soft'', ''ignore''}"

definition valid_ranking :: "ranking \<Rightarrow> bool" where
  "valid_ranking r \<longleftrightarrow>
     rSignals r \<noteq> [] \<and> rArchetypes r \<noteq> [] \<and>
     (sfRating (rSignalFormulas r) = ''literal'' \<or>
      sfRating (rSignalFormulas r) = ''bayesian'' \<and>
      bSource (sfBayesianRating (rSignalFormulas r)) \<in> {''google_rating'', ''lemon_score''}) \<and>
     sfDistance (rSignalFormulas r) \<in> {''literal'', ''decay''} \<and>
     list_all (\<lambda>(n, a). n \<in> set all_archetypes \<and> known_status (arOpenStatus a)) (rArchetypes r)"

lemma validArchetype_iff: "validArchetype a \<longleftrightarrow> a \<in> set all_archetypes"
  by (auto simp: validArchetype_def all_archetypes_def)

lemma validateOpenStatus_ok: "validateOpenStatus n s = Inr () \<longleftrightarrow> known_status s"
  by (auto simp: validateOpenStatus_def known_status_def)

lemma validate_entries_ok:
  "validate_entries es = Inr () \<longleftrightarrow>
     list_all (\<lambda>(n, a). n \<in> set all_archetypes \<and> known_status (arOpenStatus a)) es"
  by (induction es rule: validate_entries.induct)
    (auto simp: validArchetype_iff res_bind_eq_Inr validateOpenStatus_ok)

lemma validate_ok: "validate r = Inr () \<longleftrightarrow> valid_ranking r"
  by (auto simp: validate_def valid_ranking_def validateRequiredBlocks_def validateFormulaModes_def
      validateBayesianSource_def validateArchetypes_def validate_entries_ok res_bind_eq_Inr)

lemma Load_ok: "Load decode r = Inr cfg \<longleftrightarrow> decode r = Inr cfg \<and> valid_ranking cfg"
  by (auto simp: Load_def res_bind_eq_Inr validate_ok)

text \<open>The first failing entry, in iteration order, is the one reported.\<close>

definition entry_ok :: "archetype \<times> archetype_cfg \<Rightarrow> bool" where
  "entry_ok e \<longleftrightarrow> fst e \<in> set all_archetypes \<and> known_status (arOpenStatus (snd e))"

lemma validate_entries_eq:
  "validate_entries es = (case find (\<lambda>e. \<not> entry_ok e) es of None \<Rightarrow> Inr ()
     | Some (n, a) \<Rightarrow> Inl (if n \<in> set all_archetypes then BadOpenStatus n (arOpenStatus a) else UnknownArchetype n))"
proof (induction es rule: validate_entries.induct)
  case (2 n a es)
  then show ?case
    by (cases "known_status (arOpenStatus a)")
      (auto simp: entry_ok_def validArchetype_iff validateOpenStatus_def known_status_def)
qed simp

lemma valid_ranking_perm:
  assumes "rSignals r' = rSignals r" "rSignalFormulas r' = rSignalFormulas r"
    and "mset (rArchetypes r') = mset (rArchetypes r)"
  shows "valid_ranking r' \<longleftrightarrow> valid_ranking r"
proof -
  have "set (rArchetypes r') = set (rArchetypes r)" using assms(3) by (rule mset_eq_setD)
  moreover have "rArchetypes r' = [] \<longleftrightarrow> rArchetypes r = []" using assms(3) by auto
  ultimately show ?thesis by (simp add: valid_ranking_def list_all_iff assms)
qed

text \<open>
  Validation checks structure only. The scorer's values also depend on the numeric knobs;
  \<open>unit_knobs\<close> collects what keeps every signal inside the unit interval.
\<close>

definition unit_knobs :: "signal_formulas \<Rightarrow> new_business \<Rightarrow> bool" where
  "unit_knobs sf nb \<longleftrightarrow>
     unit_f (nbRatingDemoteFactor nb) \<and> unit_f (sfPhotoDemotionBelow3 sf) \<and>
     f_lt (Fin 0) (sfFriendsFullCredit sf) \<and> f_lt (Fin 0) (f_log1p (sfGlobalMaxReviews sf)) \<and>
     unit_f (osClosed (sfOpenStatus sf)) \<and> unit_f (osOpensLater (sfOpenStatus sf)) \<and>
     unit_f (osOpenNow (sfOpenStatus sf)) \<and> unit_f (osUnknownHoursSignal (sfOpenStatus sf))"

text \<open>Lookups.\<close>

lemma lookup_f64_simps [simp]:
  "m k = None \<Longrightarrow> lookup_f64 m k = Fin 0" "m k = Some v \<Longrightarrow> lookup_f64 m k = v"
  by (simp_all add: lookup_f64_def)

lemma archetype_of_known:
  "valid_ranking cfg \<Longrightarrow> map_of (rArchetypes cfg) a = Some x \<Longrightarrow>
    a \<in> set all_archetypes \<and> known_status (arOpenStatus x)"
  by (auto simp: valid_ranking_def list_all_iff dest!: map_of_SomeD)

lemma archetype_of_status:
  "valid_ranking cfg \<Longrightarrow> arOpenStatus (archetype_of cfg a) \<in> {''hard_filter'', ''soft'', ''ignore'', []}"
  using archetype_of_known[of cfg a]
  by (cases "map_of (rArchetypes cfg) a") (auto simp: archetype_of_def zero_archetype_def known_status_def)

end
