(* ===== verification/Signals.thy ===== *)
theory Signals
  imports Config
begin

text \<open>
  Package \<open>rank\<close>, file \<open>signals.go\<close>: the seven signal functions over a candidate and the
  configuration, in \<open>float64\<close> arithmetic. The lemmas give each function's value on every
  branch of interest and its range; \<open>signal_unit\<close> collects the ranges.
\<close>

section \<open>Constants of the specification\<close>

definition distanceCapKM :: f64 where "distanceCapKM = f_const (4828 / 100)"
definition ratingScale :: f64 where "ratingScale = f_const 10"
definition bayesianScale :: f64 where "bayesianScale = f_const 5"
definition photosFullCredit :: int where "photosFullCredit = 3"

lemma ratingScale_eq [f64_simps]: "ratingScale = Fin 10"
  by (simp add: ratingScale_def f_const_def fround_numeral)

lemma bayesianScale_eq [f64_simps]: "bayesianScale = Fin 5"
  by (simp add: bayesianScale_def f_const_def fround_numeral)

text \<open>The cap is finite and, rounding aside, 48.28.\<close>

definition cap_km :: real where "cap_km = rnd (4828 / 100)"

lemma distanceCapKM_eq [f64_simps]: "distanceCapKM = Fin cap_km"
  and cap_km_bounds: "48 \<le> cap_km" "cap_km \<le> 49"
proof -
  have m: "rnd (of_int 48) \<le> rnd (4828 / 100)" "rnd (4828 / 100) \<le> rnd (of_int 49)"
    by (rule rnd_mono; simp)+
  then show b: "48 \<le> cap_km" "cap_km \<le> 49"
    using rnd_of_int[of 48] rnd_of_int[of 49] unfolding cap_km_def by simp_all
  have "(49::real) < overflow64" by (rule overflow64_gt) simp
  moreover have "- overflow64 < 0" by simp
  ultimately show "distanceCapKM = Fin cap_km"
    using b unfolding distanceCapKM_def f_const_def fround_def Let_def cap_km_def[symmetric] by simp
qed

lemma cap_km_pos [simp]: "0 < cap_km" "cap_km \<noteq> 0" "\<not> cap_km < 0"
  using cap_km_bounds by linarith+

section \<open>The signals\<close>

definition literal_distance :: "candidate \<Rightarrow> f64" where
  "literal_distance c = f_max (f_sub (Fin 1) (f_div (cDistanceKM c) distanceCapKM)) (Fin 0)"

definition distanceDecay :: "candidate \<Rightarrow> ranking \<Rightarrow> f64" where
  "distanceDecay c cfg =
     (let km = lookup_f64 (sfDistanceDecayKM (rSignalFormulas cfg)) (cArchetype c)
      in if f_le km (Fin 0) then literal_distance c
         else f_exp (f_div (f_neg (cDistanceKM c)) km))"

definition signalDistance :: "candidate \<Rightarrow> ranking \<Rightarrow> f64" where
  "signalDistance c cfg =
     (if sfDistance (rSignalFormulas cfg) = ''decay'' then distanceDecay c cfg else literal_distance c)"

definition literalRating :: "candidate \<Rightarrow> f64" where
  "literalRating c = (case cLemonScore c of None \<Rightarrow> Fin 0 | Some x \<Rightarrow> f_div x ratingScale)"

definition bayesianRating :: "candidate \<Rightarrow> ranking \<Rightarrow> f64" where
  "bayesianRating c cfg =
     (let b = sfBayesianRating (rSignalFormulas cfg);
          r = (if bSource b = ''lemon_score'' then cLemonScore c else cGoogleRating c)
      in case r of None \<Rightarrow> Fin 0
         | Some v \<Rightarrow> (let n = f_of_int (cGoogleReviewCount c) in
             f_div (f_div (f_add (f_mul (bPriorStrength b) (bGlobalMean b)) (f_mul n v))
                          (f_add (bPriorStrength b) n))
                   bayesianScale))"

definition signalRating :: "candidate \<Rightarrow> ranking \<Rightarrow> f64" where
  "signalRating c cfg =
     (let base = (if sfRating (rSignalFormulas cfg) = ''bayesian'' then bayesianRating c cfg
                  else literalRating c)
      in if cIsNew c then f_mul base (nbRatingDemoteFactor (rNewBusiness cfg)) else base)"

definition signalPopularity :: "candidate \<Rightarrow> ranking \<Rightarrow> f64" where
  "signalPopularity c cfg =
     (if cGoogleReviewCount c \<le> 0 then Fin 0
      else f_min (f_div (f_log1p (f_of_int (cGoogleReviewCount c)))
                        (f_log1p (sfGlobalMaxReviews (rSignalFormulas cfg)))) (Fin 1))"

definition signalFriends :: "candidate \<Rightarrow> ranking \<Rightarrow> f64" where
  "signalFriends c cfg =
     f_min (f_div (f_of_int (cFriendCount c)) (sfFriendsFullCredit (rSignalFormulas cfg))) (Fin 1)"

definition signalClaimed :: "candidate \<Rightarrow> f64" where
  "signalClaimed c = (if cIsClaimed c then Fin 1 else Fin 0)"

definition signalPhotos :: "candidate \<Rightarrow> ranking \<Rightarrow> f64" where
  "signalPhotos c cfg =
     (if photosFullCredit \<le> cPhotoCount c then Fin 1 else sfPhotoDemotionBelow3 (rSignalFormulas cfg))"

definition signalOpenStatus :: "candidate \<Rightarrow> ranking \<Rightarrow> f64" where
  "signalOpenStatus c cfg =
     (let os = sfOpenStatus (rSignalFormulas cfg) in
      case cIsOpenNow c of
        None \<Rightarrow> osUnknownHoursSignal os
      | Some open_now \<Rightarrow>
          if open_now then osOpenNow os
          else if cOpensLater c then osOpensLater os else osClosed os)"

section \<open>Ranges\<close>

text \<open>What retrieval promises of a candidate's numeric columns.\<close>

definition cand_ranges :: "candidate \<Rightarrow> bool" where
  "cand_ranges c \<longleftrightarrow> nonneg_f (cDistanceKM c) \<and> 0 \<le> cFriendCount c \<and> cFriendCount c < 2 ^ 63 \<and>
     cGoogleReviewCount c < 2 ^ 63 \<and>
     (case cLemonScore c of None \<Rightarrow> True | Some x \<Rightarrow> f_le (Fin 0) x \<and> f_le x (Fin 10))"

lemma f_min_1_unit: "nonneg_f x \<Longrightarrow> unit_f (f_min x (Fin 1))"
  by (auto simp: nonneg_f_iff f_min_def)

lemma f_max_0_unit: "f_le x (Fin 1) \<Longrightarrow> unit_f (f_max x (Fin 0))"
  by (cases x) (auto simp: f_max_def)

lemma nonneg_f_div: "nonneg_f x \<Longrightarrow> f_lt (Fin 0) y \<Longrightarrow> x \<noteq> PInf \<or> y \<noteq> PInf \<Longrightarrow> nonneg_f (f_div x y)"
  by (cases x; cases y) (auto simp: nonneg_f_iff[of "Fin _"] nonneg_fround)

lemma f_one_minus_le: "nonneg_f q \<Longrightarrow> f_le (f_sub (Fin 1) q) (Fin 1)"
  using fround_mono[of "1 - r" 1 for r] by (auto simp: nonneg_f_iff f_sub_def)

lemma literal_distance_unit: "nonneg_f (cDistanceKM c) \<Longrightarrow> unit_f (literal_distance c)"
proof -
  assume "nonneg_f (cDistanceKM c)"
  moreover have "f_lt (Fin 0) distanceCapKM \<and> distanceCapKM \<noteq> PInf"
    by (simp add: distanceCapKM_eq)
  ultimately show ?thesis
    unfolding literal_distance_def by (intro f_max_0_unit f_one_minus_le nonneg_f_div) auto
qed

text \<open>A candidate with no location scores 0.\<close>

lemma literal_distance_PInf: "cDistanceKM c = PInf \<Longrightarrow> literal_distance c = Fin 0"
  by (simp add: literal_distance_def f_sub_def f_max_def distanceCapKM_eq)

lemma literal_distance_here: "cDistanceKM c = Fin 0 \<Longrightarrow> literal_distance c = Fin 1"
  by (simp add: literal_distance_def f_sub_def f_max_def distanceCapKM_eq)

lemma literal_distance_antimono:
  assumes "cDistanceKM a = Fin x" "cDistanceKM b = Fin y" "x \<le> y"
  shows "f_le (literal_distance b) (literal_distance a)"
proof -
  let ?k = cap_km
  have "f_le (fround (x / ?k)) (fround (y / ?k))"
    using assms(3) by (intro fround_mono) (simp add: divide_right_mono less_imp_le)
  then have "f_le (f_sub (Fin 1) (fround (y / ?k))) (f_sub (Fin 1) (fround (x / ?k)))"
    by (cases "fround (x / ?k)"; cases "fround (y / ?k)") (auto simp: f_sub_def intro!: fround_mono)
  then have "f_le (f_max (f_sub (Fin 1) (fround (y / ?k))) (Fin 0)) (f_max (f_sub (Fin 1) (fround (x / ?k))) (Fin 0))"
    by (cases "f_sub (Fin 1) (fround (x / ?k))"; cases "f_sub (Fin 1) (fround (y / ?k))")
      (auto simp: f_max_def)
  with assms show ?thesis by (simp add: literal_distance_def distanceCapKM_eq)
qed

lemma distanceDecay_unit:
  assumes d: "nonneg_f (cDistanceKM c)"
    and km: "lookup_f64 (sfDistanceDecayKM (rSignalFormulas cfg)) (cArchetype c) \<noteq> NaN"
      "lookup_f64 (sfDistanceDecayKM (rSignalFormulas cfg)) (cArchetype c) \<noteq> PInf"
  shows "unit_f (distanceDecay c cfg)"
proof (cases "f_le (lookup_f64 (sfDistanceDecayKM (rSignalFormulas cfg)) (cArchetype c)) (Fin 0)")
  case True
  then show ?thesis using d by (simp add: distanceDecay_def literal_distance_unit)
next
  case False
  then obtain k where k: "lookup_f64 (sfDistanceDecayKM (rSignalFormulas cfg)) (cArchetype c) = Fin k" "0 < k"
    using km by (cases "lookup_f64 (sfDistanceDecayKM (rSignalFormulas cfg)) (cArchetype c)") auto
  have neg: "unit_f (f_exp (f_neg x))" if "nonneg_f x" for x
    using that by (auto simp: nonneg_f_iff intro!: fround_unit)
  have "f_div (f_neg (cDistanceKM c)) (Fin k) = f_neg (f_div (cDistanceKM c) (Fin k))"
    using d k(2) fround_neg[of "r / k" for r] by (auto simp: nonneg_f_iff)
  moreover have "nonneg_f (f_div (cDistanceKM c) (Fin k))"
    using d k(2) by (intro nonneg_f_div) auto
  ultimately show ?thesis using False neg by (simp add: distanceDecay_def Let_def k)
qed

lemma literalRating_unit: "cand_ranges c \<Longrightarrow> unit_f (literalRating c)"
  by (cases "cLemonScore c"; cases "the (cLemonScore c)")
    (auto simp: literalRating_def cand_ranges_def ratingScale_eq intro!: fround_unit)

text \<open>The logarithm of a 64-bit count is a finite number, so the quotient is no NaN.\<close>

lemma f_log1p_count:
  assumes "0 \<le> n" "n < 2 ^ 63"
  shows "\<exists>r. f_log1p (f_of_int n) = Fin r \<and> 0 \<le> r"
proof -
  have le: "real_of_int n \<le> 2 ^ 63"
    using assms(2) by (metis less_imp_le of_int_le_iff of_int_numeral of_int_power)
  obtain x where x: "f_of_int n = Fin x" "0 \<le> x" "x \<le> 2 ^ 63"
    using fround_bounded[of "of_int n" 63] assms(1) le unfolding f_of_int_def by auto
  have "ln (1 + x) \<le> x" using x(2) by (rule ln_add_one_self_le_self)
  then obtain r where "fround (ln (1 + x)) = Fin r" "0 \<le> r"
    using fround_bounded[of "ln (1 + x)" 63] x(2,3) by auto
  with x show ?thesis by simp
qed

lemma signalPopularity_unit:
  assumes "f_lt (Fin 0) (f_log1p (sfGlobalMaxReviews (rSignalFormulas cfg)))" "cGoogleReviewCount c < 2 ^ 63"
  shows "unit_f (signalPopularity c cfg)"
proof (cases "cGoogleReviewCount c \<le> 0")
  case False
  then obtain r where "f_log1p (f_of_int (cGoogleReviewCount c)) = Fin r" "0 \<le> r"
    using f_log1p_count[of "cGoogleReviewCount c"] assms(2) by auto
  with False assms(1) show ?thesis
    unfolding signalPopularity_def by (auto intro!: f_min_1_unit nonneg_f_div)
qed (simp add: signalPopularity_def)

text \<open>Full credit at the ceiling, and no business with more reviews scores lower.\<close>

lemma f_div_mono:
  assumes "f_le (Fin a) (Fin b)" "f_lt (Fin 0) y"
  shows "f_le (f_div (Fin a) y) (f_div (Fin b) y)"
  using assms by (cases y) (auto intro!: fround_mono divide_right_mono)

lemma f_min_mono: "f_le x y \<Longrightarrow> f_le (f_min x (Fin 1)) (f_min y (Fin 1))"
  by (cases x; cases y) (auto simp: f_min_def)

lemma signalPopularity_mono:
  assumes "f_lt (Fin 0) (f_log1p (sfGlobalMaxReviews (rSignalFormulas cfg)))"
    and "cGoogleReviewCount a \<le> cGoogleReviewCount b" "cGoogleReviewCount b < 2 ^ 63"
  shows "f_le (signalPopularity a cfg) (signalPopularity b cfg)"
proof (cases "cGoogleReviewCount a \<le> 0")
  case True
  then show ?thesis
    using signalPopularity_unit[OF assms(1,3)] by (simp add: signalPopularity_def[of a] unit_f_def)
next
  case False
  let ?m = "cGoogleReviewCount a" and ?n = "cGoogleReviewCount b"
  obtain r s where rs: "f_log1p (f_of_int ?m) = Fin r" "f_log1p (f_of_int ?n) = Fin s"
    using f_log1p_count[of ?m] f_log1p_count[of ?n] False assms(2,3) by auto
  have "f_le (f_log1p (f_of_int ?m)) (f_log1p (f_of_int ?n))"
    using f_of_int_mono[OF assms(2)] f_of_int_nonneg[of ?m] f_of_int_nonneg[of ?n] False assms(2)
    by (auto simp: nonneg_f_iff intro!: fround_mono)
  with rs have "f_le (Fin r) (Fin s)" by simp
  then show ?thesis
    using False assms(1,2) unfolding signalPopularity_def rs
    by (auto intro!: f_min_mono f_div_mono simp del: f_div.simps)
qed

lemma signalFriends_unit:
  "0 \<le> cFriendCount c \<Longrightarrow> f_lt (Fin 0) (sfFriendsFullCredit (rSignalFormulas cfg)) \<Longrightarrow>
    f_of_int (cFriendCount c) \<noteq> PInf \<Longrightarrow> unit_f (signalFriends c cfg)"
  unfolding signalFriends_def by (intro f_min_1_unit nonneg_f_div) (auto simp: f_of_int_nonneg)

lemma f_of_int_64:
  assumes "0 \<le> n" "n < 2 ^ 63"
  shows "f_of_int n \<noteq> PInf"
proof -
  have "real_of_int n \<le> 2 ^ 63"
    using assms(2) by (metis less_imp_le of_int_le_iff of_int_numeral of_int_power)
  then show ?thesis
    using fround_bounded[of "of_int n" 63] assms(1) unfolding f_of_int_def by auto
qed

lemma signalClaimed_unit: "unit_f (signalClaimed c)"
  by (simp add: signalClaimed_def)

lemma signalPhotos_unit: "unit_knobs (rSignalFormulas cfg) (rNewBusiness cfg) \<Longrightarrow> unit_f (signalPhotos c cfg)"
  by (simp add: signalPhotos_def unit_knobs_def)

lemma signalOpenStatus_unit:
  "unit_knobs (rSignalFormulas cfg) (rNewBusiness cfg) \<Longrightarrow> unit_f (signalOpenStatus c cfg)"
  by (auto simp: signalOpenStatus_def unit_knobs_def Let_def split: option.splits)

lemma signalRating_unit:
  assumes "unit_knobs (rSignalFormulas cfg) (rNewBusiness cfg)" "cand_ranges c"
    and "sfRating (rSignalFormulas cfg) \<noteq> ''bayesian''"
  shows "unit_f (signalRating c cfg)"
  using assms literalRating_unit[OF assms(2)]
  by (auto simp: signalRating_def unit_knobs_def Let_def intro: f_mul_unit)

end
