(* ===== verification/Go_Sort.thy ===== *)
theory Go_Sort
  imports Prelude
begin

text \<open>
  The algorithm behind \<open>sort.SliceStable\<close>: insertion sort of blocks of 20 elements, then
  in-place merging of neighbouring blocks (\<open>symMerge\<close>) with doubling block size. The
  algorithm itself is modelled, not only its contract, because the ranker also runs it with
  a comparator that is no ordering, where the contract says nothing. On lists, a range
  \<open>[a, b)\<close> of the slice is the list of its elements and a rotation is an exchange of two
  neighbouring parts. Facts for an arbitrary comparator come first; inside the locale
  \<open>strict_weak_order\<close> the algorithm equals the stable merge sort of reference.
\<close>

section \<open>The algorithm\<close>

function bsearch :: "(nat \<Rightarrow> bool) \<Rightarrow> nat \<Rightarrow> nat \<Rightarrow> nat" where
  "bsearch p i j =
     (if i < j then (let h = (i + j) div 2 in if p h then bsearch p (h + 1) j else bsearch p i h)
      else i)"
  by pat_completeness auto
termination
  by (relation "measure (\<lambda>(p, i, j). j - i)") auto

declare bsearch.simps [simp del]

text \<open>Insertion from the right end of a sorted prefix, kept reversed.\<close>

fun ins_rev :: "('a \<Rightarrow> 'a \<Rightarrow> bool) \<Rightarrow> 'a \<Rightarrow> 'a list \<Rightarrow> 'a list" where
  "ins_rev lt x [] = [x]"
| "ins_rev lt x (y # ys) = (if lt x y then y # ins_rev lt x ys else x # y # ys)"

definition insertion_sort :: "('a \<Rightarrow> 'a \<Rightarrow> bool) \<Rightarrow> 'a list \<Rightarrow> 'a list" where
  "insertion_sort lt xs = rev (fold (ins_rev lt) xs [])"

function sort_blocks :: "('a \<Rightarrow> 'a \<Rightarrow> bool) \<Rightarrow> nat \<Rightarrow> 'a list \<Rightarrow> 'a list" where
  "sort_blocks lt k xs =
     (if length xs \<le> k \<or> k = 0 then insertion_sort lt xs
      else insertion_sort lt (take k xs) @ sort_blocks lt k (drop k xs))"
  by pat_completeness auto
termination
  by (relation "measure (\<lambda>(lt, k, xs). length xs)") auto

declare sort_blocks.simps [simp del]

text \<open>\<open>symMerge\<close> of the range \<open>L\<close>, \<open>R\<close> with the first index taken as 0.\<close>

definition sym_start :: "('a \<Rightarrow> 'a \<Rightarrow> bool) \<Rightarrow> 'a list \<Rightarrow> 'a list \<Rightarrow> nat" where
  "sym_start lt L R =
     (let m = length L; b = length L + length R; mid = b div 2; n = mid + m;
          D = L @ R; p = n - 1;
          i = (if m > mid then n - b else 0); j = (if m > mid then mid else m)
      in bsearch (\<lambda>c. \<not> lt (D ! (p - c)) (D ! c)) i j)"

function sym_merge :: "('a \<Rightarrow> 'a \<Rightarrow> bool) \<Rightarrow> 'a list \<Rightarrow> 'a list \<Rightarrow> 'a list" where
  "sym_merge lt L R =
     (if L = [] \<or> R = [] then L @ R
      else if length L = 1 then
        (let i = bsearch (\<lambda>h. lt (R ! h) (hd L)) 0 (length R) in take i R @ hd L # drop i R)
      else if length R = 1 then
        (let i = bsearch (\<lambda>h. \<not> lt (hd R) (L ! h)) 0 (length L) in take i L @ hd R # drop i L)
      else
        (let mid = (length L + length R) div 2; s = sym_start lt L R
         in sym_merge lt (take s L) (take (mid - s) R) @
            sym_merge lt (drop s L) (drop (mid - s) R)))"
  by pat_completeness auto
termination
proof (relation "measure (\<lambda>(lt, L, R). length L + length R)")
  fix lt :: "'a \<Rightarrow> 'a \<Rightarrow> bool" and L R :: "'a list" and mid s
  assume ne: "\<not> (L = [] \<or> R = [])" "length L \<noteq> 1" "length R \<noteq> 1"
    and mid: "mid = (length L + length R) div 2"
  from ne have two: "2 \<le> length L" "2 \<le> length R"
    by (cases L; cases R; simp add: Suc_le_eq)+
  show "((lt, take s L, take (mid - s) R), lt, L, R) \<in> measure (\<lambda>(lt, L, R). length L + length R)"
    using two mid by (auto simp: min_def)
  show "((lt, drop s L, drop (mid - s) R), lt, L, R) \<in> measure (\<lambda>(lt, L, R). length L + length R)"
    using two mid by auto
qed simp

declare sym_merge.simps [simp del]

function merge_pass :: "('a \<Rightarrow> 'a \<Rightarrow> bool) \<Rightarrow> nat \<Rightarrow> 'a list \<Rightarrow> 'a list" where
  "merge_pass lt k xs =
     (if length xs \<le> k \<or> k = 0 then xs
      else sym_merge lt (take k xs) (take k (drop k xs)) @ merge_pass lt k (drop (2 * k) xs))"
  by pat_completeness auto
termination
  by (relation "measure (\<lambda>(lt, k, xs). length xs)") auto

declare merge_pass.simps [simp del]

function merge_passes :: "('a \<Rightarrow> 'a \<Rightarrow> bool) \<Rightarrow> nat \<Rightarrow> nat \<Rightarrow> 'a list \<Rightarrow> 'a list" where
  "merge_passes lt n k xs =
     (if k < n \<and> 0 < k then merge_passes lt n (2 * k) (merge_pass lt k xs) else xs)"
  by pat_completeness auto
termination
  by (relation "measure (\<lambda>(lt, n, k, xs). n - k)") auto

declare merge_passes.simps [simp del]

definition slice_stable :: "('a \<Rightarrow> 'a \<Rightarrow> bool) \<Rightarrow> 'a list \<Rightarrow> 'a list" where
  "slice_stable lt xs = merge_passes lt (length xs) 20 (sort_blocks lt 20 xs)"

text \<open>Up to 20 elements the algorithm is the insertion sort.\<close>

lemma slice_stable_short: "length xs \<le> 20 \<Longrightarrow> slice_stable lt xs = insertion_sort lt xs"
  by (simp add: slice_stable_def sort_blocks.simps merge_passes.simps)

section \<open>Arbitrary comparators\<close>

subsection \<open>The result is a permutation\<close>

lemma mset_ins_rev: "mset (ins_rev lt x ys) = add_mset x (mset ys)"
  by (induction ys) auto

lemma mset_insertion_sort [simp]: "mset (insertion_sort lt xs) = mset xs"
proof -
  have "mset (fold (ins_rev lt) xs acc) = mset xs + mset acc" for acc
    by (induction xs arbitrary: acc) (auto simp: mset_ins_rev)
  then show ?thesis by (simp add: insertion_sort_def)
qed

lemma mset_take_drop: "mset (take i xs) + mset (drop i xs) = mset xs"
  by (metis append_take_drop_id mset_append)

lemma mset_sort_blocks [simp]: "mset (sort_blocks lt k xs) = mset xs"
  by (induction lt k xs rule: sort_blocks.induct)
    (subst sort_blocks.simps, auto simp: mset_take_drop)

lemma mset_sym_merge [simp]: "mset (sym_merge lt L R) = mset L + mset R"
proof (induction lt L R rule: sym_merge.induct)
  case (1 lt L R)
  consider "L = [] \<or> R = []" | x where "L = [x]" "R \<noteq> []" | y where "R = [y]" "L \<noteq> []" "length L \<noteq> 1"
    | "\<not> (L = [] \<or> R = [])" "length L \<noteq> 1" "length R \<noteq> 1"
    by (cases L; cases "tl L"; cases R; cases "tl R") auto
  then show ?case
  proof cases
    case 4
    let ?s = "sym_start lt L R" and ?m = "(length L + length R) div 2"
    have "mset (sym_merge lt L R) =
        mset (take ?s L) + mset (take (?m - ?s) R) + (mset (drop ?s L) + mset (drop (?m - ?s) R))"
      using 1[OF 4 refl refl] 4 by (subst sym_merge.simps) (simp add: Let_def)
    also have "\<dots> = mset (take ?s L) + mset (drop ?s L) + (mset (take (?m - ?s) R) + mset (drop (?m - ?s) R))"
      by (simp only: ac_simps)
    finally show ?thesis by (simp only: mset_take_drop)
  next
    case 1
    then show ?thesis by (subst sym_merge.simps) auto
  next
    case 2
    then show ?thesis by (subst sym_merge.simps) (simp add: Let_def mset_take_drop)
  next
    case 3
    then show ?thesis by (subst sym_merge.simps) (simp add: Let_def mset_take_drop)
  qed
qed

lemma mset_merge_pass [simp]: "mset (merge_pass lt k xs) = mset xs"
proof (induction lt k xs rule: merge_pass.induct)
  case (1 lt k xs)
  show ?case
  proof (cases "length xs \<le> k \<or> k = 0")
    case True
    then show ?thesis by (subst merge_pass.simps) simp
  next
    case False
    have "drop (2 * k) xs = drop k (drop k xs)" by (simp add: mult_2)
    with False 1 show ?thesis
      by (subst merge_pass.simps) (simp add: mset_take_drop add.assoc flip: drop_drop)
  qed
qed

lemma mset_merge_passes [simp]: "mset (merge_passes lt n k xs) = mset xs"
  by (induction lt n k xs rule: merge_passes.induct) (subst merge_passes.simps, simp)

lemma mset_slice_stable [simp]: "mset (slice_stable lt xs) = mset xs"
  by (simp add: slice_stable_def)

lemma set_slice_stable [simp]: "set (slice_stable lt xs) = set xs"
  by (metis mset_slice_stable set_mset_mset)

lemma length_slice_stable [simp]: "length (slice_stable lt xs) = length xs"
  by (metis mset_slice_stable size_mset)

subsection \<open>An element nothing is less than stays first\<close>

lemma bsearch_spec:
  "i \<le> j \<Longrightarrow> i \<le> bsearch p i j \<and> bsearch p i j \<le> j \<and>
    (i < bsearch p i j \<longrightarrow> p (bsearch p i j - 1)) \<and> (bsearch p i j < j \<longrightarrow> \<not> p (bsearch p i j))"
proof (induction p i j rule: bsearch.induct)
  case (1 p i j)
  show ?case
  proof (cases "i < j")
    case False
    with "1.prems" show ?thesis by (subst (1 2 3 4 5 6) bsearch.simps) simp
  next
    case True
    let ?h = "(i + j) div 2"
    have h: "i \<le> ?h" "?h < j" using True by auto
    show ?thesis
    proof (cases "p ?h")
      case p: True
      then have eq: "bsearch p i j = bsearch p (?h + 1) j"
        using True by (subst bsearch.simps) (simp add: Let_def)
      from "1.IH"(1)[OF True refl p] h p show ?thesis
        unfolding eq by (cases "bsearch p (?h + 1) j = ?h + 1") auto
    next
      case p: False
      then have eq: "bsearch p i j = bsearch p i ?h"
        using True by (subst bsearch.simps) (simp add: Let_def)
      from "1.IH"(2)[OF True refl p] h p show ?thesis
        unfolding eq by (cases "bsearch p i ?h = ?h") auto
    qed
  qed
qed

lemmas bsearch_bounds = bsearch_spec[THEN conjunct1] bsearch_spec[THEN conjunct2, THEN conjunct1]

lemma ins_rev_snoc: "\<not> lt z x \<Longrightarrow> ins_rev lt z (ys @ [x]) = ins_rev lt z ys @ [x]"
  by (induction ys) auto

lemma insertion_sort_head:
  assumes "list_all (\<lambda>z. \<not> lt z x) xs"
  shows "\<exists>zs. insertion_sort lt (x # xs) = x # zs"
proof -
  have "\<exists>zs. fold (ins_rev lt) xs (ys @ [x]) = zs @ [x]" for ys
    using assms by (induction xs arbitrary: ys) (auto simp: ins_rev_snoc)
  from this[of "[]"] obtain zs where "fold (ins_rev lt) xs [x] = zs @ [x]" by auto
  then have "insertion_sort lt (x # xs) = x # rev zs" by (simp add: insertion_sort_def)
  then show ?thesis ..
qed

lemma sort_blocks_head:
  assumes "list_all (\<lambda>z. \<not> lt z x) xs" "0 < k"
  shows "\<exists>zs. sort_blocks lt k (x # xs) = x # zs"
proof (cases "length (x # xs) \<le> k")
  case True
  then show ?thesis using insertion_sort_head[of lt x xs] assms(1) by (subst sort_blocks.simps) simp
next
  case False
  obtain m where k: "k = Suc m" using assms(2) by (cases k) auto
  have "list_all (\<lambda>z. \<not> lt z x) (take m xs)"
    using assms(1) by (auto simp: list_all_iff dest: in_set_takeD)
  with insertion_sort_head[of lt x "take m xs"] False k show ?thesis by (subst sort_blocks.simps) auto
qed

lemma sym_start_pos:
  assumes "(length L + length R) div 2 \<le> length R \<Longrightarrow>
      \<not> lt ((L @ R) ! ((length L + length R) div 2 + length L - 1)) (hd L)"
    and "L \<noteq> []" "R \<noteq> []"
  shows "0 < sym_start lt L R"
proof (rule ccontr)
  let ?m = "length L" and ?b = "length L + length R"
  let ?mid = "?b div 2"
  let ?p = "\<lambda>c. \<not> lt ((L @ R) ! (?mid + ?m - 1 - c)) ((L @ R) ! c)"
  let ?i = "if ?m > ?mid then ?mid + ?m - ?b else 0" and ?j = "if ?m > ?mid then ?mid else ?m"
  have start: "sym_start lt L R = bsearch ?p ?i ?j"
    by (simp add: sym_start_def Let_def)
  have "?i \<le> ?j" "0 < ?j" using assms(2,3) by (cases L; cases R; auto)+
  assume "\<not> 0 < sym_start lt L R"
  with start have "bsearch ?p ?i ?j = 0" by simp
  with bsearch_spec[OF \<open>?i \<le> ?j\<close>, of ?p] \<open>0 < ?j\<close> have "\<not> ?p 0" "?i = 0" by auto
  moreover from \<open>?i = 0\<close> have "?mid \<le> length R" by (simp split: if_splits)
  ultimately show False using assms by (simp add: nth_append hd_conv_nth)
qed

lemma sym_merge_head:
  assumes "list_all (\<lambda>z. \<not> lt z (hd L)) (L @ R)" "L \<noteq> []"
  shows "sym_merge lt L R \<noteq> [] \<and> hd (sym_merge lt L R) = hd L"
  using assms
proof (induction lt L R rule: sym_merge.induct)
  case (1 lt L R)
  let ?h = "hd L"
  consider "R = []" | x where "L = [x]" "R \<noteq> []" | y where "R = [y]" "length L \<noteq> 1"
    | "\<not> (L = [] \<or> R = [])" "length L \<noteq> 1" "length R \<noteq> 1"
    using "1.prems"(2) by (cases L; cases "tl L"; cases R; cases "tl R") auto
  then show ?case
  proof cases
    case 1
    with "1.prems" show ?thesis by (subst (1 2) sym_merge.simps) simp
  next
    case (2 x)
    let ?i = "bsearch (\<lambda>k. lt (R ! k) x) 0 (length R)"
    have "\<not> 0 < ?i"
    proof
      assume pos: "0 < ?i"
      have "lt (R ! (?i - 1)) x" "?i \<le> length R"
        using bsearch_spec[of 0 "length R" "\<lambda>k. lt (R ! k) x"] pos by auto
      moreover have "\<forall>z\<in>set R. \<not> lt z x" using "1.prems"(1) 2 by (simp add: list_all_iff)
      ultimately show False using pos nth_mem[of "?i - 1" R] by auto
    qed
    with 2 show ?thesis by (subst (1 2) sym_merge.simps) (simp add: Let_def)
  next
    case (3 y)
    let ?i = "bsearch (\<lambda>k. \<not> lt y (L ! k)) 0 (length L)"
    have "0 < ?i"
    proof (rule ccontr)
      assume "\<not> 0 < ?i"
      then have "lt y (L ! 0)"
        using bsearch_spec[of 0 "length L" "\<lambda>k. \<not> lt y (L ! k)"] "1.prems"(2) by auto
      with "1.prems" 3 show False by (simp add: hd_conv_nth)
    qed
    with 3 "1.prems"(2) show ?thesis by (subst (1 2) sym_merge.simps) (simp add: Let_def)
  next
    case 4
    let ?s = "sym_start lt L R" and ?mid = "(length L + length R) div 2"
    have "\<not> lt ((L @ R) ! (?mid + length L - 1)) ?h" if "?mid \<le> length R"
    proof -
      have "?mid + length L - 1 < length (L @ R)"
        using 4 that by (cases L) auto
      then have "(L @ R) ! (?mid + length L - 1) \<in> set (L @ R)" by (rule nth_mem)
      moreover from "1.prems"(1) have "\<forall>z\<in>set (L @ R). \<not> lt z ?h"
        by (simp only: list_all_iff)
      ultimately show ?thesis by (rule bspec[rotated])
    qed
    then have "0 < ?s"
      by (rule sym_start_pos) (use 4 in auto)
    then have hd: "take ?s L \<noteq> []" "hd (take ?s L) = ?h"
      using 4 by (cases L; cases ?s; simp)+
    have "list_all (\<lambda>z. \<not> lt z (hd (take ?s L))) (take ?s L @ take (?mid - ?s) R)"
      using "1.prems"(1) hd by (auto simp: list_all_iff dest: in_set_takeD)
    from "1.IH"(1)[OF 4 refl refl this hd(1)] hd show ?thesis
      using 4 by (subst (1 2) sym_merge.simps) (simp add: Let_def)
  qed
qed

lemma merge_pass_head:
  assumes "list_all (\<lambda>z. \<not> lt z x) (x # xs)"
  shows "\<exists>zs. merge_pass lt k (x # xs) = x # zs"
proof (cases "length (x # xs) \<le> k \<or> k = 0")
  case True
  then show ?thesis by (subst merge_pass.simps) auto
next
  case False
  let ?L = "take k (x # xs)" and ?R = "take k (drop k (x # xs))"
  from False have hd: "?L \<noteq> []" "hd ?L = x" by (cases k; simp)+
  have "list_all (\<lambda>z. \<not> lt z (hd ?L)) (?L @ ?R)"
    using assms hd by (auto simp: list_all_iff dest!: in_set_takeD in_set_dropD simp del: take.simps)
  with sym_merge_head[of lt ?L ?R] hd obtain zs where "sym_merge lt ?L ?R = x # zs"
    by (cases "sym_merge lt ?L ?R") auto
  with False show ?thesis by (subst merge_pass.simps) simp
qed

lemma merge_passes_head:
  assumes "list_all (\<lambda>z. \<not> lt z x) (x # xs)"
  shows "\<exists>zs. merge_passes lt n k (x # xs) = x # zs"
  using assms
proof (induction lt n k "x # xs" arbitrary: xs rule: merge_passes.induct)
  case (1 lt n k xs)
  show ?case
  proof (cases "k < n \<and> 0 < k")
    case True
    obtain zs where zs: "merge_pass lt k (x # xs) = x # zs"
      using merge_pass_head[of lt x xs k] "1.prems" by blast
    have "mset (x # zs) = mset (x # xs)" by (metis mset_merge_pass zs)
    then have "list_all (\<lambda>z. \<not> lt z x) (x # zs)"
      using "1.prems" mset_eq_setD unfolding list_all_iff by metis
    with "1.hyps"[OF True zs] True zs show ?thesis
      by (subst merge_passes.simps) simp
  next
    case False
    then have "merge_passes lt n k (x # xs) = x # xs"
      by (subst merge_passes.simps) (rule if_not_P)
    then show ?thesis by blast
  qed
qed

lemma slice_stable_head:
  assumes "list_all (\<lambda>z. \<not> lt z x) (x # xs)"
  shows "\<exists>zs. slice_stable lt (x # xs) = x # zs"
proof -
  obtain ys where ys: "sort_blocks lt 20 (x # xs) = x # ys"
    using sort_blocks_head[of lt x xs 20] assms by auto
  have "mset (x # ys) = mset (x # xs)" by (metis mset_sort_blocks ys)
  then have "list_all (\<lambda>z. \<not> lt z x) (x # ys)"
    using assms mset_eq_setD unfolding list_all_iff by metis
  with merge_passes_head[of lt x ys] show ?thesis
    by (simp add: slice_stable_def ys)
qed

section \<open>Strict weak orders: the stable merge sort of reference\<close>

text \<open>The stable merge (an element of the right list goes first only when it is less) and the
  sort that merges every element into the sorted rest.\<close>

fun smerge :: "('a \<Rightarrow> 'a \<Rightarrow> bool) \<Rightarrow> 'a list \<Rightarrow> 'a list \<Rightarrow> 'a list" where
  "smerge lt [] R = R"
| "smerge lt L [] = L"
| "smerge lt (l # L) (r # R) = (if lt r l then r # smerge lt (l # L) R else l # smerge lt L (r # R))"

fun ref_sort :: "('a \<Rightarrow> 'a \<Rightarrow> bool) \<Rightarrow> 'a list \<Rightarrow> 'a list" where
  "ref_sort lt [] = []"
| "ref_sort lt (x # xs) = smerge lt [x] (ref_sort lt xs)"

definition ordered :: "('a \<Rightarrow> 'a \<Rightarrow> bool) \<Rightarrow> 'a list \<Rightarrow> bool" where
  "ordered lt = sorted_wrt (\<lambda>x y. \<not> lt y x)"

lemma ordered_simps [simp]:
  "ordered lt []" "ordered lt (x # xs) \<longleftrightarrow> (\<forall>y \<in> set xs. \<not> lt y x) \<and> ordered lt xs"
  by (simp_all add: ordered_def)

lemma ordered_append:
  "ordered lt (xs @ ys) \<longleftrightarrow> ordered lt xs \<and> ordered lt ys \<and> (\<forall>x \<in> set xs. \<forall>y \<in> set ys. \<not> lt y x)"
  by (simp add: ordered_def sorted_wrt_append)

lemma smerge_induct [case_names Left Right Both]:
  fixes lt :: "'a \<Rightarrow> 'a \<Rightarrow> bool"
  assumes "\<And>R. P [] R" "\<And>l L. P (l # L) []"
    "\<And>l L r R. (lt r l \<Longrightarrow> P (l # L) R) \<Longrightarrow> (\<not> lt r l \<Longrightarrow> P L (r # R)) \<Longrightarrow> P (l # L) (r # R)"
  shows "P L R"
  using assms by (induction lt L R rule: smerge.induct) blast+

lemma smerge_Nil2 [simp]: "smerge lt L [] = L"
  by (cases L) auto

lemma mset_smerge: "mset (smerge lt L R) = mset L + mset R"
  by (induction lt L R rule: smerge.induct) auto

lemma set_smerge [simp]: "set (smerge lt L R) = set L \<union> set R"
  by (metis mset_smerge set_mset_mset set_mset_union)

lemma mset_ref_sort [simp]: "mset (ref_sort lt xs) = mset xs"
  by (induction xs) (auto simp: mset_smerge)

lemma set_ref_sort [simp]: "set (ref_sort lt xs) = set xs"
  by (metis mset_ref_sort set_mset_mset)

lemma length_ref_sort [simp]: "length (ref_sort lt xs) = length xs"
  by (metis mset_ref_sort size_mset)

lemma smerge_append:
  assumes "\<And>l r. l \<in> set L2 \<Longrightarrow> r \<in> set R1 \<Longrightarrow> lt r l"
    and "\<And>l r. l \<in> set L1 \<Longrightarrow> r \<in> set R2 \<Longrightarrow> \<not> lt r l"
  shows "smerge lt (L1 @ L2) (R1 @ R2) = smerge lt L1 R1 @ smerge lt L2 R2"
  using assms
proof (induction lt L1 R1 rule: smerge.induct)
  case (1 lt R)
  show ?case
  proof (cases L2)
    case (Cons l L)
    from "1.prems"(1) have "smerge lt (l # L) (R @ R2) = R @ smerge lt (l # L) R2"
      unfolding Cons by (induction R) auto
    with Cons show ?thesis by simp
  qed simp
next
  case (2 lt l L)
  then have "smerge lt ((l # L) @ L2) R2 = (l # L) @ smerge lt L2 R2"
  proof (induction "l # L" arbitrary: l L)
    case (Cons l L)
    show ?case
    proof (cases R2)
      case (Cons r R)
      with Cons.prems(2) have "\<not> lt r l" by simp
      with Cons Cons.hyps(1) Cons.prems show ?thesis by (cases L) auto
    qed simp
  qed
  then show ?case by simp
qed auto

function ref_blocks :: "('a \<Rightarrow> 'a \<Rightarrow> bool) \<Rightarrow> nat \<Rightarrow> 'a list \<Rightarrow> 'a list" where
  "ref_blocks lt k xs =
     (if length xs \<le> k \<or> k = 0 then ref_sort lt xs
      else ref_sort lt (take k xs) @ ref_blocks lt k (drop k xs))"
  by pat_completeness auto
termination
  by (relation "measure (\<lambda>(lt, k, xs). length xs)") auto

declare ref_blocks.simps [simp del]

lemma length_ref_blocks [simp]: "length (ref_blocks lt k xs) = length xs"
  by (induction lt k xs rule: ref_blocks.induct) (subst ref_blocks.simps, auto)

lemma bsearch_antimono:
  assumes "i \<le> j" "\<And>a b. i \<le> a \<Longrightarrow> a \<le> b \<Longrightarrow> b < j \<Longrightarrow> p b \<Longrightarrow> p a"
  shows "\<And>c. i \<le> c \<Longrightarrow> c < bsearch p i j \<Longrightarrow> p c"
    and "\<And>c. bsearch p i j \<le> c \<Longrightarrow> c < j \<Longrightarrow> \<not> p c"
proof -
  note s = bsearch_spec[OF assms(1), of p]
  show "p c" if "i \<le> c" "c < bsearch p i j" for c
    using s that assms(2)[of c "bsearch p i j - 1"] by auto
  show "\<not> p c" if "bsearch p i j \<le> c" "c < j" for c
    using s that assms(2)[of "bsearch p i j" c] by auto
qed

lemma ordered_nth: "ordered lt xs \<Longrightarrow> i < j \<Longrightarrow> j < length xs \<Longrightarrow> \<not> lt (xs ! j) (xs ! i)"
  unfolding ordered_def by (drule sorted_wrt_nth_less)

lemma ordered_take: "ordered lt xs \<Longrightarrow> ordered lt (take n xs)"
  by (metis append_take_drop_id ordered_append)

lemma ordered_drop: "ordered lt xs \<Longrightarrow> ordered lt (drop n xs)"
  by (metis append_take_drop_id ordered_append)

lemma smerge_insert_left:
  assumes "\<And>r. r \<in> set (take i R) \<Longrightarrow> lt r x" "\<And>r. r \<in> set (drop i R) \<Longrightarrow> \<not> lt r x"
  shows "smerge lt [x] R = take i R @ x # drop i R"
proof -
  have "smerge lt ([] @ [x]) (take i R @ drop i R) = smerge lt [] (take i R) @ smerge lt [x] (drop i R)"
    using assms(1) by (intro smerge_append) auto
  moreover have "smerge lt [x] (drop i R) = x # drop i R"
    using assms(2) by (cases "drop i R") auto
  ultimately show ?thesis by simp
qed

lemma smerge_insert_right:
  assumes "\<And>l. l \<in> set (take i L) \<Longrightarrow> \<not> lt y l" "\<And>l. l \<in> set (drop i L) \<Longrightarrow> lt y l"
  shows "smerge lt L [y] = take i L @ y # drop i L"
proof -
  have "smerge lt (take i L @ drop i L) ([y] @ []) = smerge lt (take i L) [y] @ smerge lt (drop i L) []"
    using assms(2) by (intro smerge_append) auto
  moreover have "smerge lt (take i L @ []) ([] @ [y]) = smerge lt (take i L) [] @ smerge lt [] [y]"
    using assms(1) by (intro smerge_append) auto
  ultimately show ?thesis by simp
qed

lemma in_set_take_nth: "x \<in> set (take n xs) \<longleftrightarrow> (\<exists>i < min n (length xs). x = xs ! i)"
  by (auto simp: in_set_conv_nth)

lemma in_set_drop_nth: "x \<in> set (drop n xs) \<longleftrightarrow> (\<exists>i. n \<le> i \<and> i < length xs \<and> x = xs ! i)"
proof
  assume "x \<in> set (drop n xs)"
  then obtain i where "i < length xs - n" "x = xs ! (n + i)" by (auto simp: in_set_conv_nth)
  then show "\<exists>i. n \<le> i \<and> i < length xs \<and> x = xs ! i" by (intro exI[of _ "n + i"]) auto
next
  assume "\<exists>i. n \<le> i \<and> i < length xs \<and> x = xs ! i"
  then obtain i where "n \<le> i" "i < length xs" "x = xs ! i" by blast
  then show "x \<in> set (drop n xs)"
    by (auto simp: in_set_conv_nth intro!: exI[of _ "i - n"])
qed

locale strict_weak_order =
  fixes lt :: "'a \<Rightarrow> 'a \<Rightarrow> bool" and A :: "'a set"
  assumes asym: "x \<in> A \<Longrightarrow> y \<in> A \<Longrightarrow> lt x y \<Longrightarrow> \<not> lt y x"
    and negtrans: "x \<in> A \<Longrightarrow> y \<in> A \<Longrightarrow> z \<in> A \<Longrightarrow> lt x z \<Longrightarrow> lt x y \<or> lt y z"
begin

lemma trans: "x \<in> A \<Longrightarrow> y \<in> A \<Longrightarrow> z \<in> A \<Longrightarrow> lt x y \<Longrightarrow> lt y z \<Longrightarrow> lt x z"
  using negtrans[of x z y] asym[of y z] by blast

lemma irrefl: "x \<in> A \<Longrightarrow> \<not> lt x x"
  using asym by blast

lemma not_lt_trans: "x \<in> A \<Longrightarrow> y \<in> A \<Longrightarrow> z \<in> A \<Longrightarrow> \<not> lt y x \<Longrightarrow> \<not> lt z y \<Longrightarrow> \<not> lt z x"
  using negtrans[of z y x] by blast

lemma ordered_smerge:
  "set L \<subseteq> A \<Longrightarrow> set R \<subseteq> A \<Longrightarrow> ordered lt L \<Longrightarrow> ordered lt R \<Longrightarrow> ordered lt (smerge lt L R)"
proof (induction L R rule: smerge_induct[where lt = lt])
  case (Both l L r R)
  note 3 = Both
  then have A: "l \<in> A" "r \<in> A" "set L \<subseteq> A" "set R \<subseteq> A" by auto
  show ?case
  proof (cases "lt r l")
    case True
    have "\<not> lt y r" if "y \<in> set L" for y
      using 3 A that True not_lt_trans[of r l y] asym[of r l] by auto
    with True 3 A show ?thesis using asym[of r l] by auto
  next
    case False
    have "\<not> lt y l" if "y \<in> set R" for y
      using 3 A that False not_lt_trans[of l r y] by auto
    with False 3 show ?thesis by auto
  qed
qed auto

lemma ordered_ref_sort: "set xs \<subseteq> A \<Longrightarrow> ordered lt (ref_sort lt xs)"
  by (induction xs) (auto intro!: ordered_smerge)

text \<open>Stability: the elements of one equivalence class keep their order.\<close>

lemma filter_smerge:
  assumes "c \<in> A" "set L \<subseteq> A" "set R \<subseteq> A" "ordered lt L"
  shows "filter (\<lambda>y. \<not> lt y c \<and> \<not> lt c y) (smerge lt L R) =
    filter (\<lambda>y. \<not> lt y c \<and> \<not> lt c y) L @ filter (\<lambda>y. \<not> lt y c \<and> \<not> lt c y) R"
  using assms
proof (induction L R rule: smerge_induct[where lt = lt])
  case (Both l L r R)
  note 3 = Both
  let ?eq = "\<lambda>y. \<not> lt y c \<and> \<not> lt c y"
  show ?case
  proof (cases "lt r l \<and> ?eq r")
    case True
    then have "lt c l" using 3 negtrans[of r c l] by auto
    moreover have "lt c y" if "y \<in> set L" for y
      using 3 that \<open>lt c l\<close> negtrans[of c y l] by auto
    ultimately have "filter ?eq (l # L) = []" by (auto simp: filter_empty_conv)
    with True 3 show ?thesis by auto
  next
    case False
    with 3 show ?thesis by auto
  qed
qed auto

lemma filter_ref_sort:
  "c \<in> A \<Longrightarrow> set xs \<subseteq> A \<Longrightarrow>
    filter (\<lambda>y. \<not> lt y c \<and> \<not> lt c y) (ref_sort lt xs) = filter (\<lambda>y. \<not> lt y c \<and> \<not> lt c y) xs"
  by (induction xs) (auto simp: filter_smerge)

lemma smerge_assoc:
  "set L \<subseteq> A \<Longrightarrow> set M \<subseteq> A \<Longrightarrow> set R \<subseteq> A \<Longrightarrow>
    smerge lt (smerge lt L M) R = smerge lt L (smerge lt M R)"
proof (induction "length L + length M + length R" arbitrary: L M R rule: less_induct)
  case less
  show ?case
  proof (cases L)
    case (Cons a L')
    show ?thesis
    proof (cases M)
      case M: (Cons b M')
      show ?thesis
      proof (cases R)
        case R: (Cons c R')
        have A: "a \<in> A" "b \<in> A" "c \<in> A" using less.prems Cons M R by auto
        have IH: "smerge lt (smerge lt L2 M2) R2 = smerge lt L2 (smerge lt M2 R2)"
          if "length L2 + length M2 + length R2 < length L + length M + length R"
            "set L2 \<subseteq> set L" "set M2 \<subseteq> set M" "set R2 \<subseteq> set R" for L2 M2 R2
          using less.hyps[OF that(1)] that(2-4) less.prems by blast
        have 1: "smerge lt (smerge lt L' M) R = smerge lt L' (smerge lt M R)"
          and 2: "smerge lt (smerge lt L M') R = smerge lt L (smerge lt M' R)"
          and 3: "smerge lt (smerge lt L M) R' = smerge lt L (smerge lt M R')"
          by (rule IH; use Cons M R in auto)+
        show ?thesis
          using 1 2 3 Cons M R trans[OF A(3,2,1)] not_lt_trans[OF A(1,2,3)]
          by (cases "lt b a"; cases "lt c b"; cases "lt c a") auto
      qed simp
    qed simp
  qed simp
qed

lemma ref_sort_append: "set xs \<subseteq> A \<Longrightarrow> set ys \<subseteq> A \<Longrightarrow>
    ref_sort lt (xs @ ys) = smerge lt (ref_sort lt xs) (ref_sort lt ys)"
  by (induction xs) (auto simp: smerge_assoc)

lemma le_nth:
  assumes "set xs \<subseteq> A" "ordered lt xs" "i \<le> j" "j < length xs"
  shows "\<not> lt (xs ! j) (xs ! i)"
proof (cases "i = j")
  case True
  have "xs ! j \<in> A" using assms(1,4) nth_mem by blast
  with True show ?thesis by (simp add: irrefl)
next
  case False
  then have "i < j" using assms(3) by simp
  then show ?thesis by (rule ordered_nth[OF assms(2) _ assms(4)])
qed

text \<open>The binary search of \<open>symMerge\<close> finds where to exchange the two parts.\<close>

lemma sym_start_split:
  assumes A: "set L \<subseteq> A" "set R \<subseteq> A" and ord: "ordered lt L" "ordered lt R"
    and mid: "mid = (length L + length R) div 2" and s: "s = sym_start lt L R"
  shows "\<And>l r. l \<in> set (drop s L) \<Longrightarrow> r \<in> set (take (mid - s) R) \<Longrightarrow> lt r l"
    and "\<And>l r. l \<in> set (take s L) \<Longrightarrow> r \<in> set (drop (mid - s) R) \<Longrightarrow> \<not> lt r l"
proof -
  let ?m = "length L" and ?b = "length L + length R"
  let ?p = "\<lambda>c. \<not> lt ((L @ R) ! (mid + ?m - 1 - c)) ((L @ R) ! c)"
  define i where "i = (if ?m > mid then mid + ?m - ?b else 0)"
  define j where "j = (if ?m > mid then mid else ?m)"
  have s': "s = bsearch ?p i j"
    unfolding s sym_start_def i_def j_def mid Let_def by simp
  have ij: "i \<le> j" and jm: "j \<le> ?m" "j \<le> mid" using mid by (auto simp: i_def j_def)
  have LA: "L ! c \<in> A" if "c < ?m" for c using A(1) nth_mem[OF that] by blast
  have RA: "R ! c \<in> A" if "c < length R" for c using A(2) nth_mem[OF that] by blast
  have idx: "mid - 1 - c < length R" "(L @ R) ! (mid + ?m - 1 - c) = R ! (mid - 1 - c)" "(L @ R) ! c = L ! c"
    if "i \<le> c" "c < j" for c
  proof -
    show "mid - 1 - c < length R" using that mid by (auto simp: i_def j_def split: if_splits)
    have "mid + ?m - 1 - c = ?m + (mid - 1 - c)" using that jm by auto
    then show "(L @ R) ! (mid + ?m - 1 - c) = R ! (mid - 1 - c)" by (simp add: nth_append)
    show "(L @ R) ! c = L ! c" using that jm by (simp add: nth_append)
  qed
  have anti: "?p a" if "i \<le> a" "a \<le> c" "c < j" "?p c" for a c
  proof -
    have ia: "i \<le> a" "a < j" "i \<le> c" "c < j" using that by auto
    have 1: "\<not> lt (R ! (mid - 1 - c)) (L ! c)" using that(4) idx[OF ia(3,4)] by simp
    have 2: "\<not> lt (L ! c) (L ! a)" using that jm by (intro le_nth[OF A(1) ord(1)]) auto
    have 3: "\<not> lt (R ! (mid - 1 - a)) (R ! (mid - 1 - c))"
      using that idx(1)[OF ia(1,2)] by (intro le_nth[OF A(2) ord(2)]) auto
    have m: "L ! a \<in> A" "L ! c \<in> A" "R ! (mid - 1 - a) \<in> A" "R ! (mid - 1 - c) \<in> A"
      using ia jm idx(1)[OF ia(1,2)] idx(1)[OF ia(3,4)] by (auto intro!: LA RA)
    have "\<not> lt (R ! (mid - 1 - c)) (L ! a)" by (rule not_lt_trans[OF m(1,2,4) 2 1])
    then have "\<not> lt (R ! (mid - 1 - a)) (L ! a)" using 3 by (intro not_lt_trans[OF m(1,4,3)])
    then show ?thesis using idx[OF ia(1,2)] by simp
  qed
  have lo: "?p c" if "i \<le> c" "c < s" for c
    using bsearch_antimono(1)[where p = ?p, OF ij anti] that unfolding s' by simp
  have hi: "\<not> ?p c" if "s \<le> c" "c < j" for c
    using bsearch_antimono(2)[where p = ?p, OF ij anti] that unfolding s' by simp
  have sb: "i \<le> s" "s \<le> j" using bsearch_spec[OF ij, of ?p] unfolding s' by auto
  show "lt r l" if lr: "l \<in> set (drop s L)" "r \<in> set (take (mid - s) R)" for l r
  proof -
    obtain x y where x: "l = L ! x" "s \<le> x" "x < ?m" and y: "r = R ! y" "y < mid - s" "y < length R"
      using lr by (auto simp: in_set_drop_nth in_set_take_nth)
    have sj: "s < j" using x y sb by (auto simp: j_def split: if_splits)
    have 1: "lt (R ! (mid - 1 - s)) (L ! s)" using hi[OF order_refl sj] idx[OF sb(1) sj] by simp
    have 2: "\<not> lt (R ! (mid - 1 - s)) (R ! y)"
      using y idx(1)[OF sb(1) sj] by (intro le_nth[OF A(2) ord(2)]) auto
    have 3: "\<not> lt (L ! x) (L ! s)" using x by (intro le_nth[OF A(1) ord(1)]) auto
    have m: "L ! x \<in> A" "L ! s \<in> A" "R ! y \<in> A" "R ! (mid - 1 - s) \<in> A"
      using x y sj jm idx(1)[OF sb(1) sj] by (auto intro!: LA RA)
    have "lt (R ! y) (L ! s)" using negtrans[OF m(4,3,2) 1] 2 by blast
    with 3 show ?thesis using negtrans[OF m(3,1,2)] x y by blast
  qed
  show "\<not> lt r l" if lr: "l \<in> set (take s L)" "r \<in> set (drop (mid - s) R)" for l r
  proof -
    obtain x y where x: "l = L ! x" "x < s" "x < ?m" and y: "r = R ! y" "mid - s \<le> y" "y < length R"
      using lr by (auto simp: in_set_drop_nth in_set_take_nth)
    have si: "i < s" using x y sb by (auto simp: i_def split: if_splits)
    then have c: "i \<le> s - 1" "s - 1 < j" "s - 1 < s" using sb by auto
    have 1: "\<not> lt (R ! (mid - 1 - (s - 1))) (L ! (s - 1))" using lo[OF c(1,3)] idx[OF c(1,2)] by simp
    have 2: "\<not> lt (R ! y) (R ! (mid - 1 - (s - 1)))"
      using y si sb jm by (intro le_nth[OF A(2) ord(2)]) auto
    have 3: "\<not> lt (L ! (s - 1)) (L ! x)" using x c jm by (intro le_nth[OF A(1) ord(1)]) auto
    have m: "L ! x \<in> A" "L ! (s - 1) \<in> A" "R ! y \<in> A" "R ! (mid - 1 - (s - 1)) \<in> A"
      using x y c jm idx(1)[OF c(1,2)] by (auto intro!: LA RA)
    have "\<not> lt (R ! (mid - 1 - (s - 1))) (L ! x)" by (rule not_lt_trans[OF m(1,2,4) 3 1])
    then show ?thesis unfolding x y using 2 by (intro not_lt_trans[OF m(1,4,3)])
  qed
qed

text \<open>Hence \<open>symMerge\<close> is the merge of reference.\<close>

lemma sym_merge_eq_smerge:
  "set L \<subseteq> A \<Longrightarrow> set R \<subseteq> A \<Longrightarrow> ordered lt L \<Longrightarrow> ordered lt R \<Longrightarrow>
    sym_merge lt L R = smerge lt L R"
proof (induction "length L + length R" arbitrary: L R rule: less_induct)
  case less
  note A = less.prems(1,2) and ord = less.prems(3,4)
  have nth: "i < length R \<Longrightarrow> R ! i \<in> A" "k < length L \<Longrightarrow> L ! k \<in> A" for i k
    using A nth_mem by blast+
  consider "L = [] \<or> R = []" | x where "L = [x]" "R \<noteq> []" | y where "R = [y]" "L \<noteq> []" "length L \<noteq> 1"
    | "\<not> (L = [] \<or> R = [])" "length L \<noteq> 1" "length R \<noteq> 1"
    by (cases L; cases "tl L"; cases R; cases "tl R") auto
  then show ?case
  proof cases
    case 1
    then show ?thesis by (subst sym_merge.simps) (cases L; auto)
  next
    case (2 x)
    define i where "i = bsearch (\<lambda>h. lt (R ! h) x) 0 (length R)"
    have x: "x \<in> A" using A(1) 2 by simp
    have anti: "lt (R ! a) x" if "0 \<le> a" "a \<le> b" "b < length R" "lt (R ! b) x" for a b
      using negtrans[of "R ! b" x "R ! a"] negtrans[of "R ! b" "R ! a" x] le_nth[OF A(2) ord(2) that(2,3)] that x nth
      by auto
    have lo: "lt (R ! c) x" if "c < i" for c
      using bsearch_antimono(1)[where p = "\<lambda>h. lt (R ! h) x" and i = 0 and j = "length R" and c = c, OF _ anti] that
      unfolding i_def by simp
    have hi: "\<not> lt (R ! c) x" if "i \<le> c" "c < length R" for c
      using bsearch_antimono(2)[where p = "\<lambda>h. lt (R ! h) x" and i = 0 and j = "length R" and c = c, OF _ anti] that
      unfolding i_def by simp
    have "smerge lt [x] R = take i R @ x # drop i R"
      by (rule smerge_insert_left) (auto simp: in_set_take_nth in_set_drop_nth lo hi)
    with 2 show ?thesis by (subst sym_merge.simps) (simp add: Let_def i_def)
  next
    case (3 y)
    define i where "i = bsearch (\<lambda>h. \<not> lt y (L ! h)) 0 (length L)"
    have y: "y \<in> A" using A(2) 3 by simp
    have anti: "\<not> lt y (L ! a)" if "0 \<le> a" "a \<le> b" "b < length L" "\<not> lt y (L ! b)" for a b
      using negtrans[of y "L ! b" "L ! a"] le_nth[OF A(1) ord(1) that(2,3)] that y nth by auto
    have lo: "\<not> lt y (L ! c)" if "c < i" for c
      using bsearch_antimono(1)[where p = "\<lambda>h. \<not> lt y (L ! h)" and i = 0 and j = "length L" and c = c, OF _ anti] that
      unfolding i_def by simp
    have hi: "lt y (L ! c)" if "i \<le> c" "c < length L" for c
      using bsearch_antimono(2)[where p = "\<lambda>h. \<not> lt y (L ! h)" and i = 0 and j = "length L" and c = c, OF _ anti] that
      unfolding i_def by simp
    have "smerge lt L [y] = take i L @ y # drop i L"
      by (rule smerge_insert_right) (auto simp: in_set_take_nth in_set_drop_nth lo hi)
    with 3 show ?thesis by (subst sym_merge.simps) (simp add: Let_def i_def)
  next
    case 4
    let ?mid = "(length L + length R) div 2"
    let ?s = "sym_start lt L R"
    let ?t = "?mid - ?s"
    have two: "2 \<le> length L" "2 \<le> length R"
      using 4 by (cases L; cases R; simp add: Suc_le_eq)+
    have sub: "set (take ?s L) \<subseteq> A" "set (drop ?s L) \<subseteq> A" "set (take ?t R) \<subseteq> A" "set (drop ?t R) \<subseteq> A"
      using A by (auto dest: in_set_takeD in_set_dropD)
    have "sym_merge lt (take ?s L) (take ?t R) = smerge lt (take ?s L) (take ?t R)"
      using two by (intro less.hyps sub ordered_take ord) (auto simp: min_def)
    moreover have "sym_merge lt (drop ?s L) (drop ?t R) = smerge lt (drop ?s L) (drop ?t R)"
      using two by (intro less.hyps sub ordered_drop ord) auto
    moreover have "smerge lt (take ?s L @ drop ?s L) (take ?t R @ drop ?t R) =
        smerge lt (take ?s L) (take ?t R) @ smerge lt (drop ?s L) (drop ?t R)"
      by (rule smerge_append) (erule (1) sym_start_split[OF A ord refl refl])+
    ultimately show ?thesis using 4 by (subst sym_merge.simps) (simp add: Let_def)
  qed
qed

lemma rev_ins_rev:
  assumes "x \<in> A" "set acc \<subseteq> A" "ordered lt (rev acc)"
  shows "rev (ins_rev lt x acc) = smerge lt (rev acc) [x]"
  using assms
proof (induction acc)
  case (Cons y ys)
  show ?case
  proof (cases "lt x y")
    case True
    have "smerge lt (rev ys @ [y]) ([x] @ []) = smerge lt (rev ys) [x] @ smerge lt [y] []"
      using True by (intro smerge_append) auto
    with True Cons show ?thesis by (auto simp: ordered_append)
  next
    case False
    have "\<not> lt x l" if "l \<in> set (rev ys)" for l
      using Cons.prems that False not_lt_trans[of l y x] by (auto simp: ordered_append)
    then have "smerge lt (rev (y # ys) @ []) ([] @ [x]) = smerge lt (rev (y # ys)) [] @ smerge lt [] [x]"
      using False by (intro smerge_append) auto
    with False show ?thesis by simp
  qed
qed simp

lemma insertion_sort_eq: "set xs \<subseteq> A \<Longrightarrow> insertion_sort lt xs = ref_sort lt xs"
proof -
  have "rev (fold (ins_rev lt) xs acc) = smerge lt (rev acc) (ref_sort lt xs)"
    if "set xs \<subseteq> A" "set acc \<subseteq> A" "ordered lt (rev acc)" for acc
    using that
  proof (induction xs arbitrary: acc)
    case (Cons x xs)
    have eq: "rev (ins_rev lt x acc) = smerge lt (rev acc) [x]"
      using Cons.prems by (intro rev_ins_rev) auto
    have set: "set (ins_rev lt x acc) = insert x (set acc)"
      by (metis mset_ins_rev set_mset_add_mset_insert set_mset_mset)
    have "rev (fold (ins_rev lt) xs (ins_rev lt x acc)) = smerge lt (rev (ins_rev lt x acc)) (ref_sort lt xs)"
      using Cons.prems by (intro Cons.IH) (auto simp: set eq intro!: ordered_smerge)
    also have "\<dots> = smerge lt (rev acc) (smerge lt [x] (ref_sort lt xs))"
      unfolding eq using Cons.prems by (intro smerge_assoc) auto
    finally show ?case by simp
  qed simp
  from this[of "[]"] show "set xs \<subseteq> A \<Longrightarrow> insertion_sort lt xs = ref_sort lt xs"
    by (simp add: insertion_sort_def)
qed

lemma set_takeD_subset: "set xs \<subseteq> A \<Longrightarrow> set (take n xs) \<subseteq> A" "set xs \<subseteq> A \<Longrightarrow> set (drop n xs) \<subseteq> A"
  by (auto dest: in_set_takeD in_set_dropD)

lemma sort_blocks_eq: "set xs \<subseteq> A \<Longrightarrow> sort_blocks lt k xs = ref_blocks lt k xs"
proof (induction "length xs" arbitrary: xs rule: less_induct)
  case less
  then have "\<not> (length xs \<le> k \<or> k = 0) \<Longrightarrow> sort_blocks lt k (drop k xs) = ref_blocks lt k (drop k xs)"
    by (intro less.hyps) (auto simp: set_takeD_subset)
  with less.prems show ?case
    by (subst sort_blocks.simps, subst ref_blocks.simps) (auto simp: insertion_sort_eq set_takeD_subset)
qed

text \<open>One pass merges neighbouring blocks, so it doubles the block size.\<close>

lemma merge_pass_blocks:
  "set xs \<subseteq> A \<Longrightarrow> 0 < k \<Longrightarrow> merge_pass lt k (ref_blocks lt k xs) = ref_blocks lt (2 * k) xs"
proof (induction "length xs" arbitrary: xs rule: less_induct)
  case less
  note k = \<open>0 < k\<close> and A = \<open>set xs \<subseteq> A\<close>
  show ?case
  proof (cases "length xs \<le> k")
    case True
    with k show ?thesis
      by (subst merge_pass.simps, subst (1 2 3) ref_blocks.simps) (simp add: ref_blocks.simps[of lt k xs])
  next
    case False
    define ys where "ys = drop k xs"
    define B1 where "B1 = ref_sort lt (take k xs)"
    define B2 where "B2 = ref_sort lt (take k ys)"
    have ys: "set ys \<subseteq> A" "length ys < length xs" "drop (2 * k) xs = drop k ys"
      using A False k by (auto simp: ys_def set_takeD_subset mult_2)
    have b: "ref_blocks lt k xs = B1 @ ref_blocks lt k ys" "length B1 = k"
      using False k by (auto simp: B1_def ys_def ref_blocks.simps[of lt k xs])
    have ord: "ordered lt B1" "ordered lt B2" "set B1 \<subseteq> A" "set B2 \<subseteq> A"
      using A ys(1) by (auto simp: B1_def B2_def ordered_ref_sort set_takeD_subset)
    have m: "smerge lt B1 B2 = ref_sort lt (take (2 * k) xs)"
      using A ys(1) by (simp add: B1_def B2_def ys_def mult_2 take_add ref_sort_append set_takeD_subset)
    have split: "take k (ref_blocks lt k ys) = B2 \<and> drop k (ref_blocks lt k ys) = ref_blocks lt k (drop k ys)"
    proof (cases "length ys \<le> k")
      case True
      then show ?thesis
        by (subst (1 2) ref_blocks.simps) (simp add: B2_def ref_blocks.simps[of lt k "[]"])
    next
      case long: False
      then show ?thesis using k by (subst (1 2) ref_blocks.simps) (simp add: B2_def)
    qed
    have "merge_pass lt k (ref_blocks lt k xs) = sym_merge lt B1 B2 @ merge_pass lt k (ref_blocks lt k (drop k ys))"
      unfolding b(1) using b(2) False k split ys
      by (subst merge_pass.simps) (auto simp: ys_def mult_2 simp flip: drop_drop)
    also have "merge_pass lt k (ref_blocks lt k (drop k ys)) = ref_blocks lt (2 * k) (drop k ys)"
      using ys k by (intro less.hyps) (auto simp: set_takeD_subset)
    also have "sym_merge lt B1 B2 = ref_sort lt (take (2 * k) xs)"
      unfolding m[symmetric] by (intro sym_merge_eq_smerge ord)
    also have "ref_sort lt (take (2 * k) xs) @ ref_blocks lt (2 * k) (drop k ys) = ref_blocks lt (2 * k) xs"
    proof (cases "length xs \<le> 2 * k")
      case True
      then have "drop k ys = []" by (simp add: ys_def)
      with True show ?thesis by (simp add: ref_blocks.simps[of lt _ "[]"] ref_blocks.simps[of lt _ xs])
    next
      case long: False
      with k show ?thesis by (simp add: ref_blocks.simps[of lt _ xs] ys(3))
    qed
    finally show ?thesis .
  qed
qed

lemma merge_passes_blocks:
  "set xs \<subseteq> A \<Longrightarrow> 0 < k \<Longrightarrow> merge_passes lt (length xs) k (ref_blocks lt k xs) = ref_sort lt xs"
proof (induction "length xs - k" arbitrary: k rule: less_induct)
  case less
  show ?case
  proof (cases "k < length xs")
    case True
    with less show ?thesis by (subst merge_passes.simps) (simp add: merge_pass_blocks)
  next
    case False
    with less.prems show ?thesis by (subst merge_passes.simps) (simp add: ref_blocks.simps[of lt k xs])
  qed
qed

theorem slice_stable_eq_ref_sort: "set xs \<subseteq> A \<Longrightarrow> slice_stable lt xs = ref_sort lt xs"
  by (simp add: slice_stable_def sort_blocks_eq merge_passes_blocks)

lemma ordered_slice_stable: "set xs \<subseteq> A \<Longrightarrow> ordered lt (slice_stable lt xs)"
  by (simp add: slice_stable_eq_ref_sort ordered_ref_sort)

lemma filter_slice_stable: "c \<in> A \<Longrightarrow> set xs \<subseteq> A \<Longrightarrow>
    filter (\<lambda>y. \<not> lt y c \<and> \<not> lt c y) (slice_stable lt xs) = filter (\<lambda>y. \<not> lt y c \<and> \<not> lt c y) xs"
  by (simp add: slice_stable_eq_ref_sort filter_ref_sort)

text \<open>Where the order separates the elements, the result depends on the multiset alone.\<close>

lemma ordered_unique:
  "mset xs = mset ys \<Longrightarrow> ordered lt xs \<Longrightarrow> ordered lt ys \<Longrightarrow>
    (\<And>x y. x \<in> set xs \<Longrightarrow> y \<in> set xs \<Longrightarrow> x \<noteq> y \<Longrightarrow> lt x y \<or> lt y x) \<Longrightarrow> xs = ys"
proof (induction xs arbitrary: ys)
  case (Cons x xs)
  then obtain y ys' where ys: "ys = y # ys'" by (cases ys) auto
  have set: "set (x # xs) = set ys" using Cons.prems(1) by (rule mset_eq_setD)
  have "x = y"
  proof (rule ccontr)
    assume ne: "x \<noteq> y"
    with set ys have "x \<in> set ys'" "y \<in> set xs" by auto
    with Cons.prems(2,3) ys have "\<not> lt x y" "\<not> lt y x" by auto
    with Cons.prems(4)[of x y] ne \<open>y \<in> set xs\<close> show False by auto
  qed
  with Cons ys show ?case by auto
qed simp

lemma slice_stable_perm:
  assumes "set xs \<subseteq> A" "mset xs = mset ys"
    and "\<And>x y. x \<in> set xs \<Longrightarrow> y \<in> set xs \<Longrightarrow> x \<noteq> y \<Longrightarrow> lt x y \<or> lt y x"
  shows "slice_stable lt xs = slice_stable lt ys"
proof (rule ordered_unique)
  have "set ys \<subseteq> A" using assms(1,2) mset_eq_setD by blast
  then show "ordered lt (slice_stable lt xs)" "ordered lt (slice_stable lt ys)"
    using assms(1) by (simp_all add: ordered_slice_stable)
qed (use assms in auto)

end

end
