(* ===== verification/Scorer.thy ===== *)
theory Scorer
  imports Signals Go_Sort
begin

text \<open>
  Package \<open>rank\<close>, file \<open>scorer.go\<close>: hard filter, weighted sum, sort, exact-name pin,
  tie-break, de-pin pass and truncation, composed by \<open>Run\<close>. The state the stages share is the
  slice of results; a stage that works in place maps the slice before it to the slice after
  it. \<open>uuid.String\<close> is the parameter \<open>ustr\<close>; the context's error the argument \<open>ctx_err\<close>.
\<close>

record scored =
  srCandidate :: candidate
  srScore :: f64

definition tieEpsilon :: f64 where "tieEpsilon = f_const (5 / 1000)"
definition dePinTopN :: nat where "dePinTopN = 2"

section \<open>Filter and score\<close>

definition dropped :: "ranking \<Rightarrow> candidate \<Rightarrow> bool" where
  "dropped cfg c \<longleftrightarrow>
     arOpenStatus (archetype_of cfg (cArchetype c)) = ''hard_filter'' \<and> cIsOpenNow c = Some False"

fun hardFilter :: "candidate list \<Rightarrow> ranking \<Rightarrow> candidate list" where
  "hardFilter [] cfg = []"
| "hardFilter (c # cs) cfg = (if dropped cfg c then hardFilter cs cfg else c # hardFilter cs cfg)"

definition signalValue :: "string \<Rightarrow> candidate \<Rightarrow> ranking \<Rightarrow> f64" where
  "signalValue name c cfg =
     (if name = ''distance'' then signalDistance c cfg
      else if name = ''rating'' then signalRating c cfg
      else if name = ''popularity'' then signalPopularity c cfg
      else if name = ''friends'' then signalFriends c cfg
      else if name = ''claimed'' then signalClaimed c
      else if name = ''photos'' then signalPhotos c cfg
      else if name = ''open_status'' then signalOpenStatus c cfg
      else Fin 0)"

fun score_loop :: "archetype_cfg \<Rightarrow> candidate \<Rightarrow> ranking \<Rightarrow> string list \<Rightarrow> f64 \<Rightarrow> f64" where
  "score_loop arch c cfg [] score = score"
| "score_loop arch c cfg (name # names) score =
     (if name = ''open_status'' \<and> arOpenStatus arch = ''ignore'' then score_loop arch c cfg names score
      else score_loop arch c cfg names
        (f_add score (f_mul (lookup_f64 (arWeights arch) name) (signalValue name c cfg))))"

definition scoreCandidate :: "candidate \<Rightarrow> ranking \<Rightarrow> f64" where
  "scoreCandidate c cfg = score_loop (archetype_of cfg (cArchetype c)) c cfg (rSignals cfg) (Fin 0)"

definition scoreAll :: "candidate list \<Rightarrow> ranking \<Rightarrow> scored list" where
  "scoreAll cs cfg = map (\<lambda>c. \<lparr>srCandidate = c, srScore = scoreCandidate c cfg\<rparr>) cs"

section \<open>Sort, pin and tie-break\<close>

definition score_gt :: "scored \<Rightarrow> scored \<Rightarrow> bool" where
  "score_gt a b \<longleftrightarrow> f_lt (srScore b) (srScore a)"

definition sortByScore :: "scored list \<Rightarrow> scored list" where
  "sortByScore rs = slice_stable score_gt rs"

text \<open>
  The compaction of \<open>applyPin\<close>: \<open>deduped := results[:0]\<close> shares the array the loop reads, so
  element \<open>i\<close> is read after \<open>w \<le> i\<close> elements have been written in front of it.
\<close>

function compact_loop :: "('a \<Rightarrow> bool) \<Rightarrow> nat \<Rightarrow> nat \<Rightarrow> 'a list \<Rightarrow> 'a list" where
  "compact_loop keep i w arr =
     (if i < length arr then
        (let r = arr ! i in
         if keep r then compact_loop keep (i + 1) (w + 1) (arr[w := r])
         else compact_loop keep (i + 1) w arr)
      else take w arr)"
  by pat_completeness auto
termination
  by (relation "measure (\<lambda>(keep, i, w, arr). length arr - i)") auto

declare compact_loop.simps [simp del]

definition applyPin :: "scored list \<Rightarrow> candidate option \<Rightarrow> scored list" where
  "applyPin rs pin =
     (case pin of
        None \<Rightarrow> rs
      | Some p \<Rightarrow>
          \<lparr>srCandidate = p, srScore = PInf\<rparr> #
            compact_loop (\<lambda>r. cID (srCandidate r) \<noteq> cID p) 0 0 rs)"

definition lessWithinTie :: "(uuid \<Rightarrow> string) \<Rightarrow> candidate \<Rightarrow> candidate \<Rightarrow> bool" where
  "lessWithinTie ustr a b =
     (if cIsClaimed a \<noteq> cIsClaimed b then cIsClaimed a
      else if \<not> f_eq (cDistanceKM a) (cDistanceKM b) then f_lt (cDistanceKM a) (cDistanceKM b)
      else if cGoogleReviewCount a \<noteq> cGoogleReviewCount b then
        cGoogleReviewCount b < cGoogleReviewCount a
      else ustr (cID a) < ustr (cID b))"

definition tie_less :: "(uuid \<Rightarrow> string) \<Rightarrow> scored \<Rightarrow> scored \<Rightarrow> bool" where
  "tie_less ustr a b =
     (if f_le tieEpsilon (f_abs (f_sub (srScore a) (srScore b))) then f_lt (srScore b) (srScore a)
      else lessWithinTie ustr (srCandidate a) (srCandidate b))"

definition tieBreak :: "(uuid \<Rightarrow> string) \<Rightarrow> scored list \<Rightarrow> scored list" where
  "tieBreak ustr rs = slice_stable (tie_less ustr) rs"

section \<open>De-pin and truncate\<close>

definition displaces :: "f64 \<Rightarrow> scored \<Rightarrow> scored \<Rightarrow> bool" where
  "displaces window new r \<longleftrightarrow>
     \<not> cIsNew (srCandidate r) \<and> f_lt (f_sub (srScore new) (srScore r)) window"

definition movable :: "scored \<Rightarrow> bool" where
  "movable r \<longleftrightarrow> \<not> (is_pinf (srScore r) \<or> \<not> cIsNew (srCandidate r))"

definition swap_at :: "'a list \<Rightarrow> nat \<Rightarrow> nat \<Rightarrow> 'a list" where
  "swap_at xs i j = xs[i := xs ! j, j := xs ! i]"

function dePin_scan :: "f64 \<Rightarrow> nat \<Rightarrow> nat \<Rightarrow> scored list \<Rightarrow> scored list" where
  "dePin_scan window i j rs =
     (if j < length rs then
        (if displaces window (rs ! i) (rs ! j) then swap_at rs i j
         else dePin_scan window i (j + 1) rs)
      else rs)"
  by pat_completeness auto
termination
  by (relation "measure (\<lambda>(window, i, j, rs). length rs - j)") auto

declare dePin_scan.simps [simp del]

function dePin_loop :: "f64 \<Rightarrow> nat \<Rightarrow> scored list \<Rightarrow> scored list" where
  "dePin_loop window i rs =
     (if i < dePinTopN \<and> i < length rs then
        dePin_loop window (i + 1) (if movable (rs ! i) then dePin_scan window i (i + 1) rs else rs)
      else rs)"
  by pat_completeness auto
termination
  by (relation "measure (\<lambda>(window, i, rs). dePinTopN - i)") auto

declare dePin_loop.simps [simp del]

definition dePin :: "scored list \<Rightarrow> f64 \<Rightarrow> scored list" where
  "dePin rs window = dePin_loop window 0 rs"

definition truncate_results :: "scored list \<Rightarrow> int \<Rightarrow> scored list" where
  "truncate_results rs limit =
     (if 0 \<le> limit \<and> limit < int (length rs) then take (nat limit) rs else rs)"

definition Run :: "(uuid \<Rightarrow> string) \<Rightarrow> 'x option \<Rightarrow> candidate list \<Rightarrow> candidate option \<Rightarrow>
    ranking \<Rightarrow> search_opts \<Rightarrow> 'x + scored list" where
  "Run ustr ctx_err candidates pin cfg opts =
     (case ctx_err of
        Some e \<Rightarrow> Inl e
      | None \<Rightarrow>
          (let results = scoreAll (hardFilter candidates cfg) cfg;
               results = sortByScore results;
               results = applyPin results pin;
               results = tieBreak ustr results;
               results = dePin results (nbSwapWindow (rNewBusiness cfg))
           in Inr (truncate_results results (soLimit opts))))"

section \<open>Each stage against its specification\<close>

lemma hardFilter_filter: "hardFilter cs cfg = filter (\<lambda>c. \<not> dropped cfg c) cs"
  by (induction cs) auto

lemma compact_loop_eq:
  "w \<le> i \<Longrightarrow> i \<le> length arr \<Longrightarrow> compact_loop keep i w arr = take w arr @ filter keep (drop i arr)"
proof (induction keep i w arr rule: compact_loop.induct)
  case (1 keep i w arr)
  show ?case
  proof (cases "i < length arr")
    case True
    then have d: "drop i arr = arr ! i # drop (Suc i) arr" by (simp add: Cons_nth_drop_Suc)
    have t: "take (Suc w) (arr[w := arr ! i]) = take w arr @ [arr ! i]"
      using True "1.prems" by (simp add: take_Suc_conv_app_nth)
    show ?thesis
      using 1 True d t by (subst compact_loop.simps) (auto simp: Let_def)
  qed (use "1.prems" in \<open>subst compact_loop.simps, simp\<close>)
qed

lemma applyPin_eq: "applyPin rs pin = (case pin of None \<Rightarrow> rs
    | Some p \<Rightarrow> \<lparr>srCandidate = p, srScore = PInf\<rparr> # filter (\<lambda>r. cID (srCandidate r) \<noteq> cID p) rs)"
  by (simp add: applyPin_def compact_loop_eq split: option.split)

lemma mset_swap_at: "i < length xs \<Longrightarrow> j < length xs \<Longrightarrow> mset (swap_at xs i j) = mset xs"
  by (simp add: swap_at_def mset_swap)

lemma length_swap_at [simp]: "length (swap_at xs i j) = length xs"
  by (simp add: swap_at_def)

lemma dePin_scan_mset: "i < length rs \<Longrightarrow> mset (dePin_scan w i j rs) = mset rs"
  by (induction w i j rs rule: dePin_scan.induct) (subst dePin_scan.simps, simp add: mset_swap_at)

lemma length_dePin_scan [simp]: "length (dePin_scan w i j rs) = length rs"
  by (induction w i j rs rule: dePin_scan.induct) (subst dePin_scan.simps, simp)

lemma dePin_loop_mset: "mset (dePin_loop w i rs) = mset rs"
  by (induction w i rs rule: dePin_loop.induct) (subst dePin_loop.simps, simp add: dePin_scan_mset)

lemma mset_dePin [simp]: "mset (dePin rs w) = mset rs"
  by (simp add: dePin_def dePin_loop_mset)

lemma length_dePin [simp]: "length (dePin rs w) = length rs"
  by (metis mset_dePin size_mset)

lemma mset_tieBreak [simp]: "mset (tieBreak ustr rs) = mset rs"
  by (simp add: tieBreak_def)

lemma mset_sortByScore [simp]: "mset (sortByScore rs) = mset rs"
  by (simp add: sortByScore_def)

lemmas stage_msets = mset_dePin mset_tieBreak mset_sortByScore

end
