(* ===== verification/Rank_Order.thy ===== *)
theory Rank_Order
  imports Scorer
begin

text \<open>
  The two comparators of the ranker: the score order (interpreted as a strict weak order on
  results whose score is a number), \<open>lessWithinTie\<close> (on candidates whose distance is one),
  and the tie-break comparator, a strict weak order exactly on slices where being within
  \<open>tieEpsilon\<close> is transitive.
\<close>

interpretation score_order: strict_weak_order score_gt "{r. srScore r \<noteq> NaN}"
proof
  fix x y z :: scored
  assume "x \<in> {r. srScore r \<noteq> NaN}" "y \<in> {r. srScore r \<noteq> NaN}" "z \<in> {r. srScore r \<noteq> NaN}" "score_gt x z"
  then show "score_gt x y \<or> score_gt y z"
    by (cases "srScore x"; cases "srScore y"; cases "srScore z") (auto simp: score_gt_def)
qed (auto simp: score_gt_def dest: f_lt_asym)

interpretation within_tie: strict_weak_order "lessWithinTie ustr" "{c. cDistanceKM c \<noteq> NaN}" for ustr
proof
  fix x y z :: candidate
  assume "x \<in> {c. cDistanceKM c \<noteq> NaN}" "y \<in> {c. cDistanceKM c \<noteq> NaN}" "z \<in> {c. cDistanceKM c \<noteq> NaN}"
    and xz: "lessWithinTie ustr x z"
  then have "f_lt (cDistanceKM a) (cDistanceKM b) \<or> cDistanceKM a = cDistanceKM b \<or> f_lt (cDistanceKM b) (cDistanceKM a)"
    if "a \<in> {x, y, z}" "b \<in> {x, y, z}" for a b
    using that f_lt_linear by auto
  then have "f_lt (cDistanceKM x) (cDistanceKM y) \<or> cDistanceKM x = cDistanceKM y \<or> f_lt (cDistanceKM y) (cDistanceKM x)"
    "f_lt (cDistanceKM y) (cDistanceKM z) \<or> cDistanceKM y = cDistanceKM z \<or> f_lt (cDistanceKM z) (cDistanceKM y)"
    by auto
  then show "lessWithinTie ustr x y \<or> lessWithinTie ustr y z"
    using xz unfolding lessWithinTie_def f_eq_iff
    by (smt (verit) f_lt_trans f_lt_asym order_less_trans linorder_less_linear)
qed (auto simp: lessWithinTie_def f_eq_iff split: if_splits dest: f_lt_asym)

section \<open>Being tied\<close>

definition tied :: "f64 \<Rightarrow> f64 \<Rightarrow> bool" where
  "tied a b \<longleftrightarrow> \<not> f_le tieEpsilon (f_abs (f_sub a b))"

lemma tie_less_tied:
  "tie_less ustr a b = (if tied (srScore a) (srScore b) then lessWithinTie ustr (srCandidate a) (srCandidate b)
     else f_lt (srScore b) (srScore a))"
  by (simp add: tie_less_def tied_def)

lemma f_abs_fround: "f_abs (fround d) = fround \<bar>d\<bar>"
proof (cases "0 \<le> d")
  case True
  then have "nonneg_f (fround d)" by (rule nonneg_fround)
  with True show ?thesis by (auto simp: nonneg_f_iff)
next
  case False
  then have "nonneg_f (fround \<bar>d\<bar>)" by (intro nonneg_fround) simp
  moreover have "fround d = f_neg (fround \<bar>d\<bar>)" using False fround_neg[of "\<bar>d\<bar>"] by simp
  ultimately show ?thesis by (auto simp: nonneg_f_iff)
qed

lemma tied_Fin: "tied (Fin x) (Fin y) \<longleftrightarrow> \<not> f_le tieEpsilon (fround \<bar>x - y\<bar>)"
  by (simp add: tied_def f_sub_def f_abs_fround)

definition tie_eps :: real where "tie_eps = rnd (5 / 1000)"

lemma tieEpsilon_eq: "tieEpsilon = Fin tie_eps"
  and tie_eps_bounds: "5/1024 \<le> tie_eps" "tie_eps \<le> 6/1024"
proof -
  have m: "rnd (of_int 5 / 2 ^ 10) \<le> rnd (5 / 1000)" "rnd (5 / 1000) \<le> rnd (of_int 6 / 2 ^ 10)"
    by (rule rnd_mono; simp)+
  then show b: "5/1024 \<le> tie_eps" "tie_eps \<le> 6/1024"
    using rnd_dyadic[of 5 10] rnd_dyadic[of 6 10] unfolding tie_eps_def by simp_all
  have "(1::real) < overflow64" by (rule overflow64_gt) simp
  moreover have "- overflow64 < 0" by simp
  ultimately show "tieEpsilon = Fin tie_eps"
    using b unfolding tieEpsilon_def f_const_def fround_def Let_def tie_eps_def[symmetric] by simp
qed

lemma tieEpsilon_pos: "\<not> f_le tieEpsilon (Fin 0)" "f_le tieEpsilon PInf"
  using tie_eps_bounds(1) by (simp_all add: tieEpsilon_eq)

lemma tied_Inf [simp]:
  "tied PInf y \<longleftrightarrow> y = PInf \<or> y = NaN" "tied x PInf \<longleftrightarrow> x = PInf \<or> x = NaN"
  "tied NInf y \<longleftrightarrow> y = NInf \<or> y = NaN" "tied x NInf \<longleftrightarrow> x = NInf \<or> x = NaN"
  "tied NaN y" "tied x NaN"
  by (cases x; cases y; simp add: tied_def f_sub_def tieEpsilon_eq)+

lemma tied_Fin_sym: "tied (Fin x) (Fin y) \<longleftrightarrow> tied (Fin y) (Fin x)"
  unfolding tied_Fin by (subst abs_minus_commute) (rule refl)

lemma tied_sym: "tied a b \<longleftrightarrow> tied b a"
proof (cases "\<exists>x y. a = Fin x \<and> b = Fin y")
  case True
  then show ?thesis using tied_Fin_sym by blast
qed (cases a; cases b; simp)

lemma tied_refl: "a \<noteq> NaN \<Longrightarrow> tied a a"
  by (cases a) (simp_all add: tied_Fin tieEpsilon_pos)

lemma tied_convex:
  assumes "f_le x y" "f_le y z" "tied x z"
  shows "tied x y" "tied y z"
proof -
  have fin: "tied (Fin a) (Fin b) \<and> tied (Fin b) (Fin c)"
    if "a \<le> b" "b \<le> c" "tied (Fin a) (Fin c)" for a b c
  proof -
    have "\<bar>a - b\<bar> \<le> \<bar>a - c\<bar>" "\<bar>b - c\<bar> \<le> \<bar>a - c\<bar>" using that(1,2) by linarith+
    then have "f_le (fround \<bar>a - b\<bar>) (fround \<bar>a - c\<bar>)" "f_le (fround \<bar>b - c\<bar>) (fround \<bar>a - c\<bar>)"
      by (blast intro: fround_mono)+
    with that(3) show ?thesis unfolding tied_Fin using f_le_trans by blast
  qed
  show "tied x y" using assms by (cases x; cases y; cases z) (auto dest: fin[THEN conjunct1, rotated 2])
  show "tied y z" using assms by (cases x; cases y; cases z) (auto dest: fin[THEN conjunct2, rotated 2])
qed

section \<open>The tie-break comparator\<close>

text \<open>Slices on which the comparator is an ordering.\<close>

definition clear_ties :: "scored list \<Rightarrow> bool" where
  "clear_ties rs \<longleftrightarrow>
     list_all (\<lambda>r. srScore r \<noteq> NaN \<and> cDistanceKM (srCandidate r) \<noteq> NaN) rs \<and>
     (\<forall>a \<in> set rs. \<forall>b \<in> set rs. \<forall>c \<in> set rs.
        tied (srScore a) (srScore b) \<longrightarrow> tied (srScore b) (srScore c) \<longrightarrow> tied (srScore a) (srScore c))"

lemma clear_tiesD:
  assumes "clear_ties rs"
  shows "r \<in> set rs \<Longrightarrow> srScore r \<noteq> NaN" "r \<in> set rs \<Longrightarrow> cDistanceKM (srCandidate r) \<noteq> NaN"
    "a \<in> set rs \<Longrightarrow> b \<in> set rs \<Longrightarrow> c \<in> set rs \<Longrightarrow> tied (srScore a) (srScore b) \<Longrightarrow>
      tied (srScore b) (srScore c) \<Longrightarrow> tied (srScore a) (srScore c)"
  using assms unfolding clear_ties_def list_all_iff by blast+

lemma tie_less_swo:
  assumes "clear_ties rs"
  shows "strict_weak_order (tie_less ustr) (set rs)"
proof
  fix x y assume xy: "x \<in> set rs" "y \<in> set rs" "tie_less ustr x y"
  then show "\<not> tie_less ustr y x"
    using within_tie.asym[of "srCandidate x" "srCandidate y" ustr] clear_tiesD(2)[OF assms]
      tied_sym[of "srScore x" "srScore y"] f_lt_asym
    by (auto simp: tie_less_tied split: if_splits)
next
  fix x y z assume S: "x \<in> set rs" "y \<in> set rs" "z \<in> set rs" and xz: "tie_less ustr x z"
  let ?x = "srScore x" and ?y = "srScore y" and ?z = "srScore z"
  note num = clear_tiesD(1)[OF assms S(1)] clear_tiesD(1)[OF assms S(2)] clear_tiesD(1)[OF assms S(3)]
  have tr: "tied ?x ?y \<Longrightarrow> tied ?y ?z \<Longrightarrow> tied ?x ?z" "tied ?x ?z \<Longrightarrow> tied ?z ?y \<Longrightarrow> tied ?x ?y"
    "tied ?y ?x \<Longrightarrow> tied ?x ?z \<Longrightarrow> tied ?y ?z"
    using clear_tiesD(3)[OF assms] S by blast+
  note sym = tied_sym[of ?x ?y] tied_sym[of ?y ?z] tied_sym[of ?x ?z]
  have le: "\<not> f_lt ?y ?x \<Longrightarrow> f_le ?x ?y" "\<not> f_lt ?z ?y \<Longrightarrow> f_le ?y ?z" "\<not> f_lt ?z ?x \<Longrightarrow> f_le ?x ?z"
    "f_lt ?z ?x \<Longrightarrow> f_le ?z ?x"
    using num by (auto simp: not_f_lt_iff f_le_def)
  show "tie_less ustr x y \<or> tie_less ustr y z"
  proof (cases "tied ?x ?z")
    case True
    then have w: "lessWithinTie ustr (srCandidate x) (srCandidate z)" using xz by (simp add: tie_less_tied)
    show ?thesis
    proof (cases "tied ?x ?y")
      case t: True
      with True tr sym have "tied ?y ?z" by blast
      with t w S within_tie.negtrans[of "srCandidate x" "srCandidate y" "srCandidate z" ustr] clear_tiesD(2)[OF assms]
      show ?thesis by (auto simp: tie_less_tied)
    next
      case f: False
      with True tr sym have "\<not> tied ?y ?z" by blast
      moreover have "f_lt ?y ?x \<or> f_lt ?z ?y" using f True le tied_convex(1) by blast
      ultimately show ?thesis using f by (auto simp: tie_less_tied)
    qed
  next
    case False
    then have zx: "f_lt ?z ?x" using xz by (simp add: tie_less_tied)
    show ?thesis
    proof (cases "tied ?x ?y")
      case True
      with False tr sym have "\<not> tied ?y ?z" by blast
      moreover have "f_lt ?z ?y" using True False le(2) le(4)[OF zx] tied_convex(2)[of ?y ?z ?x] sym by blast
      ultimately show ?thesis by (auto simp: tie_less_tied)
    next
      case f: False
      show ?thesis
      proof (cases "f_lt ?y ?x")
        case False
        then have xy: "f_le ?x ?y" by (rule le)
        have "\<not> tied ?y ?z" using xy le(4)[OF zx] f tied_convex(2)[of ?z ?x ?y] sym by blast
        moreover have "f_lt ?z ?y" using zx xy f_lt_trans by (auto simp: f_le_def f_eq_iff)
        ultimately show ?thesis by (auto simp: tie_less_tied)
      qed (use f in \<open>simp add: tie_less_tied\<close>)
    qed
  qed
qed

end
