(* ===== verification/Rank_Props.thy ===== *)
theory Rank_Props
  imports Rank_Order
begin

text \<open>
  What the ranker guarantees: the range of the signals and of the score, the composition of
  the result, the place of the pin, the de-pin guard and the determinism of the tie-break.
\<close>

section \<open>Scores\<close>

text \<open>The numeric side conditions of the literal formulas for one candidate.\<close>

definition decay_finite :: "ranking \<Rightarrow> archetype \<Rightarrow> bool" where
  "decay_finite cfg a \<longleftrightarrow> sfDistance (rSignalFormulas cfg) \<noteq> ''decay'' \<or>
     (lookup_f64 (sfDistanceDecayKM (rSignalFormulas cfg)) a \<noteq> NaN \<and>
      lookup_f64 (sfDistanceDecayKM (rSignalFormulas cfg)) a \<noteq> PInf)"

definition sane_for :: "ranking \<Rightarrow> candidate \<Rightarrow> bool" where
  "sane_for cfg c \<longleftrightarrow> unit_knobs (rSignalFormulas cfg) (rNewBusiness cfg) \<and> cand_ranges c \<and>
     decay_finite cfg (cArchetype c) \<and> sfRating (rSignalFormulas cfg) \<noteq> ''bayesian''"

lemma signalDistance_unit: "sane_for cfg c \<Longrightarrow> unit_f (signalDistance c cfg)"
  by (auto simp: sane_for_def decay_finite_def cand_ranges_def signalDistance_def
      intro: literal_distance_unit distanceDecay_unit)

lemma signalValue_unit_aux: "sane_for cfg c \<Longrightarrow> unit_f (signalValue name c cfg)"
proof -
  assume s: "sane_for cfg c"
  then have "unit_f (signalDistance c cfg)" "unit_f (signalRating c cfg)" "unit_f (signalPopularity c cfg)"
    "unit_f (signalFriends c cfg)" "unit_f (signalClaimed c)" "unit_f (signalPhotos c cfg)"
    "unit_f (signalOpenStatus c cfg)"
    by (auto simp: sane_for_def cand_ranges_def unit_knobs_def signalClaimed_unit f_of_int_64
        intro: signalDistance_unit[OF s] signalRating_unit signalPopularity_unit signalFriends_unit
          signalPhotos_unit signalOpenStatus_unit)
  then show ?thesis by (simp add: signalValue_def)
qed

definition active_signals :: "archetype_cfg \<Rightarrow> string list \<Rightarrow> string list" where
  "active_signals arch names = filter (\<lambda>n. \<not> (n = ''open_status'' \<and> arOpenStatus arch = ''ignore'')) names"

definition weight_total :: "archetype_cfg \<Rightarrow> string list \<Rightarrow> f64" where
  "weight_total arch names =
     fold (\<lambda>n s. f_add s (lookup_f64 (arWeights arch) n)) (active_signals arch names) (Fin 0)"

definition proper_weight :: "f64 \<Rightarrow> bool" where
  "proper_weight w \<longleftrightarrow> nonneg_f w \<and> w \<noteq> PInf \<and> f64_wf w"

lemma score_loop_fold:
  "score_loop arch c cfg names s =
    fold (\<lambda>n s. f_add s (f_mul (lookup_f64 (arWeights arch) n) (signalValue n c cfg))) (active_signals arch names) s"
  by (induction names arbitrary: s) (auto simp: active_signals_def)

lemma fold_weights_le:
  assumes "list_all (\<lambda>n. proper_weight (w n) \<and> unit_f (v n)) ns"
  shows "nonneg_f s \<Longrightarrow> f_le s t \<Longrightarrow>
    nonneg_f (fold (\<lambda>n s. f_add s (f_mul (w n) (v n))) ns s) \<and>
    f_le (fold (\<lambda>n s. f_add s (f_mul (w n) (v n))) ns s) (fold (\<lambda>n s. f_add s (w n)) ns t)"
  using assms
proof (induction ns arbitrary: s t)
  case (Cons n ns)
  then have "nonneg_f (f_mul (w n) (v n))" "f_le (f_mul (w n) (v n)) (w n)"
    by (auto simp: proper_weight_def intro: nonneg_f_mul_unit f_mul_unit_le)
  then have "nonneg_f (f_add s (f_mul (w n) (v n)))" "f_le (f_add s (f_mul (w n) (v n))) (f_add t (w n))"
    using Cons.prems by (auto intro: nonneg_f_add f_add_mono)
  with Cons show ?case by simp
qed simp

lemma score_bound_aux:
  assumes "sane_for cfg c" "list_all (\<lambda>n. proper_weight (lookup_f64 (arWeights (archetype_of cfg (cArchetype c))) n)) (rSignals cfg)"
  shows "nonneg_f (scoreCandidate c cfg) \<and>
    f_le (scoreCandidate c cfg) (weight_total (archetype_of cfg (cArchetype c)) (rSignals cfg))"
  unfolding scoreCandidate_def weight_total_def score_loop_fold
  by (rule fold_weights_le)
    (use assms in \<open>auto simp: list_all_iff active_signals_def signalValue_unit_aux\<close>)

section \<open>De-pin\<close>

lemma dePin_scan_take: "i < j \<Longrightarrow> take i (dePin_scan w i j rs) = take i rs"
  by (induction w i j rs rule: dePin_scan.induct) (subst dePin_scan.simps, simp add: swap_at_def)

lemma dePin_loop_take: "take i (dePin_loop w i rs) = take i rs"
proof (induction w i rs rule: dePin_loop.induct)
  case (1 w i rs)
  show ?case
  proof (cases "i < dePinTopN \<and> i < length rs")
    case True
    let ?s = "if movable (rs ! i) then dePin_scan w i (i + 1) rs else rs"
    have "take i (take (i + 1) (dePin_loop w (i + 1) ?s)) = take i (take (i + 1) ?s)"
      using 1 True by simp
    then have "take i (dePin_loop w (i + 1) ?s) = take i ?s" by (simp add: min_def)
    with True show ?thesis by (subst dePin_loop.simps) (simp add: dePin_scan_take)
  next
    case False
    then show ?thesis by (subst dePin_loop.simps) (simp only: if_False)
  qed
qed

lemma length_dePin_loop [simp]: "length (dePin_loop w i rs) = length rs"
  by (metis dePin_loop_mset size_mset)

lemma dePin_loop_keeps:
  assumes "k < i"
  shows "dePin_loop w i rs ! k = rs ! k" "set (drop i (dePin_loop w i rs)) = set (drop i rs)"
proof -
  define ys where "ys = dePin_loop w i rs"
  have t: "take i ys = take i rs" "mset ys = mset rs"
    unfolding ys_def by (rule dePin_loop_take, rule dePin_loop_mset)
  show "dePin_loop w i rs ! k = rs ! k"
    unfolding ys_def[symmetric] using nth_take[OF assms, of ys] nth_take[OF assms, of rs] t(1) by simp
  have "mset (take i ys) + mset (drop i ys) = mset (take i rs) + mset (drop i rs)"
    unfolding mset_take_drop by (rule t(2))
  then have "mset (drop i ys) = mset (drop i rs)" unfolding t(1) by simp
  then show "set (drop i (dePin_loop w i rs)) = set (drop i rs)"
    unfolding ys_def[symmetric] by (rule mset_eq_setD)
qed

definition guarded :: "f64 \<Rightarrow> nat \<Rightarrow> scored list \<Rightarrow> bool" where
  "guarded w k rs \<longleftrightarrow> \<not> movable (rs ! k) \<or> (\<forall>r \<in> set (drop (k + 1) rs). \<not> displaces w (rs ! k) r)"

lemma dePin_scan_guarded:
  "i < j \<Longrightarrow> i < length rs \<Longrightarrow> (\<forall>k. i < k \<and> k < j \<longrightarrow> \<not> displaces w (rs ! i) (rs ! k)) \<Longrightarrow>
    guarded w i (dePin_scan w i j rs)"
proof (induction w i j rs rule: dePin_scan.induct)
  case (1 w i j rs)
  show ?case
  proof (cases "j < length rs")
    case False
    with "1.prems" have "\<forall>r \<in> set (drop (i + 1) rs). \<not> displaces w (rs ! i) r"
      by (auto simp: in_set_drop_nth)
    with False show ?thesis by (subst dePin_scan.simps) (simp add: guarded_def)
  next
    case True
    show ?thesis
    proof (cases "displaces w (rs ! i) (rs ! j)")
      case d: True
      then have "\<not> movable (swap_at rs i j ! i)"
        using "1.prems" True by (simp add: swap_at_def displaces_def movable_def)
      with True d show ?thesis by (subst dePin_scan.simps) (simp add: guarded_def)
    next
      case d: False
      with "1.prems" have "\<forall>k. i < k \<and> k < j + 1 \<longrightarrow> \<not> displaces w (rs ! i) (rs ! k)"
        by (auto simp: less_Suc_eq)
      with 1 True d show ?thesis by (subst dePin_scan.simps) simp
    qed
  qed
qed

lemma dePin_loop_guarded:
  "i \<le> k \<Longrightarrow> k < dePinTopN \<Longrightarrow> k < length rs \<Longrightarrow> guarded w k (dePin_loop w i rs)"
proof (induction w i rs rule: dePin_loop.induct)
  case (1 w i rs)
  let ?s = "if movable (rs ! i) then dePin_scan w i (i + 1) rs else rs"
  have c: "i < dePinTopN \<and> i < length rs" using "1.prems" by simp
  then have eq: "dePin_loop w i rs = dePin_loop w (i + 1) ?s" by (subst dePin_loop.simps) simp
  show ?case
  proof (cases "i = k")
    case True
    have "guarded w i ?s"
    proof (cases "movable (rs ! i)")
      case m: True
      have "guarded w i (dePin_scan w i (i + 1) rs)" using c by (intro dePin_scan_guarded) auto
      with m show ?thesis by simp
    qed (simp add: guarded_def)
    then show ?thesis
      unfolding eq guarded_def True[symmetric]
      using dePin_loop_keeps[of i "i + 1" w ?s] by simp
  next
    case False
    with 1 c show ?thesis unfolding eq by simp
  qed
qed

lemma dePin_head: "\<not> movable x \<Longrightarrow> \<exists>ys. dePin (x # xs) w = x # ys"
proof -
  assume m: "\<not> movable x"
  have "dePin (x # xs) w = dePin_loop w 1 (x # xs)"
    unfolding dePin_def using m by (subst dePin_loop.simps) (simp add: dePinTopN_def)
  moreover have "take 1 (dePin_loop w 1 (x # xs)) = [x]" unfolding dePin_loop_take by simp
  then have "dePin_loop w 1 (x # xs) = x # drop 1 (dePin_loop w 1 (x # xs))"
    by (metis append_take_drop_id append_Cons append_Nil)
  ultimately show ?thesis by metis
qed

section \<open>The composition\<close>

text \<open>The multiset of candidates \<open>Run\<close> ranks: the kept ones, the pin replacing its duplicates.\<close>

definition ranked_pool :: "candidate list \<Rightarrow> candidate option \<Rightarrow> ranking \<Rightarrow> candidate list" where
  "ranked_pool cs pin cfg =
     (let kept = filter (\<lambda>c. \<not> dropped cfg c) cs in
      case pin of None \<Rightarrow> kept | Some p \<Rightarrow> p # filter (\<lambda>c. cID c \<noteq> cID p) kept)"

definition pin_stage :: "candidate list \<Rightarrow> candidate option \<Rightarrow> ranking \<Rightarrow> scored list" where
  "pin_stage cs pin cfg = applyPin (sortByScore (scoreAll (hardFilter cs cfg) cfg)) pin"

lemma mset_pin_stage: "mset (map srCandidate (pin_stage cs pin cfg)) = mset (ranked_pool cs pin cfg)"
proof -
  have m: "mset (map srCandidate (filter (\<lambda>r. P (srCandidate r)) (sortByScore (scoreAll xs cfg)))) =
      mset (filter P xs)" for P xs
  proof -
    have "mset (filter (\<lambda>r. P (srCandidate r)) (sortByScore (scoreAll xs cfg))) =
        mset (filter (\<lambda>r. P (srCandidate r)) (scoreAll xs cfg))"
      by (simp add: mset_filter)
    then have "mset (map srCandidate (filter (\<lambda>r. P (srCandidate r)) (sortByScore (scoreAll xs cfg)))) =
        mset (map srCandidate (filter (\<lambda>r. P (srCandidate r)) (scoreAll xs cfg)))"
      by (metis mset_map)
    also have "map srCandidate (filter (\<lambda>r. P (srCandidate r)) (scoreAll xs cfg)) = filter P xs"
      by (simp add: scoreAll_def filter_map comp_def)
    finally show ?thesis .
  qed
  show ?thesis
  proof (cases pin)
    case None
    then show ?thesis
      using m[of "\<lambda>_. True" "hardFilter cs cfg"]
      by (simp add: pin_stage_def ranked_pool_def applyPin_def hardFilter_filter)
  next
    case (Some p)
    then have "mset (map srCandidate (pin_stage cs pin cfg)) =
        add_mset p (mset (filter (\<lambda>c. cID c \<noteq> cID p) (hardFilter cs cfg)))"
      unfolding m[of "\<lambda>c. cID c \<noteq> cID p", symmetric] by (simp add: pin_stage_def applyPin_eq)
    with Some show ?thesis by (simp add: ranked_pool_def hardFilter_filter del: mset_filter)
  qed
qed

lemma pin_stage_scores:
  "r \<in> set (pin_stage cs pin cfg) \<Longrightarrow>
    srScore r = scoreCandidate (srCandidate r) cfg \<and> srCandidate r \<in> set (hardFilter cs cfg) \<or>
    pin = Some (srCandidate r) \<and> srScore r = PInf"
  by (auto simp: pin_stage_def applyPin_eq sortByScore_def scoreAll_def split: option.splits)

lemma Run_eq:
  "Run ustr None cs pin cfg opts =
    Inr (truncate_results (dePin (tieBreak ustr (pin_stage cs pin cfg)) (nbSwapWindow (rNewBusiness cfg))) (soLimit opts))"
  by (simp add: Run_def pin_stage_def Let_def)

lemma truncate_results_take: "\<exists>n. truncate_results rs limit = take n rs"
  by (auto simp: truncate_results_def intro: exI[of _ "length rs"])

lemma length_truncate:
  "length (truncate_results rs limit) = (if 0 \<le> limit then min (nat limit) (length rs) else length rs)"
  by (auto simp: truncate_results_def min_def)

lemma tieBreak_pin_head:
  assumes "list_all (\<lambda>r. srScore r \<noteq> NaN \<and> srScore r \<noteq> PInf) rs"
  shows "\<exists>ys. tieBreak ustr (\<lparr>srCandidate = p, srScore = PInf\<rparr> # rs) = \<lparr>srCandidate = p, srScore = PInf\<rparr> # ys"
proof -
  have "\<not> tie_less ustr z \<lparr>srCandidate = p, srScore = PInf\<rparr>" if "srScore z \<noteq> NaN" "srScore z \<noteq> PInf" for z
    using that by (cases "srScore z") (auto simp: tie_less_tied)
  moreover have "\<not> tie_less ustr \<lparr>srCandidate = p, srScore = PInf\<rparr> \<lparr>srCandidate = p, srScore = PInf\<rparr>"
    by (auto simp: tie_less_tied lessWithinTie_def f_eq_iff)
  ultimately show ?thesis
    unfolding tieBreak_def using assms by (intro slice_stable_head) (auto simp: list_all_iff)
qed

end
