(* ===== verification/Ranking_Yaml.thy ===== *)
theory Ranking_Yaml
  imports Rank_Props
begin

text \<open>
  The configuration the program ships, \<open>config/ranking.yaml\<close>, as the value \<open>Load\<close> decodes it
  to, and the facts about it: it is accepted, every knob is in range, every weight is
  proper. It is also the configuration of the witnesses.
\<close>

definition open_status_yaml :: open_status_cfg where
  "open_status_yaml = \<lparr>osClosed = f_const 0, osOpensLater = f_const (3/10),
     osOpenNow = f_const 1, osUnknownHoursSignal = f_const (7/10)\<rparr>"

definition formulas_yaml :: signal_formulas where
  "formulas_yaml = \<lparr>
     sfRating = ''literal'',
     sfBayesianRating = \<lparr>bPriorStrength = f_const 20, bGlobalMean = f_const (43/10), bSource = ''google_rating''\<rparr>,
     sfDistance = ''literal'',
     sfDistanceDecayKM =
       [''utility_distance_dominant'' \<mapsto> f_const 3, ''low_stakes_fast_nearby'' \<mapsto> f_const 8,
        ''medium_stakes_occasion'' \<mapsto> f_const 16, ''recurring_service'' \<mapsto> f_const 16,
        ''experiential'' \<mapsto> f_const 48, ''high_stakes_one_time'' \<mapsto> f_const 80],
     sfGlobalMaxReviews = f_const 10000,
     sfPhotoDemotionBelow3 = f_const (1/4),
     sfFriendsFullCredit = f_const 5,
     sfOpenStatus = open_status_yaml\<rparr>"

text \<open>Weights in the order distance, rating, popularity, friends, claimed, photos, open status.\<close>

definition weights_yaml :: "real \<Rightarrow> real \<Rightarrow> real \<Rightarrow> real \<Rightarrow> real \<Rightarrow> real \<Rightarrow> real \<Rightarrow> string \<rightharpoonup> f64" where
  "weights_yaml d r p f c ph os =
     [''distance'' \<mapsto> f_const d, ''rating'' \<mapsto> f_const r, ''popularity'' \<mapsto> f_const p,
      ''friends'' \<mapsto> f_const f, ''claimed'' \<mapsto> f_const c, ''photos'' \<mapsto> f_const ph,
      ''open_status'' \<mapsto> f_const os]"

definition archetypes_yaml :: "(archetype \<times> archetype_cfg) list" where
  "archetypes_yaml =
    [(''low_stakes_fast_nearby'',
      \<lparr>arWeights = weights_yaml (25/100) (18/100) (19/100) (12/100) (1/100) (10/100) (15/100),
       arOpenStatus = ''hard_filter''\<rparr>),
     (''medium_stakes_occasion'',
      \<lparr>arWeights = weights_yaml (10/100) (25/100) (25/100) (15/100) (3/100) (12/100) (10/100),
       arOpenStatus = ''soft''\<rparr>),
     (''high_stakes_one_time'',
      \<lparr>arWeights = weights_yaml (4/100) (26/100) (25/100) (16/100) (12/100) (15/100) (2/100),
       arOpenStatus = ''ignore''\<rparr>),
     (''experiential'',
      \<lparr>arWeights = weights_yaml (8/100) (22/100) (17/100) (16/100) (7/100) (25/100) (5/100),
       arOpenStatus = ''ignore''\<rparr>),
     (''recurring_service'',
      \<lparr>arWeights = weights_yaml (8/100) (25/100) (25/100) (16/100) (10/100) (10/100) (6/100),
       arOpenStatus = ''soft''\<rparr>),
     (''utility_distance_dominant'',
      \<lparr>arWeights = weights_yaml (45/100) (10/100) (10/100) (2/100) (8/100) (5/100) (20/100),
       arOpenStatus = ''hard_filter''\<rparr>)]"

definition ranking_yaml :: ranking where
  "ranking_yaml = \<lparr>
     rSignals = [''distance'', ''rating'', ''popularity'', ''friends'', ''claimed'', ''photos'', ''open_status''],
     rSignalFormulas = formulas_yaml,
     rArchetypes = archetypes_yaml,
     rNewBusiness = \<lparr>nbThresholdReviewCount = 10, nbRatingDemoteFactor = f_const (85/100),
       nbPinTop = False, nbSwapWindow = f_const (5/100)\<rparr>,
     rSimilarityThreshold = f_const (85/100)\<rparr>"

lemma valid_ranking_yaml: "valid_ranking ranking_yaml"
  by (simp add: valid_ranking_def ranking_yaml_def formulas_yaml_def archetypes_yaml_def
      all_archetypes_def archetype_defs known_status_def)

lemma unit_f_const: "0 \<le> q \<Longrightarrow> q \<le> 1 \<Longrightarrow> unit_f (f_const q)"
  by (simp add: f_const_def fround_unit)

lemma proper_weight_const: "0 \<le> q \<Longrightarrow> q \<le> 1 \<Longrightarrow> proper_weight (f_const q)"
  using fround_unit[of q] fround_wf[of q] unfolding proper_weight_def f_const_def unit_f_iff
  by (cases "fround q") auto

lemma proper_weight_0 [simp]: "proper_weight (Fin 0)"
  by (simp add: proper_weight_def)

lemma unit_knobs_yaml: "unit_knobs formulas_yaml (rNewBusiness ranking_yaml)"
proof -
  have "1 = ln (exp (1::real))" by simp
  also have "\<dots> \<le> ln 10001" using exp_le by (subst ln_le_cancel_iff) auto
  finally have "f_le (fround 1) (fround (ln 10001))" by (rule fround_mono)
  then have "f_lt (Fin 0) (fround (ln 10001))" by (cases "fround (ln 10001)") auto
  then show ?thesis
    by (simp add: unit_knobs_def ranking_yaml_def formulas_yaml_def open_status_yaml_def unit_f_const)
      (simp add: f_const_def fround_numeral)
qed

lemma proper_weights_yaml:
  "proper_weight (lookup_f64 (arWeights (archetype_of ranking_yaml a)) n)"
proof -
  have w: "proper_weight (lookup_f64 (weights_yaml d r p f c ph os) n)"
    if "list_all (\<lambda>q. 0 \<le> q \<and> q \<le> 1) [d, r, p, f, c, ph, os]" for d r p f c ph os
    using that by (simp add: weights_yaml_def lookup_f64_def proper_weight_const)
  show ?thesis
    by (simp add: archetype_of_def ranking_yaml_def archetypes_yaml_def zero_archetype_def lookup_f64_def[of "\<lambda>_. None"] w)
qed

text \<open>A candidate with every column filled, for the witnesses.\<close>

definition cafe :: "uuid \<Rightarrow> string \<Rightarrow> candidate" where
  "cafe i name = \<lparr>cID = i, cName = name, cCategory = ''Food & Drinks'', cSubcategory = Some ''Cafe'',
     cArchetype = ''low_stakes_fast_nearby'', cNeighborhood = None, cDistanceKM = Fin 1,
     cLemonScore = Some (Fin 5), cGoogleRating = Some (Fin 4), cGoogleReviewCount = 100, cPriceRange = Some ''$'',
     cPhotoCount = 3, cPhotoURL = None, cIsClaimed = True, cFriendCount = 2, cIsNew = False,
     cIsOpenNow = Some True, cOpensLater = False, cHours = None\<rparr>"

text \<open>An identifier printer for the witnesses, one stroke per unit.\<close>

definition unary_id :: "uuid \<Rightarrow> string" where
  "unary_id i = replicate (unat i) CHR ''x''"

lemma cafe_simps [simp]:
  "cID (cafe i name) = i" "cName (cafe i name) = name" "\<not> dropped cfg (cafe i name)"
  "\<not> cIsNew (cafe i name)"
  by (simp_all add: cafe_def dropped_def)

lemma sane_for_cafe: "sane_for ranking_yaml (cafe i name)"
  using unit_knobs_yaml
  by (simp add: sane_for_def cand_ranges_def cafe_def decay_finite_def)
    (simp add: ranking_yaml_def formulas_yaml_def)

section \<open>Scores under the shipped configuration\<close>

lemma weights_yaml_bound:
  assumes "list_all (\<lambda>(q, k). 0 \<le> q \<and> q \<le> 1 \<and> q \<le> real k / 1024 \<and> k < 1024)
    [(d, kd), (r, kr), (p, kp), (f, kf), (c, kc), (ph, kph), (os, kos)]"
    and "kd + kr + kp + kf + kc + kph + kos \<le> 1032"
  shows "f_le (weight_total \<lparr>arWeights = weights_yaml d r p f c ph os, arOpenStatus = b\<rparr> (rSignals ranking_yaml))
    (Fin (1032 / 1024))"
proof -
  have step: "f_le (f_add s (f_const q)) (Fin (real (m + k) / 1024)) \<and> nonneg_f (f_add s (f_const q))"
    if "f_le s (Fin (real m / 1024)) \<and> nonneg_f s" "0 \<le> q" "q \<le> real k / 1024" "k < 1024" "m \<le> 100000" for s m q k
  proof -
    have "f_le (f_const q) (fround (of_int (int k) / 2 ^ 10))"
      unfolding f_const_def using that(3) by (intro fround_mono) simp
    then have "f_le (f_const q) (Fin (real k / 1024))"
      using fround_dyadic[of "int k" 10] that(4) by simp
    then have "f_le (f_add s (f_const q)) (f_add (Fin (real m / 1024)) (Fin (real k / 1024)))"
      using that(1,2) by (intro f_add_mono) (auto simp: f_const_def nonneg_fround)
    also have "f_add (Fin (real m / 1024)) (Fin (real k / 1024)) = fround (of_int (int (m + k)) / 2 ^ 10)"
      by (simp add: add_divide_distrib)
    also have "\<dots> = Fin (real (m + k) / 1024)"
      using fround_dyadic[of "int (m + k)" 10] that(4,5) by simp
    finally show ?thesis using that(1,2) by (auto simp: f_const_def nonneg_fround intro: nonneg_f_add)
  qed
  have z: "f_le (Fin 0) (Fin (real 0 / 1024)) \<and> nonneg_f (Fin 0)" by simp
  have b: "0 \<le> d" "d \<le> real kd / 1024" "kd < 1024" "0 \<le> r" "r \<le> real kr / 1024" "kr < 1024"
    "0 \<le> p" "p \<le> real kp / 1024" "kp < 1024" "0 \<le> f" "f \<le> real kf / 1024" "kf < 1024"
    "0 \<le> c" "c \<le> real kc / 1024" "kc < 1024" "0 \<le> ph" "ph \<le> real kph / 1024" "kph < 1024"
    "0 \<le> os" "os \<le> real kos / 1024" "kos < 1024"
    using assms(1) by auto
  note s1 = step[OF z b(1,2,3)]
  note s2 = step[OF s1 b(4,5,6)]
  note s3 = step[OF s2 b(7,8,9)]
  note s4 = step[OF s3 b(10,11,12)]
  note s5 = step[OF s4 b(13,14,15)]
  note s6 = step[OF s5 b(16,17,18)]
  note s7 = step[OF s6 b(19,20,21)]
  have le: "f_le x (Fin (real n / 1024)) \<Longrightarrow> n \<le> 1032 \<Longrightarrow> f_le x (Fin (1032 / 1024))" for x n
    by (erule f_le_trans) simp
  show ?thesis
  proof (cases "b = ''ignore''")
    case True
    show ?thesis
      using le[OF conjunct1[OF s6]] assms(2) b True
      by (simp add: weight_total_def active_signals_def ranking_yaml_def weights_yaml_def lookup_f64_def)
  next
    case False
    show ?thesis
      using le[OF conjunct1[OF s7]] assms(2) b False
      by (simp add: weight_total_def active_signals_def ranking_yaml_def weights_yaml_def lookup_f64_def)
  qed
qed

lemma weight_total_yaml: "f_le (weight_total (archetype_of ranking_yaml a) (rSignals ranking_yaml)) (Fin (1032 / 1024))"
proof -
  have z: "f_le (weight_total zero_archetype (rSignals ranking_yaml)) (Fin (1032 / 1024))"
    by (simp add: weight_total_def active_signals_def ranking_yaml_def zero_archetype_def lookup_f64_def)
  note w = weights_yaml_bound
  show ?thesis
    using z
      w[of "25/100" 256 "18/100" 185 "19/100" 195 "12/100" 123 "1/100" 11 "10/100" 103 "15/100" 154 "''hard_filter''"]
      w[of "10/100" 103 "25/100" 256 "25/100" 256 "15/100" 154 "3/100" 31 "12/100" 123 "10/100" 103 "''soft''"]
      w[of "4/100" 41 "26/100" 267 "25/100" 256 "16/100" 164 "12/100" 123 "15/100" 154 "2/100" 21 "''ignore''"]
      w[of "8/100" 82 "22/100" 226 "17/100" 175 "16/100" 164 "7/100" 72 "25/100" 256 "5/100" 52 "''ignore''"]
      w[of "8/100" 82 "25/100" 256 "25/100" 256 "16/100" 164 "10/100" 103 "10/100" 103 "6/100" 62 "''soft''"]
      w[of "45/100" 461 "10/100" 103 "10/100" 103 "2/100" 21 "8/100" 82 "5/100" 52 "20/100" 205 "''hard_filter''"]
    unfolding archetype_of_def by (simp add: archetypes_yaml_def ranking_yaml_def)
qed

lemma yaml_score_aux:
  assumes "cand_ranges c"
  shows "\<exists>s. scoreCandidate c ranking_yaml = Fin s \<and> 0 \<le> s \<and> s \<le> 129 / 128"
proof -
  have "sane_for ranking_yaml c"
    using assms unit_knobs_yaml by (auto simp: sane_for_def decay_finite_def ranking_yaml_def formulas_yaml_def)
  then have "nonneg_f (scoreCandidate c ranking_yaml)"
    "f_le (scoreCandidate c ranking_yaml) (Fin (1032 / 1024))"
    using score_bound_aux proper_weights_yaml weight_total_yaml f_le_trans by (simp_all add: list_all_iff) blast+
  then show ?thesis by (cases "scoreCandidate c ranking_yaml") auto
qed

lemma cafe_ranges: "cand_ranges (cafe i name)"
  using sane_for_cafe by (simp add: sane_for_def)

definition any_opts :: search_opts where
  "any_opts = \<lparr>soLat = Fin 0, soLng = Fin 0, soLimit = 150, soNow = 0, soOverlay = zero_overlay, soQueryVec = None\<rparr>"

text \<open>The shipped document without its \<open>friends\<close> block.\<close>

definition no_friends_yaml :: ranking where
  "no_friends_yaml = ranking_yaml\<lparr>rSignalFormulas := formulas_yaml\<lparr>sfFriendsFullCredit := Fin 0\<rparr>\<rparr>"

lemma no_friends_NaN: "cFriendCount c = 0 \<Longrightarrow> scoreCandidate c no_friends_yaml = NaN"
  by (simp add: scoreCandidate_def no_friends_yaml_def ranking_yaml_def signalValue_def signalFriends_def
      f_signed_inf_def)

end
