(* ===== verification/Rank_Theorems.thy ===== *)
theory Rank_Theorems
  imports Ranking_Yaml
begin

text \<open>
  The properties of configuration loading and of the ranking pipeline, each with a witness
  where it has hypotheses. The witnesses use the shipped configuration.
\<close>

section \<open>Configuration\<close>

text \<open>C26. \<open>Load\<close> returns a configuration exactly when the document decodes to it and it has every
  required block, known formula modes and only known archetypes and open-status behaviours.\<close>

theorem Load_accepts_exactly:
  "Load decode r = Inr cfg \<longleftrightarrow> decode r = Inr cfg \<and> valid_ranking cfg"
  by (rule Load_ok)

text \<open>Whether a configuration is accepted does not depend on the order in which the range
  over the archetypes map visits its entries (only which error is reported does).\<close>

theorem validate_order_independent:
  assumes "mset es = mset (rArchetypes r)"
  shows "validate (r\<lparr>rArchetypes := es\<rparr>) = Inr () \<longleftrightarrow> validate r = Inr ()"
  unfolding validate_ok by (rule valid_ranking_perm) (simp_all add: assms)

theorem validate_order_independent_witness:
  "validate (ranking_yaml\<lparr>rArchetypes := rev archetypes_yaml\<rparr>) = Inr ()"
proof -
  have "mset (rev archetypes_yaml) = mset (rArchetypes ranking_yaml)" by (simp add: ranking_yaml_def)
  then show ?thesis using validate_order_independent valid_ranking_yaml validate_ok by blast
qed

section \<open>Signals and scores\<close>

text \<open>With knobs in range and the literal rating formula, every one of the seven signals of
  a candidate as retrieval delivers it lies in the unit interval, rounding included; in
  particular none is NaN.\<close>

theorem signal_unit:
  assumes "sane_for cfg c"
  shows "unit_f (signalValue name c cfg)"
  using assms by (rule signalValue_unit_aux)

theorem signal_unit_witness:
  "unit_f (signalValue ''popularity'' (cafe 1 ''Panther'') ranking_yaml) \<and>
   unit_f (signalValue ''distance'' (cafe 1 ''Panther'') ranking_yaml)"
  using signal_unit[OF sane_for_cafe] by blast

text \<open>C23. The score is the nonnegative weighted sum, and never exceeds the float64 sum of the
  archetype's active weights, added in the configured order. This is for a candidate as retrieval delivers it (a
  distance and a friend count that are not negative, counts of 64 bits, \<open>lemon_score\<close> from 0 to 10) and a configuration whose
  knobs are in range (factors in the unit interval, positive ceilings), whose rating is not Bayesian, whose decay
  constant, where it is used, is neither NaN nor +Inf, and whose active weights are finite and not negative; validation
  does not enforce this of a configuration.\<close>

theorem score_bounded:
  assumes "sane_for cfg c"
    and "list_all (\<lambda>n. proper_weight (lookup_f64 (arWeights (archetype_of cfg (cArchetype c))) n)) (rSignals cfg)"
  shows "nonneg_f (scoreCandidate c cfg) \<and>
    f_le (scoreCandidate c cfg) (weight_total (archetype_of cfg (cArchetype c)) (rSignals cfg))"
  using assms by (rule score_bound_aux)

theorem score_bounded_witness: "nonneg_f (scoreCandidate (cafe 1 ''Panther'') ranking_yaml)"
  using score_bounded[OF sane_for_cafe] proper_weights_yaml by (simp add: list_all_iff)

text \<open>With the shipped \<open>ranking.yaml\<close> every candidate as retrieval delivers it scores
  between 0 and 129/128: the weights of every archetype sum to 1 up to rounding.\<close>

theorem yaml_score_range:
  assumes "cand_ranges c"
  shows "\<exists>s. scoreCandidate c ranking_yaml = Fin s \<and> 0 \<le> s \<and> s \<le> 129 / 128"
  using assms by (rule yaml_score_aux)

theorem yaml_score_range_witness:
  "\<exists>s. scoreCandidate (cafe 1 ''Panther'') ranking_yaml = Fin s \<and> 0 \<le> s \<and> s \<le> 129 / 128"
  by (rule yaml_score_range[OF cafe_ranges])

section \<open>The pipeline\<close>

text \<open>On results whose scores are numbers the first sort yields nonincreasing scores and
  keeps results of equal score in retrieval order.\<close>

theorem sortByScore_sorted_stable:
  assumes "list_all (\<lambda>r. srScore r \<noteq> NaN) rs"
  shows "sorted_wrt (\<lambda>a b. f_le (srScore b) (srScore a)) (sortByScore rs) \<and>
    filter (\<lambda>r. srScore r = s) (sortByScore rs) = filter (\<lambda>r. srScore r = s) rs"
proof
  have A: "set rs \<subseteq> {r. srScore r \<noteq> NaN}" using assms by (auto simp: list_all_iff)
  have "ordered score_gt (sortByScore rs)"
    unfolding sortByScore_def by (rule score_order.ordered_slice_stable[OF A])
  then show "sorted_wrt (\<lambda>a b. f_le (srScore b) (srScore a)) (sortByScore rs)"
    unfolding ordered_def
  proof (rule sorted_wrt_mono_rel[rotated])
    fix x y assume "x \<in> set (sortByScore rs)" "y \<in> set (sortByScore rs)" "\<not> score_gt y x"
    with A show "f_le (srScore y) (srScore x)"
      using not_f_lt_iff[of "srScore x" "srScore y"] by (auto simp: sortByScore_def score_gt_def)
  qed
  show "filter (\<lambda>r. srScore r = s) (sortByScore rs) = filter (\<lambda>r. srScore r = s) rs"
  proof (cases "s = NaN")
    case True
    then have "filter (\<lambda>r. srScore r = s) xs = []" if "set xs \<subseteq> set rs" for xs
      using A that by (auto simp: filter_empty_conv)
    then show ?thesis by (simp add: sortByScore_def)
  next
    case False
    let ?c = "\<lparr>srCandidate = cafe 0 [], srScore = s\<rparr>"
    have "filter (\<lambda>r. srScore r = s) xs = filter (\<lambda>y. \<not> score_gt y ?c \<and> \<not> score_gt ?c y) xs"
      if "set xs \<subseteq> set rs" for xs
      using that A False f_lt_linear[of _ s] by (intro filter_cong) (auto simp: score_gt_def)
    then show ?thesis
      using score_order.filter_slice_stable[of ?c rs] A False by (simp add: sortByScore_def)
  qed
qed

theorem sortByScore_sorted_stable_witness:
  "filter (\<lambda>r. srScore r = Fin 1) (sortByScore
     [\<lparr>srCandidate = cafe 1 [], srScore = Fin 1\<rparr>, \<lparr>srCandidate = cafe 2 [], srScore = PInf\<rparr>]) =
   [\<lparr>srCandidate = cafe 1 [], srScore = Fin 1\<rparr>]"
  using sortByScore_sorted_stable[of "[\<lparr>srCandidate = cafe 1 [], srScore = Fin 1\<rparr>, \<lparr>srCandidate = cafe 2 [], srScore = PInf\<rparr>]" "Fin 1"]
  by simp

text \<open>C2. With a live context \<open>Run\<close> always succeeds; what it returns is drawn, without
  repetition or invention, from the candidates that pass the hard filter plus the pin, which
  takes the place of every candidate with its identifier; its length is the smaller of the
  limit and the pool; every score is the candidate's weighted sum, or +Inf for the pin.\<close>

theorem Run_composition:
  "\<exists>rs. Run ustr None cs pin cfg opts = Inr rs \<and>
     mset (map srCandidate rs) \<subseteq># mset (ranked_pool cs pin cfg) \<and>
     length rs = (if 0 \<le> soLimit opts then min (nat (soLimit opts)) (length (ranked_pool cs pin cfg))
                  else length (ranked_pool cs pin cfg)) \<and>
     list_all (\<lambda>r. srScore r = scoreCandidate (srCandidate r) cfg \<and> \<not> dropped cfg (srCandidate r) \<or>
       pin = Some (srCandidate r) \<and> srScore r = PInf) rs"
proof -
  define full where "full = dePin (tieBreak ustr (pin_stage cs pin cfg)) (nbSwapWindow (rNewBusiness cfg))"
  define rs where "rs = truncate_results full (soLimit opts)"
  have m: "mset full = mset (pin_stage cs pin cfg)" by (simp add: full_def)
  obtain n where n: "rs = take n full" using truncate_results_take rs_def by blast
  have pool: "mset (map srCandidate full) = mset (ranked_pool cs pin cfg)"
    using mset_pin_stage m by (metis mset_map)
  have "mset (map srCandidate rs) \<subseteq># mset (map srCandidate full)"
    unfolding n by (metis append_take_drop_id map_append mset_append mset_subset_eq_add_left)
  moreover have "length full = length (ranked_pool cs pin cfg)"
    using pool by (metis size_mset length_map)
  then have "length rs = (if 0 \<le> soLimit opts then min (nat (soLimit opts)) (length (ranked_pool cs pin cfg))
      else length (ranked_pool cs pin cfg))"
    unfolding rs_def length_truncate by (rule arg_cong)
  moreover have "set rs \<subseteq> set (pin_stage cs pin cfg)"
    using mset_eq_setD[OF m] set_take_subset[of n full] unfolding n by blast
  then have "list_all (\<lambda>r. srScore r = scoreCandidate (srCandidate r) cfg \<and> \<not> dropped cfg (srCandidate r) \<or>
       pin = Some (srCandidate r) \<and> srScore r = PInf) rs"
    using pin_stage_scores by (fastforce simp: list_all_iff hardFilter_filter)
  moreover have "Run ustr None cs pin cfg opts = Inr rs"
    by (simp add: Run_eq rs_def full_def)
  ultimately show ?thesis using pool by (intro exI[of _ rs]) simp
qed

text \<open>C8. Provided no kept candidate scores NaN or +Inf, the pin is the first result with score
  +Inf for every positive or unlimited limit, and no other result carries its identifier.\<close>

theorem Run_pin_first:
  assumes "list_all (\<lambda>c. scoreCandidate c cfg \<noteq> NaN \<and> scoreCandidate c cfg \<noteq> PInf) (hardFilter cs cfg)"
    and "soLimit opts \<noteq> 0"
  shows "\<exists>rest. Run ustr None cs (Some p) cfg opts = Inr (\<lparr>srCandidate = p, srScore = PInf\<rparr> # rest) \<and>
    list_all (\<lambda>r. cID (srCandidate r) \<noteq> cID p) rest"
proof -
  let ?pin = "\<lparr>srCandidate = p, srScore = PInf\<rparr>"
  define tail where "tail = filter (\<lambda>r. cID (srCandidate r) \<noteq> cID p) (sortByScore (scoreAll (hardFilter cs cfg) cfg))"
  have st: "pin_stage cs (Some p) cfg = ?pin # tail" by (simp add: pin_stage_def applyPin_eq tail_def)
  have "list_all (\<lambda>r. srScore r \<noteq> NaN \<and> srScore r \<noteq> PInf) tail"
    using assms(1) by (auto simp: list_all_iff tail_def sortByScore_def scoreAll_def)
  then obtain ys where ys: "tieBreak ustr (?pin # tail) = ?pin # ys"
    using tieBreak_pin_head by blast
  obtain zs where zs: "dePin (?pin # ys) (nbSwapWindow (rNewBusiness cfg)) = ?pin # zs"
    using dePin_head[of ?pin] by (auto simp: movable_def is_pinf_def)
  have "mset (?pin # zs) = mset (?pin # ys)" "mset (?pin # ys) = mset (?pin # tail)"
    by (metis zs mset_dePin) (metis ys mset_tieBreak)
  then have "mset zs = mset tail" by simp
  then have "set zs = set tail" by (rule mset_eq_setD)
  then have uniq: "\<forall>r \<in> set zs. cID (srCandidate r) \<noteq> cID p" by (simp add: tail_def)
  obtain n where n: "truncate_results (?pin # zs) (soLimit opts) = take n (?pin # zs)" "n \<noteq> 0"
    using assms(2) that[of "Suc (length zs)"] that[of "nat (soLimit opts)"]
    by (cases "0 \<le> soLimit opts \<and> soLimit opts < int (length (?pin # zs))") (auto simp: truncate_results_def)
  then obtain k where "n = Suc k" by (cases n) auto
  then have "Run ustr None cs (Some p) cfg opts = Inr (?pin # take k zs)"
    using n(1) by (simp add: Run_eq st ys zs)
  moreover have "list_all (\<lambda>r. cID (srCandidate r) \<noteq> cID p) (take k zs)"
    using uniq by (auto simp: list_all_iff dest: in_set_takeD)
  ultimately show ?thesis by blast
qed

theorem Run_pin_first_witness:
  "\<exists>rest. Run unary_id None [cafe 2 ''Bakery''] (Some (cafe 1 ''Panther'')) ranking_yaml any_opts =
     Inr (\<lparr>srCandidate = cafe 1 ''Panther'', srScore = PInf\<rparr> # rest)"
proof -
  have s: "scoreCandidate (cafe 2 ''Bakery'') ranking_yaml \<noteq> NaN \<and> scoreCandidate (cafe 2 ''Bakery'') ranking_yaml \<noteq> PInf"
    using yaml_score_aux[OF cafe_ranges, of 2 "''Bakery''"] by auto
  then have "list_all (\<lambda>c. scoreCandidate c ranking_yaml \<noteq> NaN \<and> scoreCandidate c ranking_yaml \<noteq> PInf)
      (hardFilter [cafe 2 ''Bakery''] ranking_yaml)" by simp
  moreover have "soLimit any_opts \<noteq> 0" by (simp add: any_opts_def)
  ultimately show ?thesis using Run_pin_first by blast
qed

text \<open>C24. Without that proviso the pin is not first: a document that omits the
  \<open>friends\<close> block is accepted, scores a candidate with no friends NaN (zero over zero), and
  NaN is "within the tie", so a claimed candidate goes before an unclaimed pin.\<close>

theorem pin_overtaken_by_NaN:
  "valid_ranking no_friends_yaml \<and>
   Run unary_id None [cafe 2 ''Bakery''\<lparr>cFriendCount := 0\<rparr>] (Some (cafe 1 ''Panther''\<lparr>cIsClaimed := False\<rparr>))
       no_friends_yaml any_opts =
     Inr [\<lparr>srCandidate = cafe 2 ''Bakery''\<lparr>cFriendCount := 0\<rparr>, srScore = NaN\<rparr>,
          \<lparr>srCandidate = cafe 1 ''Panther''\<lparr>cIsClaimed := False\<rparr>, srScore = PInf\<rparr>]"
proof
  show "valid_ranking no_friends_yaml"
    using valid_ranking_yaml by (simp add: valid_ranking_def no_friends_yaml_def ranking_yaml_def)
  let ?c = "cafe 2 ''Bakery''\<lparr>cFriendCount := 0\<rparr>" and ?p = "cafe 1 ''Panther''\<lparr>cIsClaimed := False\<rparr>"
  have st: "pin_stage [?c] (Some ?p) no_friends_yaml = [\<lparr>srCandidate = ?p, srScore = PInf\<rparr>, \<lparr>srCandidate = ?c, srScore = NaN\<rparr>]"
    by (simp add: pin_stage_def applyPin_eq hardFilter_filter scoreAll_def no_friends_NaN sortByScore_def
        slice_stable_short insertion_sort_def)
      (simp add: cafe_def dropped_def)
  have tb: "tieBreak unary_id [\<lparr>srCandidate = ?p, srScore = PInf\<rparr>, \<lparr>srCandidate = ?c, srScore = NaN\<rparr>] =
      [\<lparr>srCandidate = ?c, srScore = NaN\<rparr>, \<lparr>srCandidate = ?p, srScore = PInf\<rparr>]"
    by (simp add: tieBreak_def slice_stable_short insertion_sort_def tie_less_tied lessWithinTie_def cafe_def)
  show "Run unary_id None [?c] (Some ?p) no_friends_yaml any_opts =
     Inr [\<lparr>srCandidate = ?c, srScore = NaN\<rparr>, \<lparr>srCandidate = ?p, srScore = PInf\<rparr>]"
    unfolding Run_eq st tb
    by (simp add: dePin_def dePin_loop.simps movable_def is_pinf_def cafe_def dePinTopN_def truncate_results_def any_opts_def)
qed

text \<open>C10. After the de-pin pass neither of the first two positions holds a new business (other
  than the pin) while a later non-new result scores within the swap window of it; the pass
  only permutes.\<close>

theorem dePin_guards_top:
  "mset (dePin rs w) = mset rs \<and>
   list_all (\<lambda>k. guarded w k (dePin rs w)) [0..<min dePinTopN (length rs)]"
  using dePin_loop_guarded[of 0 _ rs w] by (auto simp: list_all_iff dePin_def[symmetric])

section \<open>Determinism\<close>

lemma replicate_two: "replicate 2 x = [x, x]"
  by (simp add: numeral_2_eq_2)

lemma tie_less_total:
  assumes "clear_ties rs" "distinct (map (\<lambda>r. ustr (cID (srCandidate r))) rs)" "x \<in> set rs" "y \<in> set rs" "x \<noteq> y"
  shows "tie_less ustr x y \<or> tie_less ustr y x"
proof (cases "tied (srScore x) (srScore y)")
  case True
  have "ustr (cID (srCandidate x)) \<noteq> ustr (cID (srCandidate y))"
    using assms(2-5) by (auto simp: distinct_map inj_on_def)
  moreover have "cDistanceKM (srCandidate x) \<noteq> NaN" "cDistanceKM (srCandidate y) \<noteq> NaN"
    using clear_tiesD(2)[OF assms(1)] assms(3,4) by blast+
  moreover have "f_lt (cDistanceKM (srCandidate x)) (cDistanceKM (srCandidate y)) \<or>
      cDistanceKM (srCandidate x) = cDistanceKM (srCandidate y) \<or>
      f_lt (cDistanceKM (srCandidate y)) (cDistanceKM (srCandidate x))"
    using clear_tiesD(2)[OF assms(1)] assms(3,4) f_lt_linear by blast
  ultimately have "lessWithinTie ustr (srCandidate x) (srCandidate y) \<or> lessWithinTie ustr (srCandidate y) (srCandidate x)"
    by (auto simp: lessWithinTie_def f_eq_iff neq_iff)
  with True tied_sym show ?thesis by (auto simp: tie_less_tied)
next
  case False
  then have "srScore x \<noteq> srScore y" using clear_tiesD(1)[OF assms(1,3)] tied_refl by metis
  then have "f_lt (srScore x) (srScore y) \<or> f_lt (srScore y) (srScore x)"
    using f_lt_linear clear_tiesD(1)[OF assms(1)] assms(3,4) by blast
  with False tied_sym show ?thesis by (auto simp: tie_less_tied)
qed

text \<open>C11. Where "within 0.005" is transitive on the scored pool, no score or distance is NaN and
  identifiers print differently, the answer of \<open>Run\<close> does not depend on the order in which
  retrieval returned the candidates.\<close>

theorem Run_order_independent:
  assumes "mset cs = mset cs'" "clear_ties (pin_stage cs pin cfg)"
    and "distinct (map (\<lambda>c. ustr (cID c)) (ranked_pool cs pin cfg))"
  shows "Run ustr None cs pin cfg opts = Run ustr None cs' pin cfg opts"
proof -
  let ?rs = "pin_stage cs pin cfg"
  have "mset (scoreAll (hardFilter cs cfg) cfg) = mset (scoreAll (hardFilter cs' cfg) cfg)"
    using assms(1) by (simp add: scoreAll_def hardFilter_filter)
  then have m: "mset ?rs = mset (pin_stage cs' pin cfg)"
    by (simp add: pin_stage_def applyPin_eq split: option.split)
  have "mset (map (\<lambda>c. ustr (cID c)) (map srCandidate ?rs)) = mset (map (\<lambda>c. ustr (cID c)) (ranked_pool cs pin cfg))"
    using mset_pin_stage[of cs pin cfg] by (metis mset_map)
  then have d: "distinct (map (\<lambda>r. ustr (cID (srCandidate r))) ?rs)"
    using assms(3) by (simp add: comp_def) (metis mset_eq_imp_distinct_iff mset_map)
  have "tieBreak ustr ?rs = tieBreak ustr (pin_stage cs' pin cfg)"
    unfolding tieBreak_def
    by (rule strict_weak_order.slice_stable_perm[OF tie_less_swo[OF assms(2)] order_refl m])
      (rule tie_less_total[OF assms(2) d])
  then show ?thesis by (simp add: Run_eq)
qed

theorem Run_order_independent_witness:
  "Run unary_id None [cafe 1 ''A'', cafe 2 ''B''] None ranking_yaml any_opts =
   Run unary_id None [cafe 2 ''B'', cafe 1 ''A''] None ranking_yaml any_opts"
proof (rule Run_order_independent)
  have same: "scoreCandidate (cafe 2 ''B'') ranking_yaml = scoreCandidate (cafe 1 ''A'') ranking_yaml"
    by (simp add: cafe_def scoreCandidate_def ranking_yaml_def signalValue_def signalDistance_def literal_distance_def
        signalRating_def literalRating_def signalPopularity_def signalFriends_def signalClaimed_def signalPhotos_def
        signalOpenStatus_def formulas_yaml_def)
  have kept: "hardFilter [cafe 1 ''A'', cafe 2 ''B''] ranking_yaml = [cafe 1 ''A'', cafe 2 ''B'']"
    by simp
  obtain s where s: "scoreCandidate (cafe 1 ''A'') ranking_yaml = Fin s"
    using yaml_score_aux[OF cafe_ranges] by blast
  have "set (pin_stage [cafe 1 ''A'', cafe 2 ''B''] None ranking_yaml) =
      {\<lparr>srCandidate = cafe 1 ''A'', srScore = Fin s\<rparr>, \<lparr>srCandidate = cafe 2 ''B'', srScore = Fin s\<rparr>}"
    by (simp add: pin_stage_def applyPin_def kept sortByScore_def scoreAll_def same s)
  then show "clear_ties (pin_stage [cafe 1 ''A'', cafe 2 ''B''] None ranking_yaml)"
    by (simp add: clear_ties_def list_all_iff) (simp add: cafe_def)
  show "distinct (map (\<lambda>c. unary_id (cID c)) (ranked_pool [cafe 1 ''A'', cafe 2 ''B''] None ranking_yaml))"
    by (simp add: ranked_pool_def replicate_two unary_id_def)
qed simp

definition circle :: "nat \<Rightarrow> scored" where
  "circle k = \<lparr>srCandidate = cafe (of_nat k) ''A'', srScore = Fin (real (3 * k) / 1024)\<rparr>"

lemma circle_ties: "tie_less unary_id (circle j) (circle k) \<longleftrightarrow>
    (j, k) \<in> {(0, 1), (1, 2), (2, 0)}" if "j \<in> {0, 1, 2}" "k \<in> {0, 1, 2}"
proof -
  have t: "tied (Fin 0) (Fin (3/1024))" "tied (Fin (3/1024)) (Fin (6/1024))" "\<not> tied (Fin 0) (Fin (6/1024))"
    using tie_eps_bounds fround_dyadic[of 3 10] fround_dyadic[of 6 10]
    by (simp_all add: tied_Fin tieEpsilon_eq)
  have s: "tied (Fin (3/1024)) (Fin 0)" "tied (Fin (6/1024)) (Fin (3/1024))" "\<not> tied (Fin (6/1024)) (Fin 0)"
    using t by (metis tied_sym)+
  have w: "lessWithinTie unary_id (cafe (of_nat j) ''A'') (cafe (of_nat k) ''A'') \<longleftrightarrow> j < k"
    using that by (auto simp: lessWithinTie_def cafe_def replicate_two unary_id_def)
  have r: "tied (Fin x) (Fin x)" for x by (rule tied_refl) simp
  show ?thesis
    using that t s w r[of 0] r[of "3/1024"] r[of "6/1024"] unfolding tie_less_tied circle_def
    by (elim insertE emptyE) simp_all
qed

text \<open>The comparator of the tie-break is no ordering: three results can beat each other in a circle, and then
  what the stable sort returns depends on the order it is given. (Results with these scores always reach it in one order,
  that of the scores; what is shown is that the result need not be sorted by the comparator.)\<close>

lemma tieBreak_circle:
  "tieBreak unary_id [circle 0, circle 1, circle 2] = [circle 0, circle 1, circle 2] \<and> tie_less unary_id (circle 2) (circle 0)"
  "tieBreak unary_id [circle 2, circle 0, circle 1] = [circle 2, circle 0, circle 1] \<and> tie_less unary_id (circle 1) (circle 2)"
  by (simp_all add: tieBreak_def slice_stable_short insertion_sort_def circle_ties)

text \<open>The Bayesian rating divides by 5 whatever its source: over \<open>lemon_score\<close>, which validation accepts and which goes
  up to 10, the signal goes up to 2.\<close>

definition bayesian_yaml :: ranking where
  "bayesian_yaml = ranking_yaml\<lparr>rSignalFormulas := (rSignalFormulas ranking_yaml)\<lparr>sfRating := ''bayesian'',
     sfBayesianRating := \<lparr>bPriorStrength = Fin 0, bGlobalMean = Fin 0, bSource = ''lemon_score''\<rparr>\<rparr>\<rparr>"

lemma bayesian_lemon_exceeds:
  "valid_ranking bayesian_yaml" "cand_ranges ((cafe 1 ''Panther'')\<lparr>cLemonScore := Some (Fin 10), cGoogleReviewCount := 1, cIsNew := False\<rparr>)"
  "signalRating ((cafe 1 ''Panther'')\<lparr>cLemonScore := Some (Fin 10), cGoogleReviewCount := 1, cIsNew := False\<rparr>) bayesian_yaml = Fin 2"
proof -
  show "valid_ranking bayesian_yaml"
    using valid_ranking_yaml by (simp add: valid_ranking_def bayesian_yaml_def ranking_yaml_def)
  show "cand_ranges ((cafe 1 ''Panther'')\<lparr>cLemonScore := Some (Fin 10), cGoogleReviewCount := 1, cIsNew := False\<rparr>)"
    using cafe_ranges[of 1 "''Panther''"] by (simp add: cand_ranges_def)
  show "signalRating ((cafe 1 ''Panther'')\<lparr>cLemonScore := Some (Fin 10), cGoogleReviewCount := 1, cIsNew := False\<rparr>) bayesian_yaml = Fin 2"
    by (simp add: signalRating_def bayesianRating_def bayesian_yaml_def bayesianScale_eq f_of_int_small fround_numeral Let_def)
qed

end
