(* ===== verification/Intent.thy ===== *)
theory Intent
  imports Domain
begin

text \<open>
  Package \<open>intent\<close>: the lexicon (\<open>lexicon.go\<close>), query normalisation (\<open>normalize.go\<close>), the
  overlay extractor (\<open>extract.go\<close>) and the categorical test (\<open>categorical.go\<close>). The overlay
  under construction is the state; \<open>mergeTerm\<close> maps it to the next. The lexicon map is the
  association list of its entries in source order (its keys are distinct). An empty string
  stands for no category, as in the code.
\<close>

section \<open>The lexicon\<close>

record rule =
  rlCategory :: string
  rlSubcategory :: "string list"
  rlUniversal :: "string list"
  rlSpecific :: "string list"
  rlPrice :: "string list"
  rlOpenNow :: bool

abbreviation rule_of :: "string \<Rightarrow> string list \<Rightarrow> string list \<Rightarrow> string list \<Rightarrow> string list \<Rightarrow> bool \<Rightarrow> rule" where
  "rule_of c sub uni spec price op \<equiv> \<lparr>rlCategory = c, rlSubcategory = sub, rlUniversal = uni,
     rlSpecific = spec, rlPrice = price, rlOpenNow = op\<rparr>"

definition catFood :: string where "catFood = ''Food & Drinks''"
definition catEvents :: string where "catEvents = ''Events''"
definition tagUpscale :: string where "tagUpscale = ''upscale''"
definition tagFamily :: string where "tagFamily = ''family-friendly''"
definition subNail :: string where "subNail = ''Nail Salon''"

definition lexicon :: "(string \<times> rule) list" where
  "lexicon =
  [(''cheap'', rule_of [] [] [] [] [''$'', ''$$''] False),
   (''affordable'', rule_of [] [] [] [] [''$'', ''$$''] False),
   (''budget'', rule_of [] [] [] [] [''$'', ''$$''] False),
   (''fancy'', rule_of [] [] [tagUpscale] [] [''$$$'', ''$$$$''] False),
   (''upscale'', rule_of [] [] [tagUpscale] [] [''$$$'', ''$$$$''] False),
   (''nice'', rule_of [] [] [tagUpscale] [] [] False),
   (''open now'', rule_of [] [] [] [] [] True),
   (''tonight'', rule_of [] [] [] [] [] True),
   (''late night'', rule_of [] [] [''late-night''] [''late-night-food''] [] False),
   (''happy hour'', rule_of [] [] [] [''happy-hour''] [] False),
   (''brunch'', rule_of [] [] [] [''brunch''] [] False),
   (''breakfast'', rule_of [] [] [] [''breakfast''] [] False),
   (''lunch'', rule_of [] [] [] [''lunch''] [] False),
   (''dinner'', rule_of [] [] [] [''dinner''] [] False),
   (''date night'', rule_of [] [] [''date-night''] [] [] False),
   (''kid friendly'', rule_of [] [] [''kid-friendly'', tagFamily] [] [] False),
   (''family'', rule_of [] [] [tagFamily] [] [] False),
   (''solo'', rule_of [] [] [''solo-friendly''] [] [] False),
   (''group'', rule_of [] [] [''group-friendly''] [] [] False),
   (''tourist'', rule_of [] [] [''tourist-friendly''] [] [] False),
   (''outdoor'', rule_of [] [] [''outdoor-seating''] [] [] False),
   (''rooftop'', rule_of [] [] [] [''rooftop''] [] False),
   (''cozy'', rule_of [] [] [''cozy''] [] [] False),
   (''quiet'', rule_of [] [] [''quiet''] [] [] False),
   (''lively'', rule_of [] [] [''lively''] [] [] False),
   (''instagrammable'', rule_of [] [] [''instagrammable''] [] [] False),
   (''wedding'', rule_of catEvents [''Weddings'', ''Photography & Video'', ''DJ / Music'', ''Florist'', ''Catering''] [] [] [] False),
   (''photographer'', rule_of catEvents [''Photography & Video''] [] [] [] False),
   (''emergency'', rule_of [] [] [] [] [] True),
   (''tow'', rule_of [] [''Towing & Roadside''] [] [] [] False),
   (''personal trainer'', rule_of [] [''Personal Training''] [] [] [] False),
   (''dog walker'', rule_of [] [''Walking''] [] [] [] False),
   (''cleaner'', rule_of [] [''Cleaning''] [] [] [] False),
   (''spa'', rule_of [] [''Spa''] [] [] [] False),
   (''salon'', rule_of [] [''Hair Salon'', subNail, ''Beauty Salon''] [] [] [] False),
   (''nails'', rule_of [] [subNail] [] [] [] False),
   (''barber'', rule_of [] [''Barbershop''] [] [] [] False),
   (''gym'', rule_of [] [''Gym''] [] [] [] False),
   (''yoga'', rule_of [] [''Yoga''] [] [] [] False),
   (''massage'', rule_of [] [''Massage''] [] [] [] False),
   (''tattoo'', rule_of [] [''Tattoo''] [] [] [] False),
   (''bakery'', rule_of catFood [''Bakery''] [] [] [] False),
   (''restaurant'', rule_of catFood [] [] [] [] False),
   (''restaurants'', rule_of catFood [] [] [] [] False),
   (''sushi'', rule_of catFood [] [] [''sushi''] [] False),
   (''taco'', rule_of catFood [] [] [''tacos''] [] False),
   (''tacos'', rule_of catFood [] [] [''tacos''] [] False),
   (''coffee'', rule_of catFood [] [] [''coffee''] [] False),
   (''pizza'', rule_of catFood [] [] [''pizza''] [] False),
   (''burger'', rule_of catFood [] [] [''burgers''] [] False),
   (''burgers'', rule_of catFood [] [] [''burgers''] [] False),
   (''seafood'', rule_of catFood [] [] [''seafood''] [] False),
   (''vegan'', rule_of catFood [] [] [''vegetarian'', ''vegan''] [] False),
   (''cocktails'', rule_of catFood [] [] [''cocktails''] [] False),
   (''wine'', rule_of catFood [] [] [''wine''] [] False),
   (''beer'', rule_of catFood [] [] [''beer''] [] False),
   (''hungry'', rule_of catFood [] [] [] [] True),
   (''i'm hungry'', rule_of catFood [] [] [] [] True)]"

section \<open>Normalisation\<close>

definition unaccent :: "unicode \<Rightarrow> string \<Rightarrow> string" where
  "unaccent U s = encode (filter (\<lambda>r. \<not> u_mn U r) (runes (u_nfd U s)))"

definition token_char :: "char \<Rightarrow> bool" where
  "token_char c \<longleftrightarrow> 97 \<le> byte_of c \<and> byte_of c \<le> 122 \<or> 48 \<le> byte_of c \<and> byte_of c \<le> 57 \<or> byte_of c = 39"

definition normalize_query :: "unicode \<Rightarrow> string \<Rightarrow> string list" where
  "normalize_query U q = find_runs token_char (unaccent U (to_lower U q)) []"

section \<open>Extraction\<close>

fun appendUnique :: "string list \<Rightarrow> string list \<Rightarrow> string list" where
  "appendUnique dst [] = dst"
| "appendUnique dst (v # vals) = appendUnique (if v \<in> set dst then dst else dst @ [v]) vals"

definition mergeTerm :: "overlay \<Rightarrow> string \<Rightarrow> overlay" where
  "mergeTerm ov term =
     (case map_of lexicon term of
        None \<Rightarrow> ov
      | Some r \<Rightarrow>
          (let ov = (if rlCategory r \<noteq> [] then ov\<lparr>ovCategoryFilter := Some (rlCategory r)\<rparr> else ov);
               ov = ov\<lparr>ovSubcategoryFilter := appendUnique (ovSubcategoryFilter ov) (rlSubcategory r)\<rparr>;
               ov = ov\<lparr>ovUniversalTagFilter := appendUnique (ovUniversalTagFilter ov) (rlUniversal r)\<rparr>;
               ov = ov\<lparr>ovSpecificTagFilter := appendUnique (ovSpecificTagFilter ov) (rlSpecific r)\<rparr>;
               ov = ov\<lparr>ovPriceFilter := appendUnique (ovPriceFilter ov) (rlPrice r)\<rparr>
           in if rlOpenNow r then ov\<lparr>ovRequireOpenNow := True\<rparr> else ov))"

fun extract_loop :: "overlay \<Rightarrow> string list \<Rightarrow> overlay" where
  "extract_loop ov [] = ov"
| "extract_loop ov [t] = mergeTerm ov t"
| "extract_loop ov (t # u # ts) = extract_loop (mergeTerm (mergeTerm ov t) (t @ '' '' @ u)) (u # ts)"

definition Extract :: "unicode \<Rightarrow> string \<Rightarrow> overlay" where
  "Extract U q = extract_loop zero_overlay (normalize_query U q)"

section \<open>Categorical queries\<close>

definition categoryLike :: "string \<Rightarrow> bool" where
  "categoryLike term =
     (case map_of lexicon term of
        None \<Rightarrow> False
      | Some r \<Rightarrow> rlCategory r \<noteq> [] \<or> 0 < length (rlSubcategory r) \<or>
          0 < length (rlSpecific r) \<or> 0 < length (rlUniversal r))"

text \<open>The loop's index \<open>i\<close> is the pair of the previous token, if any, and the rest.\<close>

fun categorical_loop :: "string option \<Rightarrow> string list \<Rightarrow> bool" where
  "categorical_loop prev [] = True"
| "categorical_loop prev (t # ts) =
     (if categoryLike t then categorical_loop (Some t) ts
      else if (case prev of Some p \<Rightarrow> categoryLike (p @ '' '' @ t) | None \<Rightarrow> False)
        then categorical_loop (Some t) ts
      else if (case ts of u # _ \<Rightarrow> categoryLike (t @ '' '' @ u) | [] \<Rightarrow> False)
        then categorical_loop (Some t) ts
      else False)"

definition IsCategorical :: "unicode \<Rightarrow> string \<Rightarrow> bool" where
  "IsCategorical U q =
     (let tokens = normalize_query U q in if length tokens = 0 then False else categorical_loop None tokens)"

section \<open>The terms of a query\<close>

text \<open>The unigrams and consecutive bigrams, in the order the extractor looks them up.\<close>

fun terms :: "string list \<Rightarrow> string list" where
  "terms [] = []"
| "terms [t] = [t]"
| "terms (t # u # ts) = t # (t @ '' '' @ u) # terms (u # ts)"

definition hits :: "string list \<Rightarrow> rule list" where
  "hits ts = List.map_filter (map_of lexicon) ts"

lemma hits_simps [simp]:
  "hits [] = []"
  "hits (t # ts) = (case map_of lexicon t of None \<Rightarrow> hits ts | Some r \<Rightarrow> r # hits ts)"
  by (simp_all add: hits_def List.map_filter_simps split: option.split)

lemma extract_loop_fold: "extract_loop ov ts = fold (\<lambda>t ov. mergeTerm ov t) (terms ts) ov"
  by (induction ov ts rule: extract_loop.induct) auto

lemma appendUnique_set [simp]: "set (appendUnique dst vs) = set dst \<union> set vs"
  by (induction dst vs rule: appendUnique.induct) auto

lemma appendUnique_distinct: "distinct dst \<Longrightarrow> distinct (appendUnique dst vs)"
  by (induction dst vs rule: appendUnique.induct) auto

lemma mergeTerm_fields:
  "ovSubcategoryFilter (mergeTerm ov t) = appendUnique (ovSubcategoryFilter ov) (concat (map rlSubcategory (hits [t])))"
  "ovUniversalTagFilter (mergeTerm ov t) = appendUnique (ovUniversalTagFilter ov) (concat (map rlUniversal (hits [t])))"
  "ovSpecificTagFilter (mergeTerm ov t) = appendUnique (ovSpecificTagFilter ov) (concat (map rlSpecific (hits [t])))"
  "ovPriceFilter (mergeTerm ov t) = appendUnique (ovPriceFilter ov) (concat (map rlPrice (hits [t])))"
  "ovRequireOpenNow (mergeTerm ov t) \<longleftrightarrow> ovRequireOpenNow ov \<or> list_ex rlOpenNow (hits [t])"
  "ovCategoryFilter (mergeTerm ov t) =
     (case filter (\<lambda>c. c \<noteq> []) (map rlCategory (hits [t])) of [] \<Rightarrow> ovCategoryFilter ov | c # _ \<Rightarrow> Some c)"
  by (auto simp: mergeTerm_def Let_def split: option.split)

lemma appendUnique_append: "appendUnique dst (xs @ ys) = appendUnique (appendUnique dst xs) ys"
  by (induction dst xs rule: appendUnique.induct) auto

lemma hits_Cons: "hits (t # ts) = hits [t] @ hits ts"
  by (simp split: option.split)

lemma fold_merge_fields:
  "ovSubcategoryFilter (fold (\<lambda>t ov. mergeTerm ov t) ts ov) = appendUnique (ovSubcategoryFilter ov) (concat (map rlSubcategory (hits ts)))"
  "ovUniversalTagFilter (fold (\<lambda>t ov. mergeTerm ov t) ts ov) = appendUnique (ovUniversalTagFilter ov) (concat (map rlUniversal (hits ts)))"
  "ovSpecificTagFilter (fold (\<lambda>t ov. mergeTerm ov t) ts ov) = appendUnique (ovSpecificTagFilter ov) (concat (map rlSpecific (hits ts)))"
  "ovPriceFilter (fold (\<lambda>t ov. mergeTerm ov t) ts ov) = appendUnique (ovPriceFilter ov) (concat (map rlPrice (hits ts)))"
  "ovRequireOpenNow (fold (\<lambda>t ov. mergeTerm ov t) ts ov) \<longleftrightarrow> ovRequireOpenNow ov \<or> list_ex rlOpenNow (hits ts)"
  "ovCategoryFilter (fold (\<lambda>t ov. mergeTerm ov t) ts ov) =
     (case rev (filter (\<lambda>c. c \<noteq> []) (map rlCategory (hits ts))) of [] \<Rightarrow> ovCategoryFilter ov | c # _ \<Rightarrow> Some c)"
proof (induction ts arbitrary: ov)
  case (Cons t ts)
  {
    case 1 show ?case using Cons.IH(1) by (subst hits_Cons) (simp add: mergeTerm_fields appendUnique_append del: hits_simps)
  next
    case 2 show ?case using Cons.IH(2) by (subst hits_Cons) (simp add: mergeTerm_fields appendUnique_append del: hits_simps)
  next
    case 3 show ?case using Cons.IH(3) by (subst hits_Cons) (simp add: mergeTerm_fields appendUnique_append del: hits_simps)
  next
    case 4 show ?case using Cons.IH(4) by (subst hits_Cons) (simp add: mergeTerm_fields appendUnique_append del: hits_simps)
  next
    case 5 show ?case using Cons.IH(5) by (subst hits_Cons) (simp add: mergeTerm_fields del: hits_simps)
  next
    case 6 show ?case using Cons.IH(6) by (subst hits_Cons)
      (auto simp: mergeTerm_fields split: list.split option.split)
  }
qed simp_all

section \<open>Properties\<close>

lemma query_tokens: "list_all (\<lambda>t. t \<noteq> [] \<and> list_all token_char t) (normalize_query U q)"
  unfolding normalize_query_def by (rule find_runs_members) simp

text \<open>Every token of a normalised query is a nonempty run of ASCII lower-case letters, digits
  and apostrophes, whatever bytes the query holds.\<close>

theorem normalize_tokens: "list_all (\<lambda>t. t \<noteq> [] \<and> list_all token_char t) (normalize_query U q)"
  by (rule query_tokens)

lemma token_char_ascii: "token_char c \<Longrightarrow> byte_of c < 128 \<and> ascii_lower c = c"
  by (auto simp: token_char_def ascii_lower_def)

lemma token_ascii: "list_all token_char w \<Longrightarrow> is_ascii w \<and> map ascii_lower w = w"
  by (induction w) (auto dest: token_char_ascii)

lemma join_tokens_ascii:
  "list_all (\<lambda>w. w \<noteq> [] \<and> list_all token_char w) ws \<Longrightarrow>
    is_ascii (join '' '' ws) \<and> map ascii_lower (join '' '' ws) = join '' '' ws"
proof (induction "'' ''" ws rule: join.induct)
  case (2 w)
  then show ?case using token_ascii by simp
next
  case (3 x y xs)
  then show ?case using token_ascii[of x] by (auto simp: ascii_lower_def)
qed simp

lemma unaccent_ascii: "unicode_ascii U \<Longrightarrow> is_ascii s \<Longrightarrow> unaccent U s = s"
proof -
  assume U: "unicode_ascii U" and s: "is_ascii s"
  then have "filter (\<lambda>r. \<not> u_mn U r) (runes s) = runes s"
    by (auto simp: unicode_ascii_def runes_ascii filter_id_conv is_ascii_def list_all_iff)
  then show ?thesis using U s by (simp add: unaccent_def unicode_ascii_def runes_ascii encode_ascii)
qed

lemma normalize_ascii: "unicode_ascii U \<Longrightarrow> is_ascii q \<Longrightarrow>
    normalize_query U q = find_runs token_char (map ascii_lower q) []"
  by (simp add: normalize_query_def to_lower_ascii unaccent_ascii)

text \<open>Normalisation is idempotent: the tokens of a query, printed with spaces between them,
  normalise to themselves (NFD and the mark test being the identity on ASCII).\<close>

theorem normalize_idem:
  assumes "unicode_ascii U"
  shows "normalize_query U (join '' '' (normalize_query U q)) = normalize_query U q"
proof -
  note toks = query_tokens[of U q]
  note a = join_tokens_ascii[OF toks]
  have "\<not> token_char CHR '' ''" by (simp add: token_char_def)
  then show ?thesis
    unfolding normalize_ascii[OF assms a[THEN conjunct1]] a[THEN conjunct2]
    using toks by (rule find_runs_join[rotated])
qed

theorem normalize_idem_witness:
  "normalize_query basic_unicode (join '' '' (normalize_query basic_unicode ''Date-Night!'')) = [''date'', ''night'']"
  unfolding normalize_idem[OF basic_unicode_ascii] by (simp add: normalize_ascii basic_unicode_ascii) code_simp

text \<open>C27. The overlay of a query is exactly the union of what its unigrams and consecutive bigrams
  contribute: each list holds the contributed values once, open-now is their disjunction, the
  category is the last one written, and without a hit nothing is constrained.\<close>

theorem Extract_union:
  "let ov = Extract U q; hs = hits (terms (normalize_query U q)) in
     distinct (ovSubcategoryFilter ov) \<and> set (ovSubcategoryFilter ov) = \<Union> (set (map (set \<circ> rlSubcategory) hs)) \<and>
     distinct (ovUniversalTagFilter ov) \<and> set (ovUniversalTagFilter ov) = \<Union> (set (map (set \<circ> rlUniversal) hs)) \<and>
     distinct (ovSpecificTagFilter ov) \<and> set (ovSpecificTagFilter ov) = \<Union> (set (map (set \<circ> rlSpecific) hs)) \<and>
     distinct (ovPriceFilter ov) \<and> set (ovPriceFilter ov) = \<Union> (set (map (set \<circ> rlPrice) hs)) \<and>
     (ovRequireOpenNow ov \<longleftrightarrow> list_ex rlOpenNow hs) \<and>
     ovCategoryFilter ov = (case rev (filter (\<lambda>c. c \<noteq> []) (map rlCategory hs)) of [] \<Rightarrow> None | c # _ \<Rightarrow> Some c)"
  unfolding Extract_def extract_loop_fold Let_def fold_merge_fields zero_overlay_def
  by (simp add: appendUnique_distinct split: list.split)

lemma terms_nth:
  "i < length ts \<Longrightarrow> ts ! i \<in> set (terms ts)"
  "i + 1 < length ts \<Longrightarrow> ts ! i @ '' '' @ ts ! (i + 1) \<in> set (terms ts)"
proof (induction ts arbitrary: i rule: terms.induct)
  case (3 t u ts)
  {
    case 1 with "3.IH"(1)[of "i - 1"] show ?case by (cases i) auto
  next
    case 2 with "3.IH"(2)[of "i - 1"] show ?case by (cases i) auto
  }
qed simp_all

definition covered :: "string list \<Rightarrow> nat \<Rightarrow> bool" where
  "covered ts i \<longleftrightarrow> categoryLike (ts ! i) \<or>
     0 < i \<and> categoryLike (ts ! (i - 1) @ '' '' @ ts ! i) \<or>
     i + 1 < length ts \<and> categoryLike (ts ! i @ '' '' @ ts ! (i + 1))"

lemma categorical_loop_covered:
  "categorical_loop (if ps = [] then None else Some (last ps)) ts \<longleftrightarrow>
    list_all (covered (ps @ ts)) [length ps..<length ps + length ts]"
proof (induction ts arbitrary: ps)
  case (Cons t ts)
  have "categorical_loop (Some t) ts \<longleftrightarrow> list_all (covered (ps @ t # ts)) [Suc (length ps)..<length ps + length (t # ts)]"
    using Cons.IH[of "ps @ [t]"] by simp
  moreover have "covered (ps @ t # ts) (length ps) \<longleftrightarrow> categoryLike t \<or>
      (case (if ps = [] then None else Some (last ps)) of Some p \<Rightarrow> categoryLike (p @ '' '' @ t) | None \<Rightarrow> False) \<or>
      (case ts of u # _ \<Rightarrow> categoryLike (t @ '' '' @ u) | [] \<Rightarrow> False)"
    by (cases ps rule: rev_cases; cases ts) (auto simp: covered_def nth_append)
  moreover have "[length ps..<length ps + length (t # ts)] = length ps # [Suc (length ps)..<length ps + length (t # ts)]"
    by (rule upt_conv_Cons) simp
  ultimately show ?case by auto
qed simp

text \<open>A query is categorical exactly when it has a token and every token is covered by a
  category-shaped lexicon entry, alone or in a bigram with a neighbour; then the overlay
  extracted from it constrains something (other than price and opening).\<close>

theorem IsCategorical_covered:
  "(IsCategorical U q \<longleftrightarrow> normalize_query U q \<noteq> [] \<and>
      list_all (covered (normalize_query U q)) [0..<length (normalize_query U q)])"
  using categorical_loop_covered[of "[]" "normalize_query U q"] by (simp add: IsCategorical_def Let_def)

lemma categoryLike_hit:
  "categoryLike t \<Longrightarrow> t \<in> set ts \<Longrightarrow> \<exists>r \<in> set (hits ts). rlCategory r \<noteq> [] \<or> rlSubcategory r \<noteq> [] \<or>
    rlSpecific r \<noteq> [] \<or> rlUniversal r \<noteq> []"
  by (induction ts) (auto simp: categoryLike_def split: option.splits)

text \<open>The overlay of a categorical query narrows retrieval: it is not the zero overlay, so a
  suppressed pin never leaves a query that is also unconstrained.\<close>

theorem IsCategorical_narrows:
  assumes "IsCategorical U q"
  shows "\<not> IsZero (Extract U q)"
proof -
  let ?ts = "normalize_query U q" and ?hs = "hits (terms (normalize_query U q))" and ?ov = "Extract U q"
  have "?ts \<noteq> []" "list_all (covered ?ts) [0..<length ?ts]"
    using assms categorical_loop_covered[of "[]" ?ts] by (auto simp: IsCategorical_def Let_def split: if_splits)
  then have "covered ?ts 0" by (auto simp: list_all_iff)
  then obtain t where "categoryLike t" "t \<in> set (terms ?ts)"
    using terms_nth(1)[of 0 ?ts] terms_nth(2)[of 0 ?ts] \<open>?ts \<noteq> []\<close> by (auto simp: covered_def)
  then obtain r where r: "r \<in> set ?hs" "rlCategory r \<noteq> [] \<or> rlSubcategory r \<noteq> [] \<or> rlSpecific r \<noteq> [] \<or> rlUniversal r \<noteq> []"
    using categoryLike_hit by blast
  have "ovCategoryFilter ?ov \<noteq> None" if "rlCategory r \<noteq> []"
  proof -
    have "rlCategory r \<in> set (rev (filter (\<lambda>c. c \<noteq> []) (map rlCategory ?hs)))" using r(1) that by auto
    then have "rev (filter (\<lambda>c. c \<noteq> []) (map rlCategory ?hs)) \<noteq> []" by (metis empty_iff empty_set)
    then show ?thesis unfolding Extract_def extract_loop_fold fold_merge_fields by (auto split: list.split)
  qed
  moreover have "set (rlSubcategory r) \<subseteq> set (ovSubcategoryFilter ?ov)" "set (rlSpecific r) \<subseteq> set (ovSpecificTagFilter ?ov)"
    "set (rlUniversal r) \<subseteq> set (ovUniversalTagFilter ?ov)"
    unfolding Extract_def extract_loop_fold fold_merge_fields using r(1) by auto
  ultimately show ?thesis using r(2) by (auto simp: IsZero_def)
qed

theorem IsCategorical_narrows_witness:
  "IsCategorical basic_unicode ''Coffee'' \<and> \<not> IsZero (Extract basic_unicode ''Coffee'')"
proof -
  have "normalize_query basic_unicode ''Coffee'' = [''coffee'']"
    by (simp add: normalize_ascii basic_unicode_ascii) code_simp
  moreover have "categoryLike ''coffee''" by code_simp
  ultimately have "IsCategorical basic_unicode ''Coffee''" by (simp add: IsCategorical_def)
  then show ?thesis using IsCategorical_narrows by blast
qed

text \<open>No lexicon entry is dead: its key, taken as a query, normalises to tokens whose terms
  contain the key, and no two entries share a key.\<close>

theorem lexicon_reachable:
  assumes "unicode_ascii U"
  shows "distinct (map fst lexicon) \<and> list_all (\<lambda>k. k \<in> set (terms (normalize_query U k))) (map fst lexicon)"
proof -
  have "list_all (\<lambda>k. is_ascii k \<and> k \<in> set (terms (find_runs token_char (map ascii_lower k) []))) (map fst lexicon)"
    by code_simp
  moreover have "distinct (map fst lexicon)" by code_simp
  ultimately show ?thesis by (auto simp: list_all_iff normalize_ascii[OF assms])
qed

theorem lexicon_reachable_witness: "''date night'' \<in> set (terms (normalize_query basic_unicode ''date night''))"
proof -
  have "''date night'' \<in> set (map fst lexicon)" by (simp add: lexicon_def)
  then show ?thesis using lexicon_reachable[OF basic_unicode_ascii] by (auto simp: list_all_iff)
qed

end
