(* ===== verification/Search_Service.thy ===== *)
theory Search_Service
  imports Intent Ranking_Yaml
begin

text \<open>
  Package \<open>search\<close> (\<open>service.go\<close>): the use case. The repository and the embedder are the
  ports of theory \<open>Domain\<close>, passed as state-passing functions; the world threads their
  states and the count of clock readings (\<open>now k\<close> is the \<open>k\<close>-th reading of the monotonic
  clock, in nanoseconds). \<open>ctx_err\<close> is what \<open>ctx.Err()\<close> returns when the ranker asks.
  Logging has no effect on the result and is left out.
\<close>

section \<open>State\<close>

record timings =
  tIntentMS :: int
  tEmbedMS :: int
  tSQLMS :: int
  tRerankMS :: int

record ('r, 'm) world =
  wRepo :: 'r
  wEmb :: 'm
  wTick :: nat

record ('r, 'm, 'e) service =
  svSearch :: "'r \<Rightarrow> string \<Rightarrow> search_opts \<Rightarrow> ('e + candidate list) \<times> 'r"
  svExact :: "'r \<Rightarrow> string \<Rightarrow> ('e + candidate option) \<times> 'r"
  svCfg :: ranking
  svIntentEnabled :: bool
  svEmbedder :: "('m \<Rightarrow> string \<Rightarrow> ('e + f32 list) \<times> 'm) option"

datatype ('e, 'x) search_error = Retrieval 'e | ExactNameLookup 'e | Ranking 'x

definition candidateLimit :: int where "candidateLimit = 150"
definition resultLimit :: nat where "resultLimit = 15"

definition New_service :: "('r \<Rightarrow> string \<Rightarrow> search_opts \<Rightarrow> ('e + candidate list) \<times> 'r) \<Rightarrow>
    ('r \<Rightarrow> string \<Rightarrow> ('e + candidate option) \<times> 'r) \<Rightarrow> ranking \<Rightarrow> bool \<Rightarrow>
    ('m \<Rightarrow> string \<Rightarrow> ('e + f32 list) \<times> 'm) option \<Rightarrow> ('r, 'm, 'e) service" where
  "New_service search exact cfg intentEnabled emb =
     \<lparr>svSearch = search, svExact = exact, svCfg = cfg, svIntentEnabled = intentEnabled, svEmbedder = emb\<rparr>"

section \<open>Stages\<close>

text \<open>\<open>Duration.Milliseconds\<close> divides towards zero.\<close>

definition milliseconds :: "int \<Rightarrow> int" where
  "milliseconds d = (if d < 0 then - (- d div 1000000) else d div 1000000)"

definition time_now :: "(nat \<Rightarrow> int) \<Rightarrow> ('r, 'm) world \<Rightarrow> int \<times> ('r, 'm) world" where
  "time_now now w = (now (wTick w), w\<lparr>wTick := wTick w + 1\<rparr>)"

definition sinceMS :: "(nat \<Rightarrow> int) \<Rightarrow> int \<Rightarrow> ('r, 'm) world \<Rightarrow> int \<times> ('r, 'm) world" where
  "sinceMS now start w = (milliseconds (now (wTick w) - start), w\<lparr>wTick := wTick w + 1\<rparr>)"

definition runIntent :: "unicode \<Rightarrow> (nat \<Rightarrow> int) \<Rightarrow> ('r, 'm, 'e) service \<Rightarrow> string \<Rightarrow> ('r, 'm) world \<Rightarrow>
    (int \<times> bool \<times> overlay) \<times> ('r, 'm) world" where
  "runIntent U now sv q w =
     (if \<not> svIntentEnabled sv then ((0, False, zero_overlay), w)
      else
        (let (intentStart, w) = time_now now w;
             ov = Extract U q;
             categorical = IsCategorical U q;
             (intentMS, w) = sinceMS now intentStart w
         in ((intentMS, categorical, ov), w)))"

definition embedQuery :: "(nat \<Rightarrow> int) \<Rightarrow> ('r, 'm, 'e) service \<Rightarrow> string \<Rightarrow> ('r, 'm) world \<Rightarrow>
    (int \<times> f32 list option) \<times> ('r, 'm) world" where
  "embedQuery now sv q w =
     (case svEmbedder sv of
        None \<Rightarrow> ((0, None), w)
      | Some emb \<Rightarrow>
          if trim_space q = [] then ((0, None), w)
          else
            (let (start, w) = time_now now w;
                 (v, m) = emb (wEmb w) q;
                 w = w\<lparr>wEmb := m\<rparr>;
                 (embedMS, w) = sinceMS now start w
             in case v of Inl _ \<Rightarrow> ((embedMS, None), w) | Inr vec \<Rightarrow> ((embedMS, Some vec), w)))"

definition name_key :: "unicode \<Rightarrow> string \<Rightarrow> string" where
  "name_key U name = to_lower U (trim_space name)"

text \<open>The seen map and the output grow together; the output's length is tested after an append.\<close>

fun dedupe_loop :: "unicode \<Rightarrow> nat \<Rightarrow> string list \<Rightarrow> scored list \<Rightarrow> scored list \<Rightarrow> scored list" where
  "dedupe_loop U limit seen out [] = out"
| "dedupe_loop U limit seen out (r # rs) =
     (let key = name_key U (cName (srCandidate r)) in
      if key \<in> set seen then dedupe_loop U limit seen out rs
      else if length (out @ [r]) = limit then out @ [r]
      else dedupe_loop U limit (key # seen) (out @ [r]) rs)"

definition dedupeByName :: "unicode \<Rightarrow> scored list \<Rightarrow> nat \<Rightarrow> scored list" where
  "dedupeByName U ranked limit = dedupe_loop U limit [] [] ranked"

section \<open>Search\<close>

definition Search :: "unicode \<Rightarrow> (uuid \<Rightarrow> string) \<Rightarrow> (nat \<Rightarrow> int) \<Rightarrow> 'x option \<Rightarrow> ('r, 'm, 'e) service \<Rightarrow>
    string \<Rightarrow> search_opts \<Rightarrow> ('r, 'm) world \<Rightarrow>
    (('e, 'x) search_error + scored list \<times> timings) \<times> ('r, 'm) world" where
  "Search U ustr now ctx_err sv q opts w =
     (let ((intentMS, categorical, ov), w) = runIntent U now sv q w;
          ((embedMS, queryVec), w) = embedQuery now sv q w;
          retrieveOpts = opts\<lparr>soLimit := candidateLimit, soOverlay := ov, soQueryVec := queryVec\<rparr>;
          (sqlStart, w) = time_now now w;
          (res, s) = svSearch sv (wRepo w) q retrieveOpts;
          w = w\<lparr>wRepo := s\<rparr>
      in case res of
           Inl e \<Rightarrow> (Inl (Retrieval e), w)
         | Inr candidates \<Rightarrow>
             (let (pin, s) = svExact sv (wRepo w) q; w = w\<lparr>wRepo := s\<rparr>
              in case pin of
                   Inl e \<Rightarrow> (Inl (ExactNameLookup e), w)
                 | Inr found \<Rightarrow>
                     (let (sqlMS, w) = sinceMS now sqlStart w;
                          pinPtr = (if found \<noteq> None \<and> \<not> categorical then found else None);
                          rankOpts = opts\<lparr>soLimit := candidateLimit\<rparr>;
                          (rerankStart, w) = time_now now w
                      in case Run ustr ctx_err candidates pinPtr (svCfg sv) rankOpts of
                           Inl x \<Rightarrow> (Inl (Ranking x), w)
                         | Inr ranked \<Rightarrow>
                             (let ranked = dedupeByName U ranked resultLimit;
                                  (rerankMS, w) = sinceMS now rerankStart w
                              in (Inr (ranked, \<lparr>tIntentMS = intentMS, tEmbedMS = embedMS,
                                    tSQLMS = sqlMS, tRerankMS = rerankMS\<rparr>), w)))))"

section \<open>Deduplication\<close>

lemma dedupe_loop_eq:
  assumes "0 < limit" "length out < limit"
  shows "dedupe_loop U limit seen out rs =
    take limit (out @ first_per_key (\<lambda>r. name_key U (cName (srCandidate r)))
      (filter (\<lambda>r. name_key U (cName (srCandidate r)) \<notin> set seen) rs))"
  using assms
proof (induction U limit seen out rs rule: dedupe_loop.induct)
  case (2 U limit seen out r rs)
  let ?key = "\<lambda>r. name_key U (cName (srCandidate r))"
  show ?case
  proof (cases "?key r \<in> set seen")
    case True
    with 2 show ?thesis by (simp add: Let_def)
  next
    case False
    have f: "filter (\<lambda>y. ?key y \<noteq> ?key r) (filter (\<lambda>r. ?key r \<notin> set seen) rs) =
        filter (\<lambda>s. ?key s \<notin> set (?key r # seen)) rs"
      by (simp add: conj_commute)
    show ?thesis
    proof (cases "length (out @ [r]) = limit")
      case l: True
      then have "limit - length out = Suc 0" by simp
      with l False show ?thesis by (simp add: Let_def)
    next
      case l: False
      with False 2 f show ?thesis by (simp add: Let_def)
    qed
  qed
qed simp

lemma dedupeByName_eq:
  "0 < limit \<Longrightarrow> dedupeByName U ranked limit =
    take limit (first_per_key (\<lambda>r. name_key U (cName (srCandidate r))) ranked)"
  by (simp add: dedupeByName_def dedupe_loop_eq)

lemma distinct_map_take: "distinct (map f xs) \<Longrightarrow> distinct (map f (take n xs))"
  by (simp add: distinct_take flip: take_map)

section \<open>The specification without clock\<close>

definition query_overlay :: "unicode \<Rightarrow> ('r, 'm, 'e) service \<Rightarrow> string \<Rightarrow> overlay" where
  "query_overlay U sv q = (if svIntentEnabled sv then Extract U q else zero_overlay)"

definition suppress_pin :: "unicode \<Rightarrow> ('r, 'm, 'e) service \<Rightarrow> string \<Rightarrow> bool" where
  "suppress_pin U sv q \<longleftrightarrow> svIntentEnabled sv \<and> IsCategorical U q"

definition query_vec :: "('r, 'm, 'e) service \<Rightarrow> string \<Rightarrow> 'm \<Rightarrow> f32 list option" where
  "query_vec sv q m = (case svEmbedder sv of None \<Rightarrow> None
     | Some emb \<Rightarrow> if trim_space q = [] then None
         else (case fst (emb m q) of Inl _ \<Rightarrow> None | Inr v \<Rightarrow> Some v))"

definition search_spec :: "unicode \<Rightarrow> (uuid \<Rightarrow> string) \<Rightarrow> 'x option \<Rightarrow> ('r, 'm, 'e) service \<Rightarrow>
    string \<Rightarrow> search_opts \<Rightarrow> 'r \<Rightarrow> 'm \<Rightarrow> ('e, 'x) search_error + scored list" where
  "search_spec U ustr ctx_err sv q opts r m =
     (let (res, r') = svSearch sv r q (opts\<lparr>soLimit := 150, soOverlay := query_overlay U sv q,
            soQueryVec := query_vec sv q m\<rparr>)
      in res_bind (map_err Retrieval res) (\<lambda>cs.
         res_bind (map_err ExactNameLookup (fst (svExact sv r' q))) (\<lambda>pin.
         res_bind (map_err Ranking (Run ustr ctx_err cs (if suppress_pin U sv q then None else pin)
             (svCfg sv) (opts\<lparr>soLimit := 150\<rparr>))) (\<lambda>rs.
         Inr (take 15 (first_per_key (\<lambda>r. name_key U (cName (srCandidate r))) rs))))))"

definition drop_timings :: "'e + 'a \<times> 'b \<Rightarrow> 'e + 'a" where
  "drop_timings r = (case r of Inl e \<Rightarrow> Inl e | Inr p \<Rightarrow> Inr (fst p))"

lemma drop_timings_simps [simp]: "drop_timings (Inl e) = Inl e" "drop_timings (Inr (a, b)) = Inr a"
  by (simp_all add: drop_timings_def)

text \<open>What the two first stages do to the clock and the embedder.\<close>

definition intent_ticks :: "('r, 'm, 'e) service \<Rightarrow> nat" where
  "intent_ticks sv = (if svIntentEnabled sv then 2 else 0)"

definition embeds :: "('r, 'm, 'e) service \<Rightarrow> string \<Rightarrow> bool" where
  "embeds sv q \<longleftrightarrow> svEmbedder sv \<noteq> None \<and> trim_space q \<noteq> []"

definition embed_ticks :: "('r, 'm, 'e) service \<Rightarrow> string \<Rightarrow> nat" where
  "embed_ticks sv q = (if embeds sv q then 2 else 0)"

definition embed_next :: "('r, 'm, 'e) service \<Rightarrow> string \<Rightarrow> 'm \<Rightarrow> 'm" where
  "embed_next sv q m = (if embeds sv q then snd (the (svEmbedder sv) m q) else m)"

definition elapsed :: "(nat \<Rightarrow> int) \<Rightarrow> nat \<Rightarrow> nat \<Rightarrow> int" where
  "elapsed now i j = milliseconds (now j - now i)"

lemma runIntent_eq:
  "runIntent U now sv q w =
    ((if svIntentEnabled sv then elapsed now (wTick w) (wTick w + 1) else 0, suppress_pin U sv q, query_overlay U sv q),
     w\<lparr>wTick := wTick w + intent_ticks sv\<rparr>)"
  by (cases w) (simp add: runIntent_def suppress_pin_def query_overlay_def time_now_def sinceMS_def
      intent_ticks_def elapsed_def)

lemma embedQuery_eq:
  "embedQuery now sv q w =
    ((if embeds sv q then elapsed now (wTick w) (wTick w + 1) else 0, query_vec sv q (wEmb w)),
     w\<lparr>wTick := wTick w + embed_ticks sv q, wEmb := embed_next sv q (wEmb w)\<rparr>)"
  by (cases w) (auto simp: embedQuery_def query_vec_def time_now_def sinceMS_def embed_ticks_def embed_next_def
      embeds_def elapsed_def Let_def split: option.split sum.split prod.split)

lemma found_pin: "(if found \<noteq> None \<and> \<not> c then found else None) = (if c then None else found)"
  by auto

lemma Search_spec_aux:
  "drop_timings (fst (Search U ustr now ctx_err sv q opts w)) =
    search_spec U ustr ctx_err sv q opts (wRepo w) (wEmb w)"
  unfolding Search_def search_spec_def runIntent_eq Let_def case_prod_conv embedQuery_eq found_pin
  by (auto simp: time_now_def sinceMS_def candidateLimit_def resultLimit_def dedupeByName_eq
      split: prod.split sum.split)

end
