(* ===== verification/Search_Theorems.thy ===== *)
theory Search_Theorems
  imports Search_Service
begin

text \<open>
  The properties of the search use case, for every repository and embedder; where a law of a
  port is needed it is taken inside the port's locale. The witnesses run a repository that
  always answers with one bakery and pins one cafe.
\<close>

section \<open>Refinement\<close>

text \<open>C3. \<open>Search\<close> implements its clock-free specification: whatever the clock reads, the outcome is
  the first error of retrieval, exact-name lookup and ranking in this order, or the first 15
  results of distinct normalised names of the ranking, by the pin unless the query is
  categorical, of the candidates retrieved with limit 150 under the extracted overlay.\<close>

theorem Search_refines_spec:
  "drop_timings (fst (Search U ustr now ctx_err sv q opts w)) =
    search_spec U ustr ctx_err sv q opts (wRepo w) (wEmb w)"
  by (rule Search_spec_aux)

section \<open>Results\<close>

lemma search_spec_Inr:
  assumes "search_spec U ustr ctx_err sv q opts r m = Inr rs"
  obtains cs r' pin ranked where
    "svSearch sv r q (opts\<lparr>soLimit := 150, soOverlay := query_overlay U sv q, soQueryVec := query_vec sv q m\<rparr>) = (Inr cs, r')"
    "fst (svExact sv r' q) = Inr pin"
    "Run ustr ctx_err cs (if suppress_pin U sv q then None else pin) (svCfg sv) (opts\<lparr>soLimit := 150\<rparr>) = Inr ranked"
    "rs = take 15 (first_per_key (\<lambda>r. name_key U (cName (srCandidate r))) ranked)"
  using assms by (auto simp: search_spec_def res_bind_eq_Inr split: prod.splits)

text \<open>A successful search returns at most 15 results with pairwise distinct normalised names.\<close>

theorem Search_distinct_names:
  assumes "drop_timings (fst (Search U ustr now ctx_err sv q opts w)) = Inr rs"
  shows "length rs \<le> 15 \<and> distinct (map (\<lambda>r. name_key U (cName (srCandidate r))) rs)"
  using assms unfolding Search_spec_aux
  by (rule search_spec_Inr) (simp add: distinct_map_take distinct_first_per_key)

text \<open>A repository for the witnesses.\<close>

definition one_bakery :: "bool \<Rightarrow> (unit, unit, string) service" where
  "one_bakery intent = New_service (\<lambda>s q opts. (Inr [cafe 2 ''Bakery''], s))
     (\<lambda>s q. (Inr (Some (cafe 1 ''Panther'')), s)) ranking_yaml intent None"

definition fresh_world :: "(unit, unit) world" where
  "fresh_world = \<lparr>wRepo = (), wEmb = (), wTick = 0\<rparr>"

lemma one_bakery_sel [simp]:
  "svSearch (one_bakery b) s q opts = (Inr [cafe 2 ''Bakery''], s)" "svExact (one_bakery b) s q = (Inr (Some (cafe 1 ''Panther'')), s)"
  "svCfg (one_bakery b) = ranking_yaml" "svIntentEnabled (one_bakery b) = b" "svEmbedder (one_bakery b) = None"
  by (simp_all add: one_bakery_def New_service_def)

definition no_err :: "string option" where
  "no_err = None"

lemma one_bakery_result:
  "\<exists>rs. drop_timings (fst (Search U ustr now no_err (one_bakery b) q opts w)) = Inr rs"
  unfolding Search_spec_aux search_spec_def by (simp add: Run_eq no_err_def)

theorem Search_distinct_names_witness:
  "\<exists>rs. drop_timings (fst (Search basic_unicode unary_id int no_err (one_bakery False) ''q'' any_opts fresh_world)) = Inr rs \<and>
    length rs \<le> 15"
  using one_bakery_result Search_distinct_names by metis

section \<open>The pin\<close>

lemma first_per_key_hd: "first_per_key k (x # xs) = x # first_per_key k (filter (\<lambda>y. k y \<noteq> k x) xs)"
  by simp

lemma take_first: "0 < n \<Longrightarrow> take n (x # xs) = x # take (n - 1) xs"
  by (cases n) auto

lemma Run_scores:
  assumes "Run ustr None cs pin cfg opts = Inr ranked"
  shows "list_all (\<lambda>r. srCandidate r \<in> set (hardFilter cs cfg) \<and> srScore r = scoreCandidate (srCandidate r) cfg \<or>
    pin = Some (srCandidate r) \<and> srScore r = PInf) ranked"
proof -
  obtain n where "ranked = take n (dePin (tieBreak ustr (pin_stage cs pin cfg)) (nbSwapWindow (rNewBusiness cfg)))"
    using assms truncate_results_take[of _ "soLimit opts"] unfolding Run_eq by auto
  then have "set ranked \<subseteq> set (dePin (tieBreak ustr (pin_stage cs pin cfg)) (nbSwapWindow (rNewBusiness cfg)))"
    using set_take_subset by metis
  also have "\<dots> = set (pin_stage cs pin cfg)" by (rule mset_eq_setD) simp
  finally show ?thesis using pin_stage_scores[of _ cs pin cfg] by (fastforce simp: list_all_iff)
qed

lemma Run_unpinned_scores:
  assumes "Run ustr None cs None cfg opts = Inr ranked"
  shows "list_all (\<lambda>r. srCandidate r \<in> set (hardFilter cs cfg) \<and> srScore r = scoreCandidate (srCandidate r) cfg) ranked"
  using Run_scores[OF assms] by simp

text \<open>For a categorical query with intent on, no pin takes part: every result is one of the
  retrieved candidates, open where its archetype demands it, with its weighted score, even
  when the exact-name lookup found a business.\<close>

theorem categorical_suppresses_pin:
  assumes "svIntentEnabled sv" "IsCategorical U q"
    and "svSearch sv (wRepo w) q (opts\<lparr>soLimit := 150, soOverlay := Extract U q, soQueryVec := query_vec sv q (wEmb w)\<rparr>) = (Inr cs, r')"
    and "drop_timings (fst (Search U ustr now None sv q opts w)) = Inr rs"
  shows "list_all (\<lambda>r. srCandidate r \<in> set cs \<and> \<not> dropped (svCfg sv) (srCandidate r) \<and>
    srScore r = scoreCandidate (srCandidate r) (svCfg sv)) rs"
proof -
  have q: "query_overlay U sv q = Extract U q" "suppress_pin U sv q"
    using assms(1,2) by (simp_all add: query_overlay_def suppress_pin_def)
  obtain ranked where ranked: "Run ustr None cs None (svCfg sv) (opts\<lparr>soLimit := 150\<rparr>) = Inr ranked"
    "rs = take 15 (first_per_key (\<lambda>r. name_key U (cName (srCandidate r))) ranked)"
    using assms(4) unfolding Search_spec_aux
  proof (rule search_spec_Inr)
    fix cs' s pin ranked'
    assume 1: "svSearch sv (wRepo w) q (opts\<lparr>soLimit := 150, soOverlay := query_overlay U sv q,
        soQueryVec := query_vec sv q (wEmb w)\<rparr>) = (Inr cs', s)"
      and 2: "Run ustr None cs' (if suppress_pin U sv q then None else pin) (svCfg sv) (opts\<lparr>soLimit := 150\<rparr>) = Inr ranked'"
      and 3: "rs = take 15 (first_per_key (\<lambda>r. name_key U (cName (srCandidate r))) ranked')"
    from 1 assms(3) q have "cs' = cs" by simp
    with 2 3 q that[of ranked'] show thesis by (simp add: Run_eq)
  qed
  have "set rs \<subseteq> set ranked"
    using ranked(2) set_first_per_key_subset by (metis order_trans set_take_subset)
  with Run_unpinned_scores[OF ranked(1)] show ?thesis
    by (auto simp: list_all_iff hardFilter_filter)
qed

theorem categorical_suppresses_pin_witness:
  "\<exists>rs. drop_timings (fst (Search basic_unicode unary_id int no_err (one_bakery True) ''Coffee'' any_opts fresh_world)) = Inr rs \<and>
    list_all (\<lambda>r. srCandidate r = cafe 2 ''Bakery'') rs"
proof -
  have "normalize_query basic_unicode ''Coffee'' = [''coffee'']"
    by (simp add: normalize_ascii basic_unicode_ascii) code_simp
  moreover have "categoryLike ''coffee''" by code_simp
  ultimately have c: "IsCategorical basic_unicode ''Coffee''" by (simp add: IsCategorical_def)
  obtain rs where rs: "drop_timings (fst (Search basic_unicode unary_id int no_err (one_bakery True) ''Coffee'' any_opts fresh_world)) = Inr rs"
    using one_bakery_result by blast
  show ?thesis
    using categorical_suppresses_pin[OF _ c one_bakery_sel(1) rs[unfolded no_err_def]] rs by (auto simp: list_all_iff)
qed

lemma Run_pin_head:
  assumes "list_all (\<lambda>c. scoreCandidate c cfg \<noteq> NaN \<and> scoreCandidate c cfg \<noteq> PInf) (hardFilter cs cfg)"
    and "soLimit opts \<noteq> 0" "Run ustr None cs (Some p) cfg opts = Inr ranked"
  shows "\<exists>rest. ranked = \<lparr>srCandidate = p, srScore = PInf\<rparr> # rest"
proof -
  let ?pin = "\<lparr>srCandidate = p, srScore = PInf\<rparr>"
  define tail where "tail = filter (\<lambda>r. cID (srCandidate r) \<noteq> cID p) (sortByScore (scoreAll (hardFilter cs cfg) cfg))"
  have "list_all (\<lambda>r. srScore r \<noteq> NaN \<and> srScore r \<noteq> PInf) tail"
    using assms(1) by (auto simp: list_all_iff tail_def sortByScore_def scoreAll_def)
  then obtain ys where ys: "tieBreak ustr (?pin # tail) = ?pin # ys"
    using tieBreak_pin_head by blast
  obtain zs where zs: "dePin (?pin # ys) (nbSwapWindow (rNewBusiness cfg)) = ?pin # zs"
    using dePin_head[of ?pin] by (auto simp: movable_def is_pinf_def)
  have "ranked = truncate_results (?pin # zs) (soLimit opts)"
    using assms(3) ys zs by (simp add: Run_eq pin_stage_def applyPin_eq tail_def[symmetric])
  then show ?thesis using assms(2) by (auto simp: truncate_results_def take_first)
qed

text \<open>What a search yields once both lookups of the repository have answered.\<close>

lemma search_spec_outcome:
  assumes "svSearch sv r q (opts\<lparr>soLimit := 150, soOverlay := query_overlay U sv q, soQueryVec := query_vec sv q m\<rparr>) = (Inr cs, r')"
    and "fst (svExact sv r' q) = Inr pin"
    and clean: "list_all (\<lambda>c. scoreCandidate c (svCfg sv) \<noteq> NaN \<and> scoreCandidate c (svCfg sv) \<noteq> PInf) (hardFilter cs (svCfg sv))"
  obtains rs where "search_spec U ustr None sv q opts r m = Inr rs" "length rs \<le> 15"
    "distinct (map (\<lambda>r. name_key U (cName (srCandidate r))) rs)"
    "list_all (\<lambda>r. srCandidate r \<in> set cs \<and> srScore r = scoreCandidate (srCandidate r) (svCfg sv) \<or>
       pin = Some (srCandidate r) \<and> srScore r = PInf) rs"
    "\<And>p. \<lbrakk>\<not> suppress_pin U sv q; pin = Some p\<rbrakk> \<Longrightarrow> \<exists>rest. rs = \<lparr>srCandidate = p, srScore = PInf\<rparr> # rest"
proof -
  let ?pin = "if suppress_pin U sv q then None else pin" and ?key = "\<lambda>r. name_key U (cName (srCandidate r))"
  obtain ranked where ranked: "Run ustr None cs ?pin (svCfg sv) (opts\<lparr>soLimit := 150\<rparr>) = Inr ranked"
    by (simp add: Run_eq)
  let ?rs = "take 15 (first_per_key ?key ranked)"
  have "set ?rs \<subseteq> set ranked" by (rule subset_trans[OF set_take_subset set_first_per_key_subset])
  then have "list_all (\<lambda>r. srCandidate r \<in> set cs \<and> srScore r = scoreCandidate (srCandidate r) (svCfg sv) \<or>
      pin = Some (srCandidate r) \<and> srScore r = PInf) ?rs"
    using Run_scores[OF ranked] by (auto simp: list_all_iff hardFilter_filter split: if_splits)
  moreover have "\<exists>rest. ?rs = \<lparr>srCandidate = p, srScore = PInf\<rparr> # rest"
    if "\<not> suppress_pin U sv q" "pin = Some p" for p
    using ranked that by (auto simp: take_first dest!: Run_pin_head[OF clean, rotated])
  moreover have "search_spec U ustr None sv q opts r m = Inr ?rs"
    using assms(1,2) ranked by (auto simp: search_spec_def Run_eq)
  ultimately show thesis
    by (intro that) (simp_all add: distinct_map_take distinct_first_per_key)
qed

text \<open>For a query that is not categorical, or with intent off, a business the exact-name
  lookup found heads the results with score +Inf, provided no retrieved candidate scores NaN
  or +Inf.\<close>

theorem Search_pin_first:
  assumes "\<not> (svIntentEnabled sv \<and> IsCategorical U q)"
    and "svSearch sv (wRepo w) q (opts\<lparr>soLimit := 150, soOverlay := query_overlay U sv q, soQueryVec := query_vec sv q (wEmb w)\<rparr>) = (Inr cs, r')"
    and "fst (svExact sv r' q) = Inr (Some p)"
    and "list_all (\<lambda>c. scoreCandidate c (svCfg sv) \<noteq> NaN \<and> scoreCandidate c (svCfg sv) \<noteq> PInf) (hardFilter cs (svCfg sv))"
  shows "\<exists>rest. drop_timings (fst (Search U ustr now None sv q opts w)) =
    Inr (\<lparr>srCandidate = p, srScore = PInf\<rparr> # rest)"
  unfolding Search_spec_aux
  by (rule search_spec_outcome[OF assms(2-4)]) (use assms(1) in \<open>auto simp: suppress_pin_def\<close>)

theorem Search_pin_first_witness:
  "\<exists>rest. drop_timings (fst (Search basic_unicode unary_id int no_err (one_bakery False) ''panther'' any_opts fresh_world)) =
    Inr (\<lparr>srCandidate = cafe 1 ''Panther'', srScore = PInf\<rparr> # rest)"
  unfolding no_err_def
proof (rule Search_pin_first)
  have "cand_ranges (cafe 2 ''Bakery'')" using sane_for_cafe by (simp add: sane_for_def)
  then have "nonneg_f (scoreCandidate (cafe 2 ''Bakery'') ranking_yaml)"
    "f_le (scoreCandidate (cafe 2 ''Bakery'') ranking_yaml) (weight_total (archetype_of ranking_yaml ''low_stakes_fast_nearby'') (rSignals ranking_yaml))"
    using score_bound_aux[OF sane_for_cafe] proper_weights_yaml by (auto simp: list_all_iff cafe_def)
  show "list_all (\<lambda>c. scoreCandidate c (svCfg (one_bakery False)) \<noteq> NaN \<and> scoreCandidate c (svCfg (one_bakery False)) \<noteq> PInf)
      (hardFilter [cafe 2 ''Bakery''] (svCfg (one_bakery False)))"
    using yaml_score_aux[of "cafe 2 ''Bakery''"] \<open>cand_ranges _\<close> by auto
qed simp_all

section \<open>Degradation and timings\<close>

text \<open>A failing embedder never fails a search: the outcome is that of the same service with no
  embedder wired.\<close>

theorem embed_failure_degrades:
  assumes "svEmbedder sv = Some emb" "fst (emb (wEmb w) q) = Inl e"
  shows "drop_timings (fst (Search U ustr now ctx_err sv q opts w)) =
    drop_timings (fst (Search U ustr now ctx_err (sv\<lparr>svEmbedder := None\<rparr>) q opts w))"
proof -
  have "query_vec sv q (wEmb w) = query_vec (sv\<lparr>svEmbedder := None\<rparr>) q (wEmb w)"
    using assms by (simp add: query_vec_def)
  then show ?thesis
    unfolding Search_spec_aux search_spec_def by (simp add: query_overlay_def suppress_pin_def name_key_def)
qed

theorem embed_failure_degrades_witness:
  "drop_timings (fst (Search basic_unicode unary_id int no_err
      ((one_bakery False)\<lparr>svEmbedder := Some (\<lambda>m t. (Inl ''ollama down'', m))\<rparr>) ''coffee'' any_opts fresh_world)) =
   drop_timings (fst (Search basic_unicode unary_id int no_err (one_bakery False) ''coffee'' any_opts fresh_world))"
proof -
  let ?emb = "\<lambda>(m::unit) (t::string). (Inl ''ollama down'' :: string + f32 list, m)"
  let ?sv = "(one_bakery False)\<lparr>svEmbedder := Some ?emb\<rparr>"
  have "svEmbedder ?sv = Some ?emb" "fst (?emb (wEmb fresh_world) ''coffee'') = Inl ''ollama down''" by simp_all
  from embed_failure_degrades[OF this, where U = basic_unicode and ustr = unary_id and now = int and ctx_err = no_err and opts = any_opts]
  show ?thesis by (simp add: one_bakery_def New_service_def)
qed

lemma elapsed_nonneg:
  assumes "mono now" "i \<le> j"
  shows "0 \<le> elapsed now i j \<and> elapsed now i j * 1000000 \<le> now j - now i"
proof -
  have "0 \<le> now j - now i" using monoD[OF assms] by simp
  then show ?thesis
    unfolding elapsed_def milliseconds_def by (simp add: pos_imp_zdiv_nonneg_iff div_times_less_eq_dividend)
qed

text \<open>On a monotonic clock the four stage times are nonnegative, and together they do not exceed
  the time between the first and the last reading of the search.\<close>

theorem Search_timings:
  assumes "mono now" "Search U ustr now ctx_err sv q opts w = (Inr (rs, t), w')"
  shows "0 \<le> tIntentMS t \<and> 0 \<le> tEmbedMS t \<and> 0 \<le> tSQLMS t \<and> 0 \<le> tRerankMS t \<and>
    (tIntentMS t + tEmbedMS t + tSQLMS t + tRerankMS t) * 1000000 \<le> now (wTick w' - 1) - now (wTick w)"
proof -
  let ?i = "wTick w" and ?e = "wTick w + intent_ticks sv" and ?s = "wTick w + intent_ticks sv + embed_ticks sv q"
  have t: "t = \<lparr>tIntentMS = if svIntentEnabled sv then elapsed now ?i (?i + 1) else 0,
      tEmbedMS = if embeds sv q then elapsed now ?e (?e + 1) else 0,
      tSQLMS = elapsed now ?s (?s + 1), tRerankMS = elapsed now (?s + 2) (?s + 3)\<rparr>" and w': "wTick w' = ?s + 4"
    using assms(2) unfolding Search_def runIntent_eq Let_def case_prod_conv embedQuery_eq
    by (auto simp: time_now_def sinceMS_def elapsed_def eval_nat_numeral split: prod.splits sum.splits)
  have i: "0 \<le> tIntentMS t" "tIntentMS t * 1000000 \<le> now ?e - now ?i"
    using elapsed_nonneg[OF assms(1), of ?i "?i + 1"] monoD[OF assms(1), of "?i + 1" "?i + 2"]
    by (auto simp: t intent_ticks_def)
  have e: "0 \<le> tEmbedMS t" "tEmbedMS t * 1000000 \<le> now ?s - now ?e"
    using elapsed_nonneg[OF assms(1), of ?e "?e + 1"] monoD[OF assms(1), of "?e + 1" "?e + 2"]
    by (auto simp: t embed_ticks_def)
  have s: "0 \<le> tSQLMS t" "tSQLMS t * 1000000 \<le> now (?s + 1) - now ?s"
    using elapsed_nonneg[OF assms(1), of ?s "?s + 1"] by (auto simp: t)
  have r: "0 \<le> tRerankMS t" "tRerankMS t * 1000000 \<le> now (?s + 3) - now (?s + 2)"
    using elapsed_nonneg[OF assms(1), of "?s + 2" "?s + 3"] by (auto simp: t)
  have "now (?s + 1) \<le> now (?s + 2)" "wTick w' - 1 = ?s + 3" using monoD[OF assms(1)] w' by simp_all
  then show ?thesis using i e s r by (simp add: distrib_right)
qed

theorem Search_timings_witness:
  "\<exists>rs t w'. Search basic_unicode unary_id int no_err (one_bakery True) ''coffee'' any_opts fresh_world = (Inr (rs, t), w') \<and>
    0 \<le> tSQLMS t"
proof -
  obtain out w' where s: "Search basic_unicode unary_id int no_err (one_bakery True) ''coffee'' any_opts fresh_world = (out, w')"
    by (rule prod.exhaust)
  then have "\<exists>rs. drop_timings out = Inr rs"
    using one_bakery_result[of basic_unicode unary_id int True "''coffee''" any_opts fresh_world] by simp
  then obtain rs t where out: "out = Inr (rs, t)" by (auto simp: drop_timings_def split: sum.splits)
  note s = s[unfolded out]
  have "mono int" by (simp add: mono_def)
  from Search_timings[OF this s] s show ?thesis by blast
qed

end
