(* ===== verification/Ingest_Parser.thy ===== *)
theory Ingest_Parser
  imports Go_Strings
begin

text \<open>
  Package \<open>ingest\<close>, file \<open>parser.go\<close>: the streaming splitter of the malformed data file. The
  reader is its unread bytes and the error it ends with (\<open>None\<close> is \<open>io.EOF\<close>); the parser's
  fields are the state. The abstract side is a grammar of object texts, and the main result
  the round trip: printed objects with structural bytes around them come back one by one.
\<close>

section \<open>The parser\<close>

record 'e parser =
  psRest :: string
  psEnd :: "'e option"
  psDepth :: int
  psInString :: bool
  psEscape :: bool
  psBuf :: string

datatype 'e parse_error =
    EndOfStream
  | ScanningForObject 'e
  | UnexpectedByte char
  | UnexpectedEOF
  | ReadingBody 'e

definition New_parser :: "string \<Rightarrow> 'e option \<Rightarrow> 'e parser" where
  "New_parser bytes err = \<lparr>psRest = bytes, psEnd = err, psDepth = 0, psInString = False, psEscape = False, psBuf = []\<rparr>"

definition isStructural :: "char \<Rightarrow> bool" where
  "isStructural b \<longleftrightarrow> b = CHR ''['' \<or> b = CHR '']'' \<or> b = CHR '','' \<or> b = CHR '' '' \<or>
     b = CHR 0x09 \<or> b = CHR 0x0D \<or> b = CHR 0x0A"

definition skipErr :: "'e option \<Rightarrow> 'e parse_error" where
  "skipErr err = (case err of None \<Rightarrow> EndOfStream | Some e \<Rightarrow> ScanningForObject e)"

definition readErr :: "'e option \<Rightarrow> 'e parse_error" where
  "readErr err = (case err of None \<Rightarrow> UnexpectedEOF | Some e \<Rightarrow> ReadingBody e)"

fun skip_loop :: "'e option \<Rightarrow> string \<Rightarrow> 'e parse_error option \<times> string" where
  "skip_loop err [] = (Some (skipErr err), [])"
| "skip_loop err (b # bs) =
     (if b = CHR ''{'' then (None, b # bs)
      else if \<not> isStructural b then (Some (UnexpectedByte b), bs)
      else skip_loop err bs)"

definition skipToObject :: "'e parser \<Rightarrow> 'e parse_error option \<times> 'e parser" where
  "skipToObject p = (let (err, rest) = skip_loop (psEnd p) (psRest p) in (err, p\<lparr>psRest := rest\<rparr>))"

definition consume :: "'e parser \<Rightarrow> char \<Rightarrow> bool \<times> 'e parser" where
  "consume p b =
     (let p = p\<lparr>psBuf := psBuf p @ [b]\<rparr> in
      if psEscape p then (False, p\<lparr>psEscape := False\<rparr>)
      else if b = CHR 0x5C \<and> psInString p then (False, p\<lparr>psEscape := True\<rparr>)
      else if b = CHR 0x22 then (False, p\<lparr>psInString := \<not> psInString p\<rparr>)
      else if psInString p then (False, p)
      else if b = CHR ''{'' then (False, p\<lparr>psDepth := psDepth p + 1\<rparr>)
      else if b = CHR ''}'' then (psDepth p - 1 = 0, p\<lparr>psDepth := psDepth p - 1\<rparr>)
      else (False, p))"

definition reset :: "'e parser \<Rightarrow> 'e parser" where
  "reset p = p\<lparr>psDepth := 0, psInString := False, psEscape := False, psBuf := []\<rparr>"

fun next_loop :: "'e parser \<Rightarrow> string \<Rightarrow> ('e parse_error + string) \<times> 'e parser" where
  "next_loop p [] = (Inl (readErr (psEnd p)), p\<lparr>psRest := []\<rparr>)"
| "next_loop p (b # bs) =
     (let (done, p) = consume p b in
      if done then (Inr (psBuf p), p\<lparr>psRest := bs\<rparr>) else next_loop p bs)"

definition Next :: "'e parser \<Rightarrow> ('e parse_error + string) \<times> 'e parser" where
  "Next p =
     (let (err, p) = skipToObject p in
      case err of
        Some e \<Rightarrow> (Inl e, p)
      | None \<Rightarrow> next_loop (reset p) (psRest p))"

section \<open>Progress\<close>

lemma consume_sel [simp]:
  "psRest (snd (consume p b)) = psRest p" "psEnd (snd (consume p b)) = psEnd p"
  "psBuf (snd (consume p b)) = psBuf p @ [b]"
  by (simp_all add: consume_def Let_def)

lemma skip_loop_suffix: "skip_loop err bs = (r, rest) \<Longrightarrow> \<exists>pre. bs = pre @ rest"
  by (induction err bs rule: skip_loop.induct) (auto split: if_splits simp: Cons_eq_append_conv)

lemma skip_loop_object: "skip_loop err bs = (None, rest) \<Longrightarrow> \<exists>cs. rest = CHR ''{'' # cs"
  by (induction err bs rule: skip_loop.induct) (auto split: if_splits)

lemma next_loop_Inr:
  "next_loop p bs = (Inr raw, p') \<Longrightarrow>
    \<exists>pre. pre \<noteq> [] \<and> bs = pre @ psRest p' \<and> raw = psBuf p @ pre \<and> psEnd p' = psEnd p"
proof (induction p bs rule: next_loop.induct)
  case (2 p b bs)
  obtain d q where c: "consume p b = (d, q)" by (cases "consume p b")
  then have q: "psBuf q = psBuf p @ [b]" "psEnd q = psEnd p"
    using consume_sel[of p b] by simp_all
  show ?case
  proof (cases d)
    case True
    with "2.prems" c q show ?thesis by (auto intro!: exI[of _ "[b]"])
  next
    case False
    with "2.prems" c have "next_loop q bs = (Inr raw, p')" by simp
    from "2.IH"[OF c[symmetric] refl False this] obtain pre where
      "bs = pre @ psRest p'" "raw = psBuf q @ pre" "psEnd p' = psEnd q" by blast
    with q show ?thesis by (intro exI[of _ "b # pre"]) simp
  qed
qed simp

text \<open>A successful step takes the object, verbatim, off the front of the stream.\<close>

lemma Next_Inr:
  assumes "Next p = (Inr raw, p')"
  shows "\<exists>sep. psRest p = sep @ raw @ psRest p' \<and> raw \<noteq> [] \<and> psEnd p' = psEnd p"
proof -
  obtain err q where s: "skipToObject p = (err, q)" by (cases "skipToObject p")
  then obtain rest where r: "skip_loop (psEnd p) (psRest p) = (err, rest)" "q = p\<lparr>psRest := rest\<rparr>"
    by (auto simp: skipToObject_def split: prod.splits)
  from assms s have "err = None" "next_loop (reset q) (psRest q) = (Inr raw, p')"
    by (auto simp: Next_def split: option.splits)
  moreover obtain sep where "psRest p = sep @ rest" using skip_loop_suffix[OF r(1)] by blast
  moreover obtain pre where "pre \<noteq> []" "psRest q = pre @ psRest p'" "raw = psBuf (reset q) @ pre" "psEnd p' = psEnd (reset q)"
    using next_loop_Inr[OF calculation(2)] by blast
  ultimately show ?thesis using r(2) by (auto simp: reset_def)
qed

text \<open>Draining the stream ends: every step shortens it.\<close>

function parse_all :: "'e parser \<Rightarrow> string list \<times> 'e parse_error" where
  "parse_all p =
     (case Next p of
        (Inl e, _) \<Rightarrow> ([], e)
      | (Inr raw, p') \<Rightarrow> (let (raws, e) = parse_all p' in (raw # raws, e)))"
  by pat_completeness auto
termination
  by (relation "measure (\<lambda>p. length (psRest p))") (auto dest!: Next_Inr[OF sym] dest: Next_Inr)

declare parse_all.simps [simp del]

section \<open>Object texts\<close>

datatype string_item = Lit char | Esc char

datatype jtext = Obj "jtext list" | Str "string_item list" | Plain char

fun print_item :: "string_item \<Rightarrow> string" where
  "print_item (Lit c) = [c]"
| "print_item (Esc c) = [CHR 0x5C, c]"

fun print_text :: "jtext \<Rightarrow> string" where
  "print_text (Obj ts) = CHR ''{'' # concat (map print_text ts) @ [CHR ''}'']"
| "print_text (Str is) = CHR 0x22 # concat (map print_item is) @ [CHR 0x22]"
| "print_text (Plain c) = [c]"

fun item_wf :: "string_item \<Rightarrow> bool" where
  "item_wf (Lit c) \<longleftrightarrow> c \<noteq> CHR 0x22 \<and> c \<noteq> CHR 0x5C"
| "item_wf (Esc c) \<longleftrightarrow> True"

fun text_wf :: "jtext \<Rightarrow> bool" where
  "text_wf (Obj ts) \<longleftrightarrow> list_all text_wf ts"
| "text_wf (Str is) \<longleftrightarrow> list_all item_wf is"
| "text_wf (Plain c) \<longleftrightarrow> c \<noteq> CHR 0x22 \<and> c \<noteq> CHR ''{'' \<and> c \<noteq> CHR ''}''"

fun is_object :: "jtext \<Rightarrow> bool" where
  "is_object (Obj _) = True"
| "is_object _ = False"

text \<open>The parser between two values, at a depth.\<close>

definition at_depth :: "int \<Rightarrow> 'e parser \<Rightarrow> bool" where
  "at_depth d p \<longleftrightarrow> psDepth p = d \<and> \<not> psInString p \<and> \<not> psEscape p"

lemma escape_id: "\<not> psEscape p \<Longrightarrow> p\<lparr>psBuf := x, psEscape := False\<rparr> = p\<lparr>psBuf := x\<rparr>"
  by (cases p) simp

lemma next_loop_items:
  "list_all item_wf is \<Longrightarrow> psInString p \<Longrightarrow> \<not> psEscape p \<Longrightarrow>
    next_loop p (concat (map print_item is) @ bs) = next_loop (p\<lparr>psBuf := psBuf p @ concat (map print_item is)\<rparr>) bs"
proof (induction "is" arbitrary: p)
  case (Cons i "is")
  show ?case
  proof (cases i)
    case (Lit c)
    then have "next_loop p (concat (map print_item (i # is)) @ bs) =
        next_loop (p\<lparr>psBuf := psBuf p @ [c]\<rparr>) (concat (map print_item is) @ bs)"
      using Cons.prems by (simp add: consume_def)
    with Cons Lit show ?thesis by simp
  next
    case (Esc c)
    have "next_loop p (concat (map print_item (i # is)) @ bs) =
        next_loop (p\<lparr>psBuf := psBuf p @ [CHR 0x5C, c]\<rparr>) (concat (map print_item is) @ bs)"
      using Cons.prems Esc by (simp add: consume_def escape_id)
    with Cons Esc show ?thesis by simp
  qed
qed simp

lemma next_loop_text:
  "text_wf t \<Longrightarrow> 0 < d \<Longrightarrow> at_depth d p \<Longrightarrow>
    next_loop p (print_text t @ bs) = next_loop (p\<lparr>psBuf := psBuf p @ print_text t\<rparr>) bs"
proof (induction t arbitrary: p d bs)
  case (Obj ts)
  have list: "list_all text_wf us \<Longrightarrow> set us \<subseteq> set ts \<Longrightarrow> 0 < e \<Longrightarrow> at_depth e q \<Longrightarrow>
      next_loop q (concat (map print_text us) @ cs) = next_loop (q\<lparr>psBuf := psBuf q @ concat (map print_text us)\<rparr>) cs"
    for us e cs and q :: "'a parser"
  proof (induction us arbitrary: q)
    case (Cons u us)
    have "at_depth e (q\<lparr>psBuf := psBuf q @ print_text u\<rparr>)" using Cons.prems by (simp add: at_depth_def)
    with Cons Obj.IH[of u e q "concat (map print_text us) @ cs"] show ?case by simp
  qed simp
  let ?q = "p\<lparr>psBuf := psBuf p @ ''{'', psDepth := d + 1\<rparr>"
  have "next_loop p (print_text (Obj ts) @ bs) = next_loop ?q (concat (map print_text ts) @ CHR ''}'' # bs)"
    using Obj.prems by (simp add: consume_def at_depth_def)
  also have "\<dots> = next_loop (?q\<lparr>psBuf := psBuf ?q @ concat (map print_text ts)\<rparr>) (CHR ''}'' # bs)"
    by (rule list[where e = "d + 1"]) (use Obj.prems in \<open>auto simp: at_depth_def\<close>)
  also have "\<dots> = next_loop (p\<lparr>psBuf := psBuf p @ print_text (Obj ts)\<rparr>) bs"
    using Obj.prems by (cases p) (simp add: consume_def at_depth_def)
  finally show ?case .
next
  case (Str "is")
  let ?q = "p\<lparr>psBuf := psBuf p @ [CHR 0x22], psInString := True\<rparr>"
  have "next_loop p (print_text (Str is) @ bs) = next_loop ?q (concat (map print_item is) @ CHR 0x22 # bs)"
    using Str.prems by (simp add: consume_def at_depth_def)
  also have "\<dots> = next_loop (?q\<lparr>psBuf := psBuf ?q @ concat (map print_item is)\<rparr>) (CHR 0x22 # bs)"
    by (rule next_loop_items) (use Str.prems in \<open>auto simp: at_depth_def\<close>)
  also have "\<dots> = next_loop (p\<lparr>psBuf := psBuf p @ print_text (Str is)\<rparr>) bs"
    using Str.prems by (cases p) (simp add: consume_def at_depth_def)
  finally show ?case .
next
  case (Plain c)
  then show ?case by (simp add: consume_def at_depth_def)
qed

lemma next_loop_texts:
  "list_all text_wf ts \<Longrightarrow> 0 < d \<Longrightarrow> at_depth d p \<Longrightarrow>
    next_loop p (concat (map print_text ts) @ bs) = next_loop (p\<lparr>psBuf := psBuf p @ concat (map print_text ts)\<rparr>) bs"
proof (induction ts arbitrary: p)
  case (Cons t ts)
  have "at_depth d (p\<lparr>psBuf := psBuf p @ print_text t\<rparr>)" using Cons.prems by (simp add: at_depth_def)
  with Cons next_loop_text[of t d p "concat (map print_text ts) @ bs"] show ?case by simp
qed simp

lemma skip_structural: "list_all isStructural sep \<Longrightarrow> skip_loop err (sep @ bs) = skip_loop err bs"
  by (induction sep) (auto simp: isStructural_def)

lemma Next_object:
  assumes "list_all isStructural sep" "text_wf (Obj ts)"
  shows "\<exists>p'. Next (p\<lparr>psRest := sep @ print_text (Obj ts) @ bs\<rparr>) = (Inr (print_text (Obj ts)), p') \<and>
    psRest p' = bs \<and> psEnd p' = psEnd p"
proof -
  let ?p = "p\<lparr>psRest := sep @ print_text (Obj ts) @ bs\<rparr>"
  let ?r = "reset (p\<lparr>psRest := print_text (Obj ts) @ bs\<rparr>)"
  let ?q = "?r\<lparr>psBuf := ''{'', psDepth := 1\<rparr>"
  have "skipToObject ?p = (None, p\<lparr>psRest := print_text (Obj ts) @ bs\<rparr>)"
    by (simp add: skipToObject_def skip_structural[OF assms(1)])
  then have "Next ?p = next_loop ?r (print_text (Obj ts) @ bs)" by (simp add: Next_def)
  also have "\<dots> = next_loop ?q (concat (map print_text ts) @ CHR ''}'' # bs)"
    by (simp add: consume_def reset_def)
  also have "\<dots> = next_loop (?q\<lparr>psBuf := ''{'' @ concat (map print_text ts)\<rparr>) (CHR ''}'' # bs)"
    using next_loop_texts[of ts 1 ?q] assms(2) by (simp add: at_depth_def reset_def)
  also have "\<dots> = (Inr (print_text (Obj ts)), p\<lparr>psRest := bs, psDepth := 0, psInString := False, psEscape := False,
      psBuf := print_text (Obj ts)\<rparr>)"
    by (simp add: consume_def reset_def)
  finally show ?thesis by simp
qed

section \<open>Properties\<close>

text \<open>A stream: structural bytes before each object and at the end.\<close>

fun print_stream :: "(string \<times> jtext) list \<Rightarrow> string \<Rightarrow> string" where
  "print_stream [] trailer = trailer"
| "print_stream ((sep, t) # ts) trailer = sep @ print_text t @ print_stream ts trailer"

lemma parse_stream_aux:
  "list_all (\<lambda>(sep, t). list_all isStructural sep \<and> is_object t \<and> text_wf t) items \<Longrightarrow>
    list_all isStructural trailer \<Longrightarrow> psRest p = print_stream items trailer \<Longrightarrow>
    parse_all p = (map (print_text \<circ> snd) items, skipErr (psEnd p))"
proof (induction items arbitrary: p)
  case Nil
  then have "skip_loop (psEnd p) (psRest p) = (Some (skipErr (psEnd p)), [])"
    using skip_structural[of trailer "psEnd p" "[]"] by simp
  then show ?case by (subst parse_all.simps) (simp add: Next_def skipToObject_def)
next
  case (Cons it items)
  obtain sep ts where it: "it = (sep, Obj ts)" using Cons.prems(1) by (cases it; cases "snd it") auto
  have "p\<lparr>psRest := sep @ print_text (Obj ts) @ print_stream items trailer\<rparr> = p"
    using Cons.prems(3) it by (cases p) simp
  moreover have "list_all isStructural sep" "text_wf (Obj ts)" using Cons.prems(1) it by auto
  ultimately obtain p' where p': "Next p = (Inr (print_text (Obj ts)), p')"
    "psRest p' = print_stream items trailer" "psEnd p' = psEnd p"
    using Next_object[of sep ts "print_stream items trailer" p] by metis
  have "parse_all p' = (map (print_text \<circ> snd) items, skipErr (psEnd p))"
    using Cons.IH[of p'] Cons.prems(1,2) p' by simp
  with p'(1) it show ?case by (subst parse_all.simps) simp
qed

text \<open>C14. Whatever structural bytes stand between them (the file's missing commas included), the
  parser yields exactly the objects that were printed, byte for byte and in order, nested
  objects and braces or escaped quotes inside strings notwithstanding, and then ends cleanly.\<close>

theorem parse_print_roundtrip:
  assumes "list_all (\<lambda>(sep, t). list_all isStructural sep \<and> is_object t \<and> text_wf t) items"
    and "list_all isStructural trailer"
  shows "parse_all (New_parser (print_stream items trailer) None) = (map (print_text \<circ> snd) items, EndOfStream)"
  using parse_stream_aux[OF assms, of "New_parser (print_stream items trailer) None"]
  by (simp add: New_parser_def skipErr_def)

theorem parse_print_roundtrip_witness:
  "parse_all (New_parser ''[{}
{{x}}]'' (None :: unit option)) = ([''{}'', ''{{x}}''], EndOfStream)"
  using parse_print_roundtrip[of "[(''['', Obj []), ([CHR 0x0A], Obj [Obj [Plain CHR ''x'']])]" "'']''"]
  by (simp add: isStructural_def)

text \<open>Every object the parser yields is a nonempty piece of the stream, removed from it with the
  bytes before it: nothing is invented, repeated or reordered, and draining ends.\<close>

theorem Next_progress:
  assumes "Next p = (Inr raw, p')"
  shows "\<exists>sep. psRest p = sep @ raw @ psRest p' \<and> raw \<noteq> [] \<and> length (psRest p') < length (psRest p)"
  using Next_Inr[OF assms] by auto

theorem Next_progress_witness: "\<exists>raw p'. Next (New_parser ''{}'' (None :: unit option)) = (Inr raw, p') \<and> raw \<noteq> []"
proof -
  obtain p' where "Next (New_parser ''{}'' (None :: unit option)) = (Inr ''{}'', p')"
    using Next_object[of "[]" "[]" "[]" "New_parser ''{}'' (None :: unit option)"] by (auto simp: New_parser_def)
  from Next_progress[OF this] this show ?thesis by blast
qed

text \<open>A stream that ends inside an object is an error, never a partial value: on the text of an
  object without its last byte the parser reports an unexpected end.\<close>

theorem truncated_object_error:
  assumes "text_wf (Obj ts)"
  shows "fst (Next (New_parser (butlast (print_text (Obj ts))) None)) = Inl UnexpectedEOF"
proof -
  define p :: "'a parser" where "p = New_parser (butlast (print_text (Obj ts))) None"
  have p: "psRest p = CHR ''{'' # concat (map print_text ts)" "psEnd p = None"
    by (simp_all add: p_def New_parser_def butlast_append)
  have q: "p\<lparr>psRest := CHR ''{'' # concat (map print_text ts)\<rparr> = p" using p(1) by (cases p) simp
  have "skipToObject p = (None, p\<lparr>psRest := CHR ''{'' # concat (map print_text ts)\<rparr>)"
    by (simp add: skipToObject_def p(1))
  note this[unfolded q]
  then have "Next p = next_loop (reset p) (psRest p)" by (simp add: Next_def)
  also have "\<dots> = next_loop ((reset p)\<lparr>psBuf := ''{'', psDepth := 1\<rparr>) (concat (map print_text ts) @ [])"
    by (simp add: consume_def reset_def p(1))
  also have "\<dots> = next_loop ((reset p)\<lparr>psBuf := ''{'', psDepth := 1,
      psBuf := psBuf ((reset p)\<lparr>psBuf := ''{'', psDepth := 1\<rparr>) @ concat (map print_text ts)\<rparr>) []"
    by (rule next_loop_texts[where d = 1]) (use assms in \<open>simp_all add: at_depth_def reset_def\<close>)
  finally have "fst (Next p) = Inl UnexpectedEOF" by (simp add: reset_def readErr_def p(2))
  then show ?thesis by (simp add: p_def)
qed

theorem truncated_object_error_witness: "fst (Next (New_parser ''{x'' (None :: unit option))) = Inl UnexpectedEOF"
  using truncated_object_error[of "[Plain CHR ''x'']"] by simp

end
