(* ===== verification/Ingest_Record.thy ===== *)
theory Ingest_Record
  imports Config Intent
begin

text \<open>
  Package \<open>ingest\<close>, the pure stages on one record: \<open>sanitize.go\<close>, \<open>filter.go\<close>, \<open>taxonomy.go\<close>
  and \<open>synth.go\<close>. Parameters: \<open>json.Unmarshal\<close> into the record struct, \<open>uuid.Parse\<close>,
  \<open>uuid.String\<close>, \<open>md5.Sum\<close> and the Unicode case table. A nil slice or raw message is \<open>None\<close> where the code
  tells nil from empty. The package's map literals are association lists in source order.
\<close>

section \<open>Sanitize\<close>

record raw_record =
  rrID :: string
  rrName :: string
  rrCategory :: string
  rrSubcategory :: "string option"
  rrSpecialty :: "string option"
  rrAddress :: "string option"
  rrNeighborhood :: "string option"
  rrLatitude :: "f64 option"
  rrLongitude :: "f64 option"
  rrLemonScore :: "f64 option"
  rrGoogleRating :: "f64 option"
  rrGoogleReviewCount :: "int option"
  rrPriceRange :: "string option"
  rrHours :: string
  rrPhotos :: "string list"
  rrAbout :: "string list"
  rrUniversalTags :: "string list"
  rrSpecificTags :: "string list"
  rrIsClaimed :: bool

record raw_business =
  rbID :: uuid
  rbName :: string
  rbCategory :: string
  rbSubcategory :: "string option"
  rbSpecialty :: "string option"
  rbAddress :: "string option"
  rbNeighborhood :: "string option"
  rbLatitude :: "f64 option"
  rbLongitude :: "f64 option"
  rbLemonScore :: "f64 option"
  rbGoogleRating :: "f64 option"
  rbGoogleReviewCount :: "int option"
  rbPriceRange :: "string option"
  rbHours :: "string option"
  rbPhotos :: "string list option"
  rbAbout :: "string option"
  rbUniversalTags :: "string list option"
  rbSpecificTags :: "string list option"
  rbIsClaimed :: bool

datatype 'e sanitize_error = DecodingRecord 'e | ParsingID string 'e | HasEmptyName uuid

definition trimPtr :: "string option \<Rightarrow> string option" where
  "trimPtr s = (case s of None \<Rightarrow> None | Some v \<Rightarrow> (let t = trim_space v in if t = [] then None else Some t))"

definition normalizePrice :: "unicode \<Rightarrow> string option \<Rightarrow> string option" where
  "normalizePrice U s =
     (case s of
        None \<Rightarrow> None
      | Some v \<Rightarrow>
          (let t = to_lower U (trim_space v) in
           if t \<in> {''$'', ''affordable'', ''cheap'', ''budget''} then Some ''$''
           else if t \<in> {''$$'', ''mid-range'', ''midrange'', ''moderate''} then Some ''$$''
           else if t \<in> {''$$$'', ''premium'', ''upscale''} then Some ''$$$''
           else if t \<in> {''$$$$'', ''luxury'', ''expensive''} then Some ''$$$$''
           else None))"

definition nullableJSON :: "string \<Rightarrow> string option" where
  "nullableJSON r = (if length r = 0 \<or> r = ''null'' then None else Some r)"

fun photo_loop :: "string set \<Rightarrow> string list \<Rightarrow> string list \<Rightarrow> string list" where
  "photo_loop seen out [] = out"
| "photo_loop seen out (s # ss) =
     (let t = trim_space s in
      if t = [] then photo_loop seen out ss
      else if t \<in> seen then photo_loop seen out ss
      else photo_loop (insert t seen) (out @ [t]) ss)"

definition dedupeNonEmpty :: "string list \<Rightarrow> string list option" where
  "dedupeNonEmpty ins =
     (if length ins = 0 then None
      else (let out = photo_loop {} [] ins in if length out = 0 then None else Some out))"

fun trim_loop :: "string list \<Rightarrow> string list \<Rightarrow> string list" where
  "trim_loop out [] = out"
| "trim_loop out (s # ss) = (let t = trim_space s in trim_loop (if t \<noteq> [] then out @ [t] else out) ss)"

definition trimEach :: "string list \<Rightarrow> string list option" where
  "trimEach ins =
     (if length ins = 0 then None
      else (let out = trim_loop [] ins in if length out = 0 then None else Some out))"

definition joinAbout :: "string list \<Rightarrow> string option" where
  "joinAbout ins =
     (if length ins = 0 then None
      else (let parts = trim_loop [] ins in
            if length parts = 0 then None else Some (join [CHR 0x0A, CHR 0x0A] parts)))"

definition Sanitize :: "unicode \<Rightarrow> (string \<Rightarrow> 'e + raw_record) \<Rightarrow> (string \<Rightarrow> 'e + uuid) \<Rightarrow> string \<Rightarrow>
    'e sanitize_error + raw_business" where
  "Sanitize U unmarshal parse_id raw =
     (case unmarshal raw of
        Inl e \<Rightarrow> Inl (DecodingRecord e)
      | Inr rec \<Rightarrow>
          (case parse_id (trim_space (rrID rec)) of
             Inl e \<Rightarrow> Inl (ParsingID (rrID rec) e)
           | Inr i \<Rightarrow>
               (let name = trim_space (rrName rec) in
                if name = [] then Inl (HasEmptyName i)
                else Inr \<lparr>rbID = i, rbName = name, rbCategory = trim_space (rrCategory rec),
                  rbSubcategory = trimPtr (rrSubcategory rec), rbSpecialty = trimPtr (rrSpecialty rec),
                  rbAddress = trimPtr (rrAddress rec), rbNeighborhood = trimPtr (rrNeighborhood rec),
                  rbLatitude = rrLatitude rec, rbLongitude = rrLongitude rec,
                  rbLemonScore = rrLemonScore rec, rbGoogleRating = rrGoogleRating rec,
                  rbGoogleReviewCount = rrGoogleReviewCount rec,
                  rbPriceRange = normalizePrice U (rrPriceRange rec), rbHours = nullableJSON (rrHours rec),
                  rbPhotos = dedupeNonEmpty (rrPhotos rec), rbAbout = joinAbout (rrAbout rec),
                  rbUniversalTags = trimEach (rrUniversalTags rec),
                  rbSpecificTags = trimEach (rrSpecificTags rec), rbIsClaimed = rrIsClaimed rec\<rparr>)))"

section \<open>The geo filter\<close>

datatype geo_decision = GeoKeep | DropNonMiami | DropNoAddress

definition minLat :: f64 where "minLat = f_const (2510 / 100)"
definition maxLat :: f64 where "maxLat = f_const (2610 / 100)"
definition minLng :: f64 where "minLng = f_const (- (8095 / 100))"
definition maxLng :: f64 where "maxLng = f_const (- (8005 / 100))"

definition inMiamiBBox :: "f64 option \<Rightarrow> f64 option \<Rightarrow> bool" where
  "inMiamiBBox lat lng =
     (case (lat, lng) of
        (Some a, Some b) \<Rightarrow> f_le minLat a \<and> f_le a maxLat \<and> f_le minLng b \<and> f_le b maxLng
      | _ \<Rightarrow> False)"

text \<open>
  The regular expression \<open>(?i),\s*FL\b|,\s*Florida\b\<close>. \<open>\s\<close> and \<open>\b\<close> are ASCII classes, none of the letters
  folds together with a rune beyond ASCII, and neither word begins with a space, so matching is bytewise
  and needs no backtracking.
\<close>

definition re_space :: "char \<Rightarrow> bool" where
  "re_space c \<longleftrightarrow> byte_of c \<in> {9, 10, 12, 13, 32}"

definition re_word :: "char \<Rightarrow> bool" where
  "re_word c \<longleftrightarrow> 48 \<le> byte_of c \<and> byte_of c \<le> 57 \<or> 65 \<le> byte_of c \<and> byte_of c \<le> 90 \<or>
     byte_of c = 95 \<or> 97 \<le> byte_of c \<and> byte_of c \<le> 122"

definition word_match :: "string \<Rightarrow> string \<Rightarrow> bool" where
  "word_match w s \<longleftrightarrow> has_prefix (map ascii_lower s) w \<and>
     (case drop (length w) s of [] \<Rightarrow> True | c # _ \<Rightarrow> \<not> re_word c)"

fun flAddress :: "string \<Rightarrow> bool" where
  "flAddress [] = False"
| "flAddress (c # s) =
     (c = CHR '','' \<and> (let t = dropWhile re_space s in word_match ''fl'' t \<or> word_match ''florida'' t) \<or>
      flAddress s)"

definition GeoFilter :: "f64 option \<Rightarrow> f64 option \<Rightarrow> string \<Rightarrow> geo_decision" where
  "GeoFilter lat lng address =
     (if inMiamiBBox lat lng \<or> flAddress address then GeoKeep
      else if lat = None \<and> lng = None \<and> trim_space address = [] then DropNoAddress
      else DropNonMiami)"

section \<open>Taxonomy\<close>

datatype taxonomy_decision = TaxonomyKeep | TaxonomyBucketed | TaxonomyDrop

record taxonomy =
  txCategory :: string
  txSubcategory :: string
  txArchetype :: archetype
  txDecision :: taxonomy_decision
  txRawCategory :: string

definition categoryOther :: string where "categoryOther = ''Other''"

definition categoryVariants :: "(string \<times> string) list" where
  "categoryVariants =
  [(''food & drinks'', ''Food & Drinks''),
   (''beauty'', ''Beauty''),
   (''fitness'', ''Fitness & Wellness''),
   (''fitness & wellness'', ''Fitness & Wellness''),
   (''activities & experiences'', ''Activities & Experiences''),
   (''home'', ''Home Improvement''),
   (''home services'', ''Home Improvement''),
   (''home improvement'', ''Home Improvement''),
   (''grocery'', ''Grocery''),
   (''timesavers'', ''Time Savers''),
   (''time savers'', ''Time Savers''),
   (''car/auto'', ''Car''),
   (''auto'', ''Car''),
   (''car'', ''Car''),
   (''events'', ''Events''),
   (''pets'', ''Pets''),
   (''co-working'', ''Co-working''),
   (''coworking'', ''Co-working''),
   (''other'', categoryOther)]"

definition subcategoryVariants :: "(string \<times> string) list" where
  "subcategoryVariants =
  [(''Beauty|Nails'', ''Nail Salon''),
   (''Beauty|Hair'', ''Hair Salon''),
   (''Beauty|Studio'', ''Spa''),
   (''Events|Photography'', ''Photography & Video''),
   (''Events|DJ'', ''DJ / Music''),
   (''Car|Towing'', ''Towing & Roadside'')]"

definition categoryArchetype :: "(string \<times> archetype) list" where
  "categoryArchetype =
  [(''Food & Drinks'', ArchetypeLowStakesFastNearby),
   (''Beauty'', ArchetypeMediumStakesOccasion),
   (''Fitness & Wellness'', ArchetypeMediumStakesOccasion),
   (''Home Improvement'', ArchetypeHighStakesOneTime),
   (''Time Savers'', ArchetypeRecurringService),
   (''Pets'', ArchetypeRecurringService),
   (''Events'', ArchetypeHighStakesOneTime),
   (''Car'', ArchetypeMediumStakesOccasion),
   (''Activities & Experiences'', ArchetypeExperiential),
   (''Co-working'', ArchetypeRecurringService),
   (''Grocery'', ArchetypeUtilityDistanceDominant),
   (categoryOther, ArchetypeLowStakesFastNearby)]"

definition subcategoryArchetype :: "(string \<times> archetype) list" where
  "subcategoryArchetype =
  [(''Pets|Vet'', ArchetypeMediumStakesOccasion),
   (''Pets|Training'', ArchetypeMediumStakesOccasion),
   (''Car|Repair'', ArchetypeMediumStakesOccasion),
   (''Car|Body & Paint'', ArchetypeMediumStakesOccasion),
   (''Car|Detailing'', ArchetypeLowStakesFastNearby),
   (''Car|Tires'', ArchetypeUtilityDistanceDominant),
   (''Car|Towing & Roadside'', ArchetypeUtilityDistanceDominant),
   (''Car|Glass Repair'', ArchetypeUtilityDistanceDominant),
   (''Co-working|Day Pass'', ArchetypeUtilityDistanceDominant),
   (''Co-working|Meeting Room'', ArchetypeUtilityDistanceDominant),
   (''Co-working|Hot Desk'', ArchetypeRecurringService),
   (''Co-working|Private Office'', ArchetypeRecurringService),
   (''Co-working|Virtual Office'', ArchetypeRecurringService),
   (''Grocery|Supermarket'', ArchetypeUtilityDistanceDominant),
   (''Grocery|Convenience Store'', ArchetypeUtilityDistanceDominant),
   (''Grocery|Organic / Health Food'', ArchetypeLowStakesFastNearby),
   (''Grocery|International / Ethnic'', ArchetypeLowStakesFastNearby),
   (''Grocery|Butcher / Seafood'', ArchetypeLowStakesFastNearby),
   (''Grocery|Farmers Market'', ArchetypeLowStakesFastNearby)]"

definition normalizeSubcategory :: "string \<Rightarrow> string \<Rightarrow> string" where
  "normalizeSubcategory category rawSubcategory =
     (case map_of subcategoryVariants (category @ ''|'' @ rawSubcategory) of
        Some n \<Rightarrow> n
      | None \<Rightarrow> rawSubcategory)"

text \<open>An absent key of a Go map of strings reads as the empty string.\<close>

definition archetypeFor :: "string \<Rightarrow> string \<Rightarrow> archetype" where
  "archetypeFor category subcategory =
     (case map_of subcategoryArchetype (category @ ''|'' @ subcategory) of
        Some a \<Rightarrow> a
      | None \<Rightarrow> (case map_of categoryArchetype category of Some a \<Rightarrow> a | None \<Rightarrow> []))"

definition Normalize :: "unicode \<Rightarrow> string \<Rightarrow> string \<Rightarrow> taxonomy" where
  "Normalize U rawCategory rawSubcategory =
     (let raw = trim_space rawCategory; sub = trim_space rawSubcategory in
      if raw = [] \<or> equal_fold_ascii raw ''none''
      then \<lparr>txCategory = [], txSubcategory = [], txArchetype = [], txDecision = TaxonomyDrop, txRawCategory = raw\<rparr>
      else (case map_of categoryVariants (to_lower U raw) of
              None \<Rightarrow> \<lparr>txCategory = categoryOther, txSubcategory = sub,
                        txArchetype = ArchetypeLowStakesFastNearby, txDecision = TaxonomyBucketed,
                        txRawCategory = raw\<rparr>
            | Some category \<Rightarrow>
                (let subcategory = normalizeSubcategory category sub in
                 \<lparr>txCategory = category, txSubcategory = subcategory,
                  txArchetype = archetypeFor category subcategory, txDecision = TaxonomyKeep,
                  txRawCategory = raw\<rparr>)))"

section \<open>Synthesized signals\<close>

text \<open>\<open>int(x)\<close> truncates; out of range (and NaN) it is the implementation's minimum integer.\<close>

fun f_to_int :: "f64 \<Rightarrow> int" where
  "f_to_int (Fin x) = (if x < 0 then \<lceil>x\<rceil> else \<lfloor>x\<rfloor>)"
| "f_to_int _ = - (2 ^ 63)"

definition friendNonzeroRate :: f64 where "friendNonzeroRate = f_const (3 / 100)"
definition friendMax :: f64 where "friendMax = f_const 5"
definition claimedRate :: f64 where "claimedRate = f_const (20 / 100)"
definition uint32Range :: f64 where "uint32Range = f_const 4294967296"

text \<open>\<open>binary.BigEndian.Uint32\<close>; a shorter slice panics, an MD5 digest has sixteen bytes.\<close>

fun BigEndian_Uint32 :: "8 word list \<Rightarrow> int" where
  "BigEndian_Uint32 (b0 # b1 # b2 # b3 # _) = uint b0 * 2 ^ 24 + uint b1 * 2 ^ 16 + uint b2 * 2 ^ 8 + uint b3"
| "BigEndian_Uint32 _ = 0"

definition seed01 :: "(string \<Rightarrow> 8 word list) \<Rightarrow> string \<Rightarrow> f64" where
  "seed01 md5 s = f_div (f_of_int (BigEndian_Uint32 (take 4 (md5 s)))) uint32Range"

definition Claimed :: "(string \<Rightarrow> 8 word list) \<Rightarrow> (uuid \<Rightarrow> string) \<Rightarrow> uuid \<Rightarrow> bool" where
  "Claimed md5 ustr i \<longleftrightarrow> f_lt (seed01 md5 (ustr i @ '':claimed'')) claimedRate"

definition FriendCount :: "(string \<Rightarrow> 8 word list) \<Rightarrow> (uuid \<Rightarrow> string) \<Rightarrow> uuid \<Rightarrow> int" where
  "FriendCount md5 ustr i =
     (if f_le friendNonzeroRate (seed01 md5 (ustr i @ '':friends'')) then 0
      else 1 + f_to_int (f_mul (seed01 md5 (ustr i @ '':friend_n'')) friendMax))"

section \<open>Facts\<close>

subsection \<open>Sanitized values\<close>

definition clean :: "string \<Rightarrow> bool" where
  "clean s \<longleftrightarrow> s \<noteq> [] \<and> trim_space s = s"

definition price_tiers :: "string list" where
  "price_tiers = [''$'', ''$$'', ''$$$'', ''$$$$'']"

text \<open>What a sanitized record promises the columns: no blank text, no empty array, the price
  one of the four tiers, photos without repetition.\<close>

definition sanitized :: "raw_business \<Rightarrow> bool" where
  "sanitized b \<longleftrightarrow> clean (rbName b) \<and> trim_space (rbCategory b) = rbCategory b \<and>
     list_all (pred_option clean) [rbSubcategory b, rbSpecialty b, rbAddress b, rbNeighborhood b] \<and>
     pred_option (\<lambda>p. p \<in> set price_tiers) (rbPriceRange b) \<and>
     pred_option (\<lambda>h. h \<noteq> [] \<and> h \<noteq> ''null'') (rbHours b) \<and>
     pred_option (\<lambda>ps. ps \<noteq> [] \<and> distinct ps \<and> list_all clean ps) (rbPhotos b) \<and>
     pred_option (\<lambda>a. a \<noteq> []) (rbAbout b) \<and>
     list_all (pred_option (\<lambda>ts. ts \<noteq> [] \<and> list_all clean ts)) [rbUniversalTags b, rbSpecificTags b]"

lemma clean_trim [simp]: "clean (trim_space s) \<longleftrightarrow> trim_space s \<noteq> []"
  by (simp add: clean_def)

lemma trimPtr_clean: "pred_option clean (trimPtr s)"
  by (auto simp: trimPtr_def Let_def clean_def split: option.split)

lemma normalizePrice_tier: "pred_option (\<lambda>p. p \<in> set price_tiers) (normalizePrice U s)"
  by (simp add: normalizePrice_def price_tiers_def Let_def split: option.split)

lemma nullableJSON_wf: "pred_option (\<lambda>h. h \<noteq> [] \<and> h \<noteq> ''null'') (nullableJSON r)"
  by (auto simp: nullableJSON_def)

definition trimmed :: "string list \<Rightarrow> string list" where
  "trimmed ss = filter (\<lambda>t. t \<noteq> []) (map trim_space ss)"

lemma trim_loop_eq: "trim_loop out ss = out @ trimmed ss"
  by (induction out ss rule: trim_loop.induct) (auto simp: trimmed_def Let_def)

lemma trimmed_clean: "list_all clean (trimmed ss)"
  by (auto simp: trimmed_def clean_def list_all_iff)

lemma trimmed_id: "list_all clean ss \<Longrightarrow> trimmed ss = ss"
  by (induction ss) (auto simp: trimmed_def clean_def)

lemma photo_loop_eq:
  "photo_loop seen out ss = out @ first_per_key id (filter (\<lambda>t. t \<notin> seen) (trimmed ss))"
proof (induction seen out ss rule: photo_loop.induct)
  case (2 seen out s ss)
  then show ?case by (auto simp: trimmed_def Let_def conj_ac)
qed (simp add: trimmed_def)

lemma dedupeNonEmpty_eq:
  "dedupeNonEmpty ss = (if trimmed ss = [] then None else Some (first_per_key id (trimmed ss)))"
  by (cases "trimmed ss") (auto simp: dedupeNonEmpty_def photo_loop_eq trimmed_def)

lemma trimEach_eq: "trimEach ss = (if trimmed ss = [] then None else Some (trimmed ss))"
  by (auto simp: trimEach_def trim_loop_eq trimmed_def)

lemma joinAbout_eq:
  "joinAbout ss = (if trimmed ss = [] then None else Some (join [CHR 0x0A, CHR 0x0A] (trimmed ss)))"
  by (auto simp: joinAbout_def trim_loop_eq trimmed_def)

lemma join_neq_Nil: "ss \<noteq> [] \<Longrightarrow> list_all clean ss \<Longrightarrow> join sep ss \<noteq> []"
  by (induction sep ss rule: join.induct) (auto simp: clean_def)

lemma first_per_key_Nil [simp]: "first_per_key key xs = [] \<longleftrightarrow> xs = []"
  by (cases xs) auto

lemma sanitized_lists:
  "pred_option (\<lambda>ps. ps \<noteq> [] \<and> distinct ps \<and> list_all clean ps) (dedupeNonEmpty ss)"
  "pred_option (\<lambda>ts. ts \<noteq> [] \<and> list_all clean ts) (trimEach ss)"
  "pred_option (\<lambda>a. a \<noteq> []) (joinAbout ss)"
  using trimmed_clean[of ss] distinct_first_per_key[of id "trimmed ss"] set_first_per_key_subset[of id "trimmed ss"]
  by (auto simp: dedupeNonEmpty_eq trimEach_eq joinAbout_eq join_neq_Nil list_all_iff)

lemma Sanitize_aux: "Sanitize U unmarshal parse_id raw = Inr b \<Longrightarrow> sanitized b"
  by (auto simp: Sanitize_def sanitized_def Let_def sanitized_lists normalizePrice_tier nullableJSON_wf
      trimPtr_clean split: sum.splits if_splits)

text \<open>The sanitizer's field maps applied to a value already stored give it back.\<close>

lemma trimPtr_id: "pred_option clean s \<Longrightarrow> trimPtr s = s"
  by (cases s) (auto simp: trimPtr_def clean_def)

lemma trimEach_id: "list_all clean ss \<Longrightarrow> ss \<noteq> [] \<Longrightarrow> trimEach ss = Some ss"
  by (simp add: trimEach_eq trimmed_id)

lemma dedupeNonEmpty_id: "list_all clean ss \<Longrightarrow> distinct ss \<Longrightarrow> ss \<noteq> [] \<Longrightarrow> dedupeNonEmpty ss = Some ss"
  by (simp add: dedupeNonEmpty_eq trimmed_id first_per_key_distinct)

lemma price_tier_fixed: "p \<in> set price_tiers \<Longrightarrow> normalizePrice U (Some p) = Some p"
proof -
  have "is_ascii p \<and> trim_space p = p \<and> map ascii_lower p = p" if "p \<in> set price_tiers"
    using that by (auto simp: price_tiers_def is_space_def ascii_lower_def intro!: trim_space_ascii_fixed)
  then show "p \<in> set price_tiers \<Longrightarrow> normalizePrice U (Some p) = Some p"
    by (auto simp: normalizePrice_def to_lower_ascii price_tiers_def)
qed

subsection \<open>The taxonomy\<close>

definition spec_categories :: "string list" where
  "spec_categories = map fst categoryArchetype"

lemmas taxonomy_tables = categoryVariants_def subcategoryVariants_def categoryArchetype_def
  subcategoryArchetype_def categoryOther_def

lemma categoryVariants_spec: "map_of categoryVariants k = Some c \<Longrightarrow> c \<in> set spec_categories"
proof -
  have "list_all (\<lambda>(k, c). c \<in> set spec_categories) categoryVariants"
    by (simp add: taxonomy_tables spec_categories_def)
  then show "map_of categoryVariants k = Some c \<Longrightarrow> c \<in> set spec_categories"
    by (auto dest!: map_of_SomeD simp: list_all_iff)
qed

lemma archetype_tables_valid:
  "list_all (\<lambda>(k, a). a \<in> set all_archetypes) subcategoryArchetype"
  "list_all (\<lambda>(k, a). a \<in> set all_archetypes) categoryArchetype"
  by (simp_all add: taxonomy_tables all_archetypes_def)

lemma archetypeFor_valid:
  assumes "c \<in> set spec_categories"
  shows "archetypeFor c s \<in> set all_archetypes"
proof -
  obtain a where "map_of categoryArchetype c = Some a"
    using assms by (auto simp: spec_categories_def dest!: weak_map_of_SomeI)
  then show ?thesis
    using archetype_tables_valid
    by (auto simp: archetypeFor_def list_all_iff split: option.split dest!: map_of_SomeD)
qed

lemma spec_categories_eq:
  "spec_categories = [''Food & Drinks'', ''Beauty'', ''Fitness & Wellness'', ''Home Improvement'', ''Time Savers'',
    ''Pets'', ''Events'', ''Car'', ''Activities & Experiences'', ''Co-working'', ''Grocery'', ''Other'']"
  by (simp add: spec_categories_def taxonomy_tables)

lemma spec_category_fixed:
  assumes "c \<in> set spec_categories"
  shows "c \<noteq> [] \<and> trim_space c = c \<and> \<not> equal_fold_ascii c ''none'' \<and> map_of categoryVariants (to_lower U c) = Some c"
proof -
  have "list_all (\<lambda>c. is_ascii c \<and> c \<noteq> [] \<and> \<not> is_space (byte_of (hd c)) \<and> \<not> is_space (byte_of (last c)))
      spec_categories" by (simp add: spec_categories_eq is_space_def)
  moreover have "list_all (\<lambda>c. \<not> equal_fold_ascii c ''none'' \<and> map_of categoryVariants (map ascii_lower c) = Some c)
      spec_categories" unfolding spec_categories_eq by code_simp
  ultimately show ?thesis using assms by (simp add: list_all_iff to_lower_ascii trim_space_ascii_fixed)
qed

text \<open>No rewritten subcategory is itself a variant of its category: a key is split at its only bar.\<close>

definition before_bar :: "string \<Rightarrow> string" where
  "before_bar k = takeWhile (\<lambda>x. x \<noteq> CHR ''|'') k"

lemma variant_keys:
  "list_all (\<lambda>(k, n). length (filter (\<lambda>x. x = CHR ''|'') k) = 1 \<and>
     map_of subcategoryVariants (before_bar k @ ''|'' @ n) = None) subcategoryVariants"
  by code_simp

lemma before_bar_key: "length (filter (\<lambda>x. x = CHR ''|'') (c @ ''|'' @ s)) = 1 \<Longrightarrow> before_bar (c @ ''|'' @ s) = c"
proof -
  assume "length (filter (\<lambda>x. x = CHR ''|'') (c @ ''|'' @ s)) = 1"
  then have "CHR ''|'' \<notin> set c" by (auto simp: filter_empty_conv)
  then show ?thesis unfolding before_bar_def by (induction c) auto
qed

lemma subcategory_fixed: "normalizeSubcategory c (normalizeSubcategory c s) = normalizeSubcategory c s"
proof (cases "map_of subcategoryVariants (c @ ''|'' @ s)")
  case (Some n)
  from map_of_SomeD[OF Some] variant_keys have
    "length (filter (\<lambda>x. x = CHR ''|'') (c @ ''|'' @ s)) = 1"
    "map_of subcategoryVariants (before_bar (c @ ''|'' @ s) @ ''|'' @ n) = None"
    unfolding list_all_iff by (auto simp only: split: prod.splits)
  with Some show ?thesis by (simp only: before_bar_key normalizeSubcategory_def option.case)
qed (simp add: normalizeSubcategory_def)

lemma normalizeSubcategory_trim: "trim_space s = s \<Longrightarrow> trim_space (normalizeSubcategory c s) = normalizeSubcategory c s"
proof -
  have "list_all (\<lambda>(k, n). is_ascii n \<and> \<not> is_space (byte_of (hd n)) \<and> \<not> is_space (byte_of (last n))) subcategoryVariants"
    by (simp add: subcategoryVariants_def is_space_def)
  then have "list_all (\<lambda>(k, n). trim_space n = n) subcategoryVariants"
    by (auto simp: list_all_iff intro: trim_space_ascii_fixed)
  then show "trim_space s = s \<Longrightarrow> trim_space (normalizeSubcategory c s) = normalizeSubcategory c s"
    by (auto simp: normalizeSubcategory_def list_all_iff split: option.split dest!: map_of_SomeD)
qed

lemma Other_no_variant: "normalizeSubcategory categoryOther s = s"
  by (simp add: normalizeSubcategory_def taxonomy_tables)

lemma Other_archetype: "archetypeFor categoryOther s = ArchetypeLowStakesFastNearby"
  by (simp add: archetypeFor_def taxonomy_tables)

lemma categoryOther_spec: "categoryOther \<in> set spec_categories"
  by (simp add: spec_categories_def taxonomy_tables)

lemma Normalize_kept:
  assumes "txDecision (Normalize U c s) \<noteq> TaxonomyDrop"
  shows "txCategory (Normalize U c s) \<in> set spec_categories"
    and "trim_space (txSubcategory (Normalize U c s)) = txSubcategory (Normalize U c s)"
    and "txSubcategory (Normalize U c s) =
      normalizeSubcategory (txCategory (Normalize U c s)) (txSubcategory (Normalize U c s))"
    and "txArchetype (Normalize U c s) = archetypeFor (txCategory (Normalize U c s)) (txSubcategory (Normalize U c s))"
  using assms
  by (auto simp: Normalize_def Let_def categoryVariants_spec normalizeSubcategory_trim subcategory_fixed
      Other_no_variant Other_archetype categoryOther_spec split: option.splits if_splits)

lemma Normalize_closed_aux:
  "txDecision (Normalize U c s) = TaxonomyDrop \<longleftrightarrow> trim_space c = [] \<or> equal_fold_ascii (trim_space c) ''none''"
  by (auto simp: Normalize_def Let_def split: option.split)

lemma Normalize_spec_category:
  assumes "c \<in> set spec_categories"
  shows "Normalize U c s = \<lparr>txCategory = c, txSubcategory = normalizeSubcategory c (trim_space s),
    txArchetype = archetypeFor c (normalizeSubcategory c (trim_space s)), txDecision = TaxonomyKeep, txRawCategory = c\<rparr>"
  using spec_category_fixed[OF assms, of U] by (simp add: Normalize_def Let_def)

subsection \<open>The synthesized signals\<close>

lemma BigEndian_bounds: "0 \<le> BigEndian_Uint32 bs \<and> BigEndian_Uint32 bs < 2 ^ 32"
proof (cases bs rule: BigEndian_Uint32.cases)
  case (1 b0 b1 b2 b3 r)
  have "uint b < 256" for b :: "8 word" using uint_lt2p[of b] by simp
  from this[of b0] this[of b1] this[of b2] this[of b3] show ?thesis
    using uint_ge_0[of b0] uint_ge_0[of b1] uint_ge_0[of b2] uint_ge_0[of b3] unfolding 1 by simp
qed simp_all

lemma uint32Range_eq: "uint32Range = Fin 4294967296"
  unfolding uint32Range_def f_const_def by (rule fround_numeral) simp

lemma friendMax_eq: "friendMax = Fin 5"
  unfolding friendMax_def f_const_def by (rule fround_numeral) simp

definition draw :: "(string \<Rightarrow> 8 word list) \<Rightarrow> string \<Rightarrow> int" where
  "draw md5 s = BigEndian_Uint32 (take 4 (md5 s))"

lemma draw_bounds: "0 \<le> draw md5 s" "draw md5 s < 2 ^ 32"
  using BigEndian_bounds[of "take 4 (md5 s)"] by (simp_all add: draw_def)

lemma seed01_eq: "seed01 md5 s = Fin (of_int (draw md5 s) / 4294967296)"
proof -
  have "fround (of_int (draw md5 s) / 2 ^ 32) = Fin (of_int (draw md5 s) / 2 ^ 32)"
    using draw_bounds[of md5 s] by (intro fround_dyadic) simp_all
  then show ?thesis
    using draw_bounds[of md5 s] unfolding seed01_def draw_def[symmetric]
    by (simp add: f_of_int_small uint32Range_eq)
qed

lemma seed01_unit: "unit_f (seed01 md5 s)"
  using draw_bounds[of md5 s] by (simp add: seed01_eq)

text \<open>A rate that is no multiple of \<open>2 ^ -32\<close> rounds to a value between the same two multiples.\<close>

lemma fround_between:
  assumes "of_int (8 * k + 1) / 2 ^ 35 \<le> q" "q \<le> of_int (k + 1) / 2 ^ 32" "0 \<le> k" "k < 2 ^ 32"
  shows "\<exists>r. fround q = Fin r \<and> of_int k / 2 ^ 32 < r \<and> r \<le> of_int (k + 1) / 2 ^ 32"
proof -
  have "fround (of_int (8 * k + 1) / 2 ^ 35) = Fin (of_int (8 * k + 1) / 2 ^ 35)"
    using assms(3,4) by (intro fround_dyadic) simp_all
  then have lo: "f_le (Fin (of_int (8 * k + 1) / 2 ^ 35)) (fround q)" using fround_mono[OF assms(1)] by simp
  have "fround (of_int (k + 1) / 2 ^ 32) = Fin (of_int (k + 1) / 2 ^ 32)"
    using assms(3,4) by (intro fround_dyadic) simp_all
  then have hi: "f_le (fround q) (Fin (of_int (k + 1) / 2 ^ 32))" using fround_mono[OF assms(2)] by simp
  from lo hi obtain r where r: "fround q = Fin r" by (cases "fround q") auto
  with lo hi have "of_int (8 * k + 1) / 2 ^ 35 \<le> r" "r \<le> of_int (k + 1) / 2 ^ 32" by simp_all
  with r show ?thesis by simp
qed

lemma below_iff:
  fixes r :: real
  assumes "of_int k / 4294967296 < r" "r \<le> of_int (k + 1) / 4294967296"
  shows "of_int n / 4294967296 < r \<longleftrightarrow> n < k + 1"
proof (cases "n < k + 1")
  case True
  then have "real_of_int n / 4294967296 \<le> of_int k / 4294967296" by (intro divide_right_mono) simp_all
  with True assms(1) show ?thesis by simp
next
  case False
  then have "real_of_int (k + 1) / 4294967296 \<le> of_int n / 4294967296" by (intro divide_right_mono) simp_all
  with False assms(2) show ?thesis by simp
qed

lemma claimed_threshold: "f_lt (Fin (of_int n / 4294967296)) claimedRate \<longleftrightarrow> n < 858993460"
proof -
  obtain r where r: "claimedRate = Fin r" "of_int 858993459 / 4294967296 < r" "r \<le> of_int (858993459 + 1) / 4294967296"
    using fround_between[of 858993459 "20 / 100"] unfolding claimedRate_def f_const_def by auto
  show ?thesis unfolding r(1) f_lt.simps below_iff[OF r(2,3)] by simp
qed

lemma friend_threshold: "f_le friendNonzeroRate (Fin (of_int n / 4294967296)) \<longleftrightarrow> 128849019 \<le> n"
proof -
  obtain r where r: "friendNonzeroRate = Fin r" "of_int 128849018 / 4294967296 < r" "r \<le> of_int (128849018 + 1) / 4294967296"
    using fround_between[of 128849018 "3 / 100"] unfolding friendNonzeroRate_def f_const_def by auto
  show ?thesis unfolding r(1) f_le_Fin not_less[symmetric] below_iff[OF r(2,3)] by simp
qed

lemma friend_value: "f_to_int (f_mul (seed01 md5 s) friendMax) = 5 * draw md5 s div 2 ^ 32"
proof -
  have "fround (of_int (5 * draw md5 s) / 2 ^ 32) = Fin (of_int (5 * draw md5 s) / 2 ^ 32)"
    using draw_bounds[of md5 s] by (intro fround_dyadic) simp_all
  then have "f_mul (seed01 md5 s) friendMax = Fin (of_int (5 * draw md5 s) / of_int (2 ^ 32))"
    by (simp add: seed01_eq friendMax_eq mult.commute)
  moreover have "\<lfloor>real_of_int (5 * draw md5 s) / real_of_int (2 ^ 32)\<rfloor> = 5 * draw md5 s div 2 ^ 32"
    by (rule floor_divide_of_int_eq)
  moreover have "0 \<le> real_of_int (5 * draw md5 s) / real_of_int (2 ^ 32)" using draw_bounds[of md5 s] by simp
  ultimately show ?thesis by (simp only: f_to_int.simps not_less[symmetric] if_False)
qed

lemma FriendCount_eq:
  "FriendCount md5 ustr i =
     (if draw md5 (ustr i @ '':friends'') < 128849019 then 1 + 5 * draw md5 (ustr i @ '':friend_n'') div 2 ^ 32 else 0)"
  using friend_threshold[of "draw md5 (ustr i @ '':friends'')"]
  by (auto simp: FriendCount_def friend_value seed01_eq[of md5 "ustr i @ '':friends''"])

lemma friend_share: "0 \<le> 5 * draw md5 s div 2 ^ 32 \<and> 5 * draw md5 s div 2 ^ 32 < 5"
  using draw_bounds[of md5 s] by (simp add: div_less_iff_less_mult pos_imp_zdiv_nonneg_iff)

lemma FriendCount_range:
  "0 \<le> FriendCount md5 ustr i" "FriendCount md5 ustr i \<le> 5"
  "0 < FriendCount md5 ustr i \<longleftrightarrow> draw md5 (ustr i @ '':friends'') < 128849019"
  using friend_share[of md5 "ustr i @ '':friend_n''"] unfolding FriendCount_eq by (simp_all only: if_split) auto

subsection \<open>The vocabulary of the lexicon\<close>

definition rule_vocabulary :: "rule \<Rightarrow> bool" where
  "rule_vocabulary r \<longleftrightarrow> (rlCategory r = [] \<or> rlCategory r \<in> set spec_categories) \<and>
     list_all (\<lambda>p. p \<in> set price_tiers) (rlPrice r) \<and>
     list_all (\<lambda>s. list_all (\<lambda>c. normalizeSubcategory c s = s) spec_categories) (rlSubcategory r)"

lemma lexicon_vocabulary: "list_all (\<lambda>(t, r). rule_vocabulary r) lexicon"
  by code_simp

lemma hits_vocabulary: "list_all rule_vocabulary (hits ts)"
proof (induction ts)
  case (Cons t ts)
  then show ?case using lexicon_vocabulary
    by (auto simp: list_all_iff split: option.split dest!: map_of_SomeD)
qed simp

section \<open>Properties\<close>

text \<open>Sanitizing a record either yields a clean row - no blank text, no empty array, a price among
  the four tiers, photos without repetition, under the parsed id and the trimmed name - or
  fails for one of the three reasons: the record does not decode, the id does not parse, the
  name is blank.\<close>

theorem Sanitize_outcome:
  "case Sanitize U unmarshal parse_id raw of
     Inr b \<Rightarrow> sanitized b \<and> (\<exists>rec. unmarshal raw = Inr rec \<and>
       parse_id (trim_space (rrID rec)) = Inr (rbID b) \<and> rbName b = trim_space (rrName rec))
   | Inl e \<Rightarrow> (case unmarshal raw of Inl x \<Rightarrow> e = DecodingRecord x
       | Inr rec \<Rightarrow> (case parse_id (trim_space (rrID rec)) of Inl x \<Rightarrow> e = ParsingID (rrID rec) x
           | Inr i \<Rightarrow> e = HasEmptyName i \<and> trim_space (rrName rec) = []))"
  using Sanitize_aux[of U unmarshal parse_id raw]
  by (auto simp: Sanitize_def Let_def split: sum.splits if_splits)

text \<open>C30. The taxonomy is closed: a record that is not dropped gets one of the twelve spec categories
  and a known archetype, and one is dropped exactly when its trimmed category is empty or
  spells \<open>none\<close>.\<close>

theorem Normalize_closed:
  "if trim_space c = [] \<or> equal_fold_ascii (trim_space c) ''none''
   then txDecision (Normalize U c s) = TaxonomyDrop
   else txDecision (Normalize U c s) \<noteq> TaxonomyDrop \<and>
     txCategory (Normalize U c s) \<in> set spec_categories \<and>
     txArchetype (Normalize U c s) \<in> set all_archetypes"
  using Normalize_closed_aux[of U c s] Normalize_kept[of U c s] by (simp add: archetypeFor_valid)

text \<open>Normalizing what was stored changes nothing: fed its own category and subcategory, the
  normalizer returns them with the same archetype, so re-ingesting an exported row is stable.\<close>

theorem Normalize_idempotent:
  assumes "txDecision (Normalize U c s) \<noteq> TaxonomyDrop"
  defines "t \<equiv> Normalize U c s"
  shows "Normalize U (txCategory t) (txSubcategory t) = t\<lparr>txDecision := TaxonomyKeep, txRawCategory := txCategory t\<rparr>"
proof -
  note k = Normalize_kept[OF assms(1), folded t_def]
  show ?thesis
    by (cases t) (use Normalize_spec_category[OF k(1), of U "txSubcategory t"] k(2-4) in simp)
qed

theorem Normalize_idempotent_witness:
  "txDecision (Normalize basic_unicode ''Car/Auto'' ''Towing'') \<noteq> TaxonomyDrop \<and>
   Normalize basic_unicode (txCategory (Normalize basic_unicode ''Car/Auto'' ''Towing''))
     (txSubcategory (Normalize basic_unicode ''Car/Auto'' ''Towing'')) =
   (Normalize basic_unicode ''Car/Auto'' ''Towing'')\<lparr>txDecision := TaxonomyKeep,
     txRawCategory := txCategory (Normalize basic_unicode ''Car/Auto'' ''Towing'')\<rparr>"
proof -
  have "trim_space ''Car/Auto'' = ''Car/Auto''" by (rule trim_space_ascii_fixed) (simp_all add: is_space_def)
  then have "txDecision (Normalize basic_unicode ''Car/Auto'' ''Towing'') \<noteq> TaxonomyDrop"
    by (simp add: Normalize_def Let_def equal_fold_ascii_def ascii_lower_def split: option.split)
  with Normalize_idempotent[OF this] show ?thesis by blast
qed

text \<open>Query filters and stored rows speak the same vocabulary: every category a query can ask for
  is one the taxonomy assigns, every price tier one the sanitizer keeps, and no requested
  subcategory is a raw variant the taxonomy rewrites.\<close>

theorem Extract_vocabulary:
  "pred_option (\<lambda>c. c \<in> set spec_categories) (ovCategoryFilter (Extract U q)) \<and>
   list_all (\<lambda>p. normalizePrice U (Some p) = Some p) (ovPriceFilter (Extract U q)) \<and>
   list_all (\<lambda>s. list_all (\<lambda>c. normalizeSubcategory c s = s) spec_categories) (ovSubcategoryFilter (Extract U q))"
proof -
  let ?hs = "hits (terms (normalize_query U q))"
  let ?cs = "rev (filter (\<lambda>c. c \<noteq> []) (map rlCategory ?hs))"
  have v: "h \<in> set ?hs \<Longrightarrow> rule_vocabulary h" for h
    using hits_vocabulary by (simp add: list_all_iff)
  have "c \<in> set spec_categories" if "c \<in> set ?cs" for c
    using that v by (auto simp: rule_vocabulary_def)
  then have "pred_option (\<lambda>c. c \<in> set spec_categories) (case ?cs of [] \<Rightarrow> ovCategoryFilter zero_overlay | c # _ \<Rightarrow> Some c)"
    by (cases ?cs) (auto simp: zero_overlay_def)
  moreover have "normalizePrice U (Some p) = Some p" if "p \<in> set (concat (map rlPrice ?hs))" for p
    using that v by (auto simp: rule_vocabulary_def list_all_iff price_tier_fixed)
  moreover have "list_all (\<lambda>c. normalizeSubcategory c s = s) spec_categories"
    if "s \<in> set (concat (map rlSubcategory ?hs))" for s
    using that v by (auto simp: rule_vocabulary_def list_all_iff)
  ultimately show ?thesis
    unfolding Extract_def extract_loop_fold fold_merge_fields
    by (simp add: zero_overlay_def list_all_iff)
qed

text \<open>The synthesized signals are exact functions of the digest's first four bytes: a business is
  claimed iff they are below \<open>858993460 = \<lceil>0.2 * 2^32\<rceil>\<close>; it has friends iff they are below
  \<open>128849019 = \<lceil>0.03 * 2^32\<rceil>\<close>, and then one to five of them.\<close>

theorem synth_thresholds:
  "(Claimed md5 ustr i \<longleftrightarrow> draw md5 (ustr i @ '':claimed'') < 858993460) \<and>
   (0 < FriendCount md5 ustr i \<longleftrightarrow> draw md5 (ustr i @ '':friends'') < 128849019) \<and>
   0 \<le> FriendCount md5 ustr i \<and> FriendCount md5 ustr i \<le> 5"
  using FriendCount_range[of md5 ustr i] by (simp add: Claimed_def seed01_eq claimed_threshold)

end
