(* ===== verification/Ingest_Loader.thy ===== *)
theory Ingest_Loader
  imports Domain
begin

text \<open>
  Package \<open>ingest\<close>, \<open>loader.go\<close>: the COPY into a staging table and the upsert. Load's one source of
  nondeterminism is the \<open>select\<close> in \<open>copyAll\<close>, so it is a function of the sequence of events the
  select yields (a row, the closed channel, the done context). The database is the
  businesses table, a map from ids; a round trip may fail as the parameter \<open>dbTrip\<close> says, a failed commit may have
  taken effect, and COPY reports a row count. The columns convert what they are given and may refuse it. The staging table is created like businesses with its indexes, so a
  second row with an id violates its primary key.
\<close>

section \<open>Rows\<close>

record business =
  bzID :: uuid
  bzName :: string
  bzCategory :: string
  bzSubcategory :: "string option"
  bzSpecialty :: "string option"
  bzArchetype :: archetype
  bzAddress :: "string option"
  bzNeighborhood :: "string option"
  bzLatitude :: "f64 option"
  bzLongitude :: "f64 option"
  bzLemonScore :: "f64 option"
  bzGoogleRating :: "f64 option"
  bzGoogleReviewCount :: "int option"
  bzPriceRange :: "string option"
  bzHours :: "string option"
  bzPhotos :: "string list option"
  bzAbout :: "string option"
  bzUniversalTags :: "string list option"
  bzSpecificTags :: "string list option"
  bzIsClaimed :: bool
  bzFriendCount :: int

text \<open>The values of a COPY tuple; \<open>None\<close> is SQL NULL.\<close>

datatype sql_value =
    VUuid uuid
  | VText "string option"
  | VFloat "f64 option"
  | VInt "int option"
  | VJson "string option"
  | VTexts "string list option"
  | VBool bool

definition copyColumns :: "string list" where
  "copyColumns =
    [''id'', ''name'', ''category'', ''subcategory'', ''specialty'', ''archetype'',
     ''address'', ''neighborhood'', ''latitude'', ''longitude'',
     ''lemon_score'', ''google_rating'', ''google_review_count'', ''price_range'',
     ''hours'', ''photos'', ''about'', ''universal_tags'', ''specific_tags'',
     ''is_claimed'', ''friend_count'']"

definition copyValues :: "business \<Rightarrow> sql_value list" where
  "copyValues b =
    [VUuid (bzID b), VText (Some (bzName b)), VText (Some (bzCategory b)), VText (bzSubcategory b),
     VText (bzSpecialty b), VText (Some (bzArchetype b)),
     VText (bzAddress b), VText (bzNeighborhood b), VFloat (bzLatitude b), VFloat (bzLongitude b),
     VFloat (bzLemonScore b), VFloat (bzGoogleRating b), VInt (bzGoogleReviewCount b), VText (bzPriceRange b),
     VJson (bzHours b), VTexts (bzPhotos b), VText (bzAbout b), VTexts (bzUniversalTags b), VTexts (bzSpecificTags b),
     VBool (bzIsClaimed b), VInt (Some (bzFriendCount b))]"

text \<open>The staging table's reading of a tuple, column by column under its name; the record's fields are the
  columns of the schema (migration 0001). A value of another type than its column is refused.
  What the types of the database do to the values: a text the server's encoding refuses (a zero byte,
  invalid UTF-8) is an error, a \<open>real\<close> keeps the nearest \<open>float32\<close>, an \<open>integer\<close> outside 32 bits is an
  error, a \<open>jsonb\<close> is parsed and kept as the server prints it. The text encoding, the
  JSON parser, and which rows \<open>ll_to_earth\<close> and \<open>to_tsvector\<close> accept are parameters.\<close>

record col_types =
  ctText :: "string \<Rightarrow> bool"
  ctJson :: "string \<Rightarrow> string option"
  ctComputes :: "business \<Rightarrow> bool"

definition int4 :: "int \<Rightarrow> bool" where
  "int4 n \<longleftrightarrow> - (2 ^ 31) \<le> n \<and> n < 2 ^ 31"

text \<open>An input conversion of a nullable column: NULL stays NULL.\<close>

definition nullable :: "('a \<Rightarrow> 'b option) \<Rightarrow> 'a option \<Rightarrow> 'b option option" where
  "nullable f v = (case v of None \<Rightarrow> Some None | Some x \<Rightarrow> map_option Some (f x))"

definition checked :: "('a \<Rightarrow> bool) \<Rightarrow> 'a \<Rightarrow> 'a option" where
  "checked ok x = (if ok x then Some x else None)"

definition col_uuid :: "sql_value option \<Rightarrow> uuid option" where
  "col_uuid v = (case v of Some (VUuid u) \<Rightarrow> Some u | _ \<Rightarrow> None)"

definition col_text :: "col_types \<Rightarrow> sql_value option \<Rightarrow> string option option" where
  "col_text ty v = (case v of Some (VText t) \<Rightarrow> nullable (checked (ctText ty)) t | _ \<Rightarrow> None)"

definition col_float8 :: "sql_value option \<Rightarrow> f64 option option" where
  "col_float8 v = (case v of Some (VFloat t) \<Rightarrow> Some t | _ \<Rightarrow> None)"

definition col_real :: "sql_value option \<Rightarrow> f32 option option" where
  "col_real v = (case v of Some (VFloat t) \<Rightarrow> Some (map_option f_to_f32 t) | _ \<Rightarrow> None)"

definition col_int4 :: "sql_value option \<Rightarrow> int option option" where
  "col_int4 v = (case v of Some (VInt t) \<Rightarrow> nullable (checked int4) t | _ \<Rightarrow> None)"

definition col_jsonb :: "col_types \<Rightarrow> sql_value option \<Rightarrow> string option option" where
  "col_jsonb ty v = (case v of Some (VJson t) \<Rightarrow> nullable (ctJson ty) t | _ \<Rightarrow> None)"

definition col_texts :: "col_types \<Rightarrow> sql_value option \<Rightarrow> string list option option" where
  "col_texts ty v = (case v of Some (VTexts t) \<Rightarrow> nullable (checked (list_all (ctText ty))) t | _ \<Rightarrow> None)"

definition col_bool :: "sql_value option \<Rightarrow> bool option" where
  "col_bool v = (case v of Some (VBool t) \<Rightarrow> Some t | _ \<Rightarrow> None)"

lemmas col_defs = col_uuid_def col_text_def col_float8_def col_real_def col_int4_def col_jsonb_def col_texts_def col_bool_def

text \<open>A NOT NULL text column; the archetype's column has a CHECK besides.\<close>

definition col_required :: "col_types \<Rightarrow> sql_value option \<Rightarrow> string option" where
  "col_required ty v = Option.bind (col_text ty v) id"

definition col_archetype :: "col_types \<Rightarrow> sql_value option \<Rightarrow> string option" where
  "col_archetype ty v = Option.bind (col_required ty v) (checked (\<lambda>a. a \<in> set all_archetypes))"

definition stage_row :: "col_types \<Rightarrow> (string \<Rightarrow> sql_value option) \<Rightarrow> business option" where
  "stage_row ty c =
    Option.bind (col_uuid (c ''id'')) (\<lambda>i.
    Option.bind (col_required ty (c ''name'')) (\<lambda>name.
    Option.bind (col_required ty (c ''category'')) (\<lambda>cat.
    Option.bind (col_text ty (c ''subcategory'')) (\<lambda>sub.
    Option.bind (col_text ty (c ''specialty'')) (\<lambda>spec.
    Option.bind (col_archetype ty (c ''archetype'')) (\<lambda>arch.
    Option.bind (col_text ty (c ''address'')) (\<lambda>addr.
    Option.bind (col_text ty (c ''neighborhood'')) (\<lambda>hood.
    Option.bind (col_float8 (c ''latitude'')) (\<lambda>lat.
    Option.bind (col_float8 (c ''longitude'')) (\<lambda>lng.
    Option.bind (col_real (c ''lemon_score'')) (\<lambda>lemon.
    Option.bind (col_real (c ''google_rating'')) (\<lambda>rating.
    Option.bind (col_int4 (c ''google_review_count'')) (\<lambda>reviews.
    Option.bind (col_text ty (c ''price_range'')) (\<lambda>price.
    Option.bind (col_jsonb ty (c ''hours'')) (\<lambda>hours.
    Option.bind (col_texts ty (c ''photos'')) (\<lambda>photos.
    Option.bind (col_text ty (c ''about'')) (\<lambda>about.
    Option.bind (col_texts ty (c ''universal_tags'')) (\<lambda>utags.
    Option.bind (col_texts ty (c ''specific_tags'')) (\<lambda>stags.
    Option.bind (col_bool (c ''is_claimed'')) (\<lambda>claimed.
    Option.bind (col_int4 (c ''friend_count'')) (\<lambda>friends.
    Option.bind friends (\<lambda>fc.
    Some \<lparr>bzID = i, bzName = name, bzCategory = cat, bzSubcategory = sub, bzSpecialty = spec, bzArchetype = arch,
      bzAddress = addr, bzNeighborhood = hood, bzLatitude = lat, bzLongitude = lng, bzLemonScore = lemon,
      bzGoogleRating = rating, bzGoogleReviewCount = reviews, bzPriceRange = price, bzHours = hours,
      bzPhotos = photos, bzAbout = about, bzUniversalTags = utags, bzSpecificTags = stags,
      bzIsClaimed = claimed, bzFriendCount = fc\<rparr>))))))))))))))))))))))"

text \<open>The rows the columns accept, and the row kept for such a row.\<close>

definition fits :: "col_types \<Rightarrow> business \<Rightarrow> bool" where
  "fits ty b \<longleftrightarrow> list_all (ctText ty) [bzName b, bzCategory b, bzArchetype b] \<and>
     list_all (pred_option (ctText ty)) [bzSubcategory b, bzSpecialty b, bzAddress b, bzNeighborhood b, bzPriceRange b, bzAbout b] \<and>
     bzArchetype b \<in> set all_archetypes \<and> pred_option int4 (bzGoogleReviewCount b) \<and> int4 (bzFriendCount b) \<and>
     pred_option (\<lambda>h. ctJson ty h \<noteq> None) (bzHours b) \<and>
     list_all (pred_option (list_all (ctText ty))) [bzPhotos b, bzUniversalTags b, bzSpecificTags b]"

definition store :: "col_types \<Rightarrow> business \<Rightarrow> business" where
  "store ty b = b\<lparr>bzLemonScore := map_option f_to_f32 (bzLemonScore b), bzGoogleRating := map_option f_to_f32 (bzGoogleRating b),
     bzHours := Option.bind (bzHours b) (ctJson ty)\<rparr>"

lemma store_sel [simp]:
  "bzID (store ty b) = bzID b" "bzName (store ty b) = bzName b" "bzCategory (store ty b) = bzCategory b"
  "bzArchetype (store ty b) = bzArchetype b" "bzSubcategory (store ty b) = bzSubcategory b"
  by (simp_all add: store_def)

lemma store_ids [simp]: "map (bzID \<circ> store ty) bs = map bzID bs" "map bzID (map (store ty) bs) = map bzID bs"
  "bzID ` store ty ` A = bzID ` A"
  by (simp_all add: image_image)

lemma nullable_checked: "nullable (checked ok) v = (if pred_option ok v then Some v else None)"
  by (cases v) (simp_all add: nullable_def checked_def)

lemma nullable_json: "nullable f v = (if pred_option (\<lambda>h. f h \<noteq> None) v then Some (Option.bind v f) else None)"
  by (cases v) (auto simp: nullable_def)

text \<open>The tuple and the column list agree: what the staging table keeps of the tuple of a row is the row
  under the conversions, every column in its place, and the tuple is refused exactly when a column refuses.\<close>

lemma copy_row: "stage_row ty (map_of (zip copyColumns (copyValues b))) = (if fits ty b then Some (store ty b) else None)"
proof -
  have cols:
    "col_required ty (Some (VText (Some x))) = (if ctText ty x then Some x else None)"
    "col_archetype ty (Some (VText (Some x))) = (if ctText ty x \<and> x \<in> set all_archetypes then Some x else None)"
    "col_text ty (Some (VText v)) = (if pred_option (ctText ty) v then Some v else None)"
    "col_texts ty (Some (VTexts vs)) = (if pred_option (list_all (ctText ty)) vs then Some vs else None)"
    "col_int4 (Some (VInt i)) = (if pred_option int4 i then Some i else None)"
    "col_jsonb ty (Some (VJson v)) = (if pred_option (\<lambda>h. ctJson ty h \<noteq> None) v then Some (Option.bind v (ctJson ty)) else None)"
    "col_uuid (Some (VUuid u)) = Some u" "col_float8 (Some (VFloat f)) = Some f" "col_bool (Some (VBool c)) = Some c"
    "col_real (Some (VFloat f)) = Some (map_option f_to_f32 f)" for x v vs i u f c
    by (simp_all add: col_defs col_required_def col_archetype_def nullable_checked nullable_json[of "ctJson ty"])
      (simp_all add: checked_def)
  have row: "store ty b = \<lparr>bzID = bzID b, bzName = bzName b, bzCategory = bzCategory b, bzSubcategory = bzSubcategory b,
      bzSpecialty = bzSpecialty b, bzArchetype = bzArchetype b, bzAddress = bzAddress b, bzNeighborhood = bzNeighborhood b,
      bzLatitude = bzLatitude b, bzLongitude = bzLongitude b, bzLemonScore = map_option f_to_f32 (bzLemonScore b),
      bzGoogleRating = map_option f_to_f32 (bzGoogleRating b), bzGoogleReviewCount = bzGoogleReviewCount b,
      bzPriceRange = bzPriceRange b, bzHours = Option.bind (bzHours b) (ctJson ty), bzPhotos = bzPhotos b, bzAbout = bzAbout b,
      bzUniversalTags = bzUniversalTags b, bzSpecificTags = bzSpecificTags b, bzIsClaimed = bzIsClaimed b,
      bzFriendCount = bzFriendCount b\<rparr>"
    by (simp add: store_def)
  show ?thesis
    unfolding row by (simp add: stage_row_def copyColumns_def copyValues_def cols fits_def)
qed

section \<open>The upsert\<close>

text \<open>A stored row: the staged columns, \<open>loc\<close> and \<open>search_vector\<close> as the statement computes them, and
  \<open>created_at\<close>.\<close>

record biz_row =
  brBusiness :: business
  brLoc :: "(f64 \<times> f64) option"
  brVector :: "(char \<times> string) list"
  brCreatedAt :: instant

definition loc_of :: "business \<Rightarrow> (f64 \<times> f64) option" where
  "loc_of b = (case (bzLatitude b, bzLongitude b) of (Some lat, Some lng) \<Rightarrow> Some (lat, lng) | _ \<Rightarrow> None)"

definition coalesce_text :: "string option \<Rightarrow> string" where
  "coalesce_text t = (case t of None \<Rightarrow> [] | Some v \<Rightarrow> v)"

definition vector_of :: "business \<Rightarrow> (char \<times> string) list" where
  "vector_of b =
    [(CHR ''A'', bzName b), (CHR ''B'', coalesce_text (bzSubcategory b)), (CHR ''C'', bzCategory b),
     (CHR ''C'', coalesce_text (bzSpecialty b)),
     (CHR ''C'', join '' '' (case bzSpecificTags b of None \<Rightarrow> [] | Some ts \<Rightarrow> ts)),
     (CHR ''D'', coalesce_text (bzAbout b))]"

type_synonym biz_table = "uuid \<Rightarrow> biz_row option"

definition upsert_row :: "instant \<Rightarrow> business \<Rightarrow> biz_table \<Rightarrow> biz_table" where
  "upsert_row now b T = T(bzID b \<mapsto> \<lparr>brBusiness = b, brLoc = loc_of b, brVector = vector_of b,
     brCreatedAt = (case T (bzID b) of None \<Rightarrow> now | Some old \<Rightarrow> brCreatedAt old)\<rparr>)"

definition upsertSQL :: "instant \<Rightarrow> business list \<Rightarrow> biz_table \<Rightarrow> biz_table" where
  "upsertSQL now stage T = fold (upsert_row now) stage T"

section \<open>Loading\<close>

text \<open>The database of a load: the error of each round trip, if it has one; whether a commit that was
  reported as failed took effect all the same, because only its reply was lost or the context was done
  while it was under way; COPY's count; the error for a refused row; the transaction's \<open>now()\<close>; the column types.\<close>

record 'e db_env =
  dbTrip :: "nat \<Rightarrow> 'e option"
  dbLanded :: "nat \<Rightarrow> bool"
  dbCount :: "nat \<Rightarrow> int \<Rightarrow> int"
  dbConstraint :: 'e
  dbNow :: instant
  dbTypes :: col_types

datatype 'e load_error =
    AcquiringConnection 'e
  | BeginningTransaction 'e
  | CreatingStage 'e
  | LoadingRows 'e
  | CopyingBatch nat 'e
  | CopiedRows int nat
  | Upserting 'e
  | Committing 'e

text \<open>The open transaction: the round trips so far, the staging table and \<open>copyAll\<close>'s locals.\<close>

record load_state =
  lsTick :: nat
  lsStage :: "business list"
  lsBatch :: "business list"
  lsTotal :: nat

definition copyBatchSize :: nat where "copyBatchSize = 500"

definition db_trip :: "'e db_env \<Rightarrow> load_state \<Rightarrow> 'e option \<times> load_state" where
  "db_trip env ls = (dbTrip env (lsTick ls), ls\<lparr>lsTick := lsTick ls + 1\<rparr>)"

text \<open>\<open>CopyFrom\<close>: the rows are appended to the staging table unless a tuple does not fit the columns or
  an id is there already.\<close>

definition CopyFrom :: "'e db_env \<Rightarrow> string list \<Rightarrow> sql_value list list \<Rightarrow> load_state \<Rightarrow> ('e + int) \<times> load_state" where
  "CopyFrom env cols tuples ls =
     (case db_trip env ls of
        (Some e, ls) \<Rightarrow> (Inl e, ls)
      | (None, ls) \<Rightarrow>
          (case those (map (\<lambda>vals. stage_row (dbTypes env) (map_of (zip cols vals))) tuples) of
             None \<Rightarrow> (Inl (dbConstraint env), ls)
           | Some rows \<Rightarrow>
               if distinct (map bzID (lsStage ls @ rows))
               then (Inr (dbCount env (lsTick ls) (int (length rows))), ls\<lparr>lsStage := lsStage ls @ rows\<rparr>)
               else (Inl (dbConstraint env), ls)))"

definition copyBatch :: "'e db_env \<Rightarrow> business list \<Rightarrow> load_state \<Rightarrow> ('e load_error + nat) \<times> load_state" where
  "copyBatch env batch ls =
     (if length batch = 0 then (Inr 0, ls)
      else (case CopyFrom env copyColumns (map copyValues batch) ls of
        (Inl e, ls) \<Rightarrow> (Inl (CopyingBatch (length batch) e), ls)
      | (Inr n, ls) \<Rightarrow>
          if n \<noteq> int (length batch) then (Inl (CopiedRows n (length batch)), ls)
          else (Inr (length batch), ls)))"

datatype 'e event = Row business | ChanClosed | CtxDone 'e

text \<open>One turn of the loop of \<open>copyAll\<close>: it returns its error and total, or goes on.\<close>

definition copy_turn :: "'e db_env \<Rightarrow> 'e event \<Rightarrow> load_state \<Rightarrow> ('e load_error option \<times> nat) option \<times> load_state" where
  "copy_turn env ev ls =
     (case ev of
        CtxDone e \<Rightarrow> (Some (Some (LoadingRows e), lsTotal ls), ls)
      | ChanClosed \<Rightarrow>
          (case copyBatch env (lsBatch ls) ls of
             (Inl e, ls) \<Rightarrow> (Some (Some e, lsTotal ls), ls)
           | (Inr n, ls) \<Rightarrow> (Some (None, lsTotal ls + n), ls))
      | Row b \<Rightarrow>
          (let ls = ls\<lparr>lsBatch := lsBatch ls @ [b]\<rparr> in
           if length (lsBatch ls) < copyBatchSize then (None, ls)
           else (case copyBatch env (lsBatch ls) ls of
             (Inl e, ls) \<Rightarrow> (Some (Some e, lsTotal ls), ls)
           | (Inr n, ls) \<Rightarrow> (None, ls\<lparr>lsTotal := lsTotal ls + n, lsBatch := []\<rparr>))))"

fun copyAll :: "'e db_env \<Rightarrow> 'e event list \<Rightarrow> load_state \<Rightarrow> (('e load_error option \<times> nat) \<times> load_state) option" where
  "copyAll env [] ls = None"
| "copyAll env (ev # evs) ls =
     (case copy_turn env ev ls of
        (Some r, ls) \<Rightarrow> Some (r, ls)
      | (None, ls) \<Rightarrow> copyAll env evs ls)"

text \<open>Acquire, begin, create the staging table.\<close>

definition load_open :: "'e db_env \<Rightarrow> nat \<Rightarrow> 'e load_error + load_state" where
  "load_open env tick =
     (let ls = \<lparr>lsTick = tick, lsStage = [], lsBatch = [], lsTotal = 0\<rparr> in
      case db_trip env ls of
        (Some e, ls) \<Rightarrow> Inl (AcquiringConnection e)
      | (None, ls) \<Rightarrow>
          (case db_trip env ls of
             (Some e, ls) \<Rightarrow> Inl (BeginningTransaction e)
           | (None, ls) \<Rightarrow>
               (case db_trip env ls of
                  (Some e, ls) \<Rightarrow> Inl (CreatingStage e)
                | (None, ls) \<Rightarrow> Inr ls)))"

text \<open>Upsert and commit. A failed upsert is rolled back; after a failed commit the rows are there or they
  are not.\<close>

definition load_close :: "'e db_env \<Rightarrow> nat \<Rightarrow> load_state \<Rightarrow> biz_table \<Rightarrow> ('e load_error option \<times> nat) \<times> biz_table" where
  "load_close env n ls T =
     (case db_trip env ls of
        (Some e, ls) \<Rightarrow> ((Some (Upserting e), 0), T)
      | (None, ls) \<Rightarrow>
          if \<not> list_all (ctComputes (dbTypes env)) (lsStage ls) then ((Some (Upserting (dbConstraint env)), 0), T)
          else (case db_trip env ls of
             (Some e, ls') \<Rightarrow> ((Some (Committing e), 0),
               if dbLanded env (lsTick ls) then upsertSQL (dbNow env) (lsStage ls') T else T)
           | (None, ls) \<Rightarrow> ((None, n), upsertSQL (dbNow env) (lsStage ls) T)))"

text \<open>\<open>None\<close>: the select is still waiting after these events.\<close>

definition Load_rows :: "'e db_env \<Rightarrow> nat \<Rightarrow> 'e event list \<Rightarrow> biz_table \<Rightarrow>
    (('e load_error option \<times> nat) \<times> biz_table) option" where
  "Load_rows env tick events T =
     (case load_open env tick of
        Inl e \<Rightarrow> Some ((Some e, 0), T)
      | Inr ls \<Rightarrow>
          (case copyAll env events ls of
             None \<Rightarrow> None
           | Some ((Some e, n), ls) \<Rightarrow> Some ((Some e, 0), T)
           | Some ((None, n), ls) \<Rightarrow> Some (load_close env n ls T)))"

section \<open>Facts\<close>

text \<open>A row the database takes, and the table with the rows of a load.\<close>

definition loadable :: "'e db_env \<Rightarrow> business \<Rightarrow> bool" where
  "loadable env b \<longleftrightarrow> fits (dbTypes env) b \<and> ctComputes (dbTypes env) (store (dbTypes env) b)"

definition loaded_table :: "'e db_env \<Rightarrow> business list \<Rightarrow> biz_table \<Rightarrow> biz_table" where
  "loaded_table env bs T = upsertSQL (dbNow env) (map (store (dbTypes env)) bs) T"

lemma those_copy_rows:
  "those (map (\<lambda>vals. stage_row ty (map_of (zip copyColumns vals))) (map copyValues batch)) =
     (if list_all (fits ty) batch then Some (map (store ty) batch) else None)"
  by (induction batch) (simp_all add: copy_row)

lemma CopyFrom_Inr:
  assumes "CopyFrom env copyColumns (map copyValues batch) ls = (Inr n, ls')"
  shows "ls' = ls\<lparr>lsTick := lsTick ls + 1, lsStage := lsStage ls @ map (store (dbTypes env)) batch\<rparr>"
    "distinct (map bzID (lsStage ls @ map (store (dbTypes env)) batch))" "list_all (fits (dbTypes env)) batch"
  using assms by (auto simp: CopyFrom_def db_trip_def those_copy_rows simp del: map_map split: option.splits if_splits)

lemma copyBatch_Inr:
  assumes "copyBatch env batch ls = (Inr n, ls')"
  shows "n = length batch" "lsStage ls' = lsStage ls @ map (store (dbTypes env)) batch"
    "list_all (fits (dbTypes env)) batch" "lsBatch ls' = lsBatch ls" "lsTotal ls' = lsTotal ls"
    "distinct (map bzID (lsStage ls)) \<Longrightarrow> distinct (map bzID (lsStage ls'))"
proof -
  have "n = length batch \<and> lsStage ls' = lsStage ls @ map (store (dbTypes env)) batch \<and> list_all (fits (dbTypes env)) batch \<and>
    lsBatch ls' = lsBatch ls \<and> lsTotal ls' = lsTotal ls \<and>
    (distinct (map bzID (lsStage ls)) \<longrightarrow> distinct (map bzID (lsStage ls')))"
  proof (cases "batch = []")
    case False
    with assms obtain m where c: "CopyFrom env copyColumns (map copyValues batch) ls = (Inr m, ls')" "n = length batch"
      by (auto simp: copyBatch_def simp del: map_map split: if_splits prod.splits sum.splits)
    from CopyFrom_Inr[OF c(1)] c(2) show ?thesis by simp
  qed (use assms in \<open>simp add: copyBatch_def\<close>)
  then show "n = length batch" "lsStage ls' = lsStage ls @ map (store (dbTypes env)) batch"
    "list_all (fits (dbTypes env)) batch" "lsBatch ls' = lsBatch ls" "lsTotal ls' = lsTotal ls"
    "distinct (map bzID (lsStage ls)) \<Longrightarrow> distinct (map bzID (lsStage ls'))" by blast+
qed

text \<open>The rows taken from the channel are those staged, as the columns keep them, and those buffered, in
  order.\<close>

definition load_inv :: "'e db_env \<Rightarrow> business list \<Rightarrow> load_state \<Rightarrow> bool" where
  "load_inv env taken ls \<longleftrightarrow> (\<exists>staged. taken = staged @ lsBatch ls \<and> lsStage ls = map (store (dbTypes env)) staged \<and>
     list_all (fits (dbTypes env)) staged \<and> lsTotal ls = length staged \<and> distinct (map bzID staged)) \<and>
     length (lsBatch ls) < copyBatchSize"

lemma load_open_inv: "load_open env tick = Inr ls \<Longrightarrow> load_inv env [] ls"
  by (auto simp: load_open_def load_inv_def db_trip_def Let_def copyBatchSize_def split: option.splits)

lemma copy_turn_Row:
  assumes "copy_turn env (Row b) ls = (r, ls')" "load_inv env taken ls"
  shows "r = None \<Longrightarrow> load_inv env (taken @ [b]) ls'" "r \<noteq> None \<Longrightarrow> \<exists>e n. r = Some (Some e, n)"
proof -
  define ls1 where "ls1 = ls\<lparr>lsBatch := lsBatch ls @ [b]\<rparr>"
  have sel: "lsStage ls1 = lsStage ls" "lsBatch ls1 = lsBatch ls @ [b]" "lsTotal ls1 = lsTotal ls"
    by (simp_all add: ls1_def)
  have turn: "copy_turn env (Row b) ls = (if length (lsBatch ls1) < copyBatchSize then (None, ls1)
      else case copyBatch env (lsBatch ls1) ls1 of
        (Inl e, ls) \<Rightarrow> (Some (Some e, lsTotal ls), ls)
      | (Inr n, ls) \<Rightarrow> (None, ls\<lparr>lsTotal := lsTotal ls + n, lsBatch := []\<rparr>))"
    by (simp add: copy_turn_def ls1_def Let_def)
  obtain staged where inv: "taken = staged @ lsBatch ls" "lsStage ls = map (store (dbTypes env)) staged"
    "list_all (fits (dbTypes env)) staged" "lsTotal ls = length staged" "distinct (map bzID staged)"
    using assms(2) by (auto simp: load_inv_def)
  have "(r = None \<longrightarrow> load_inv env (taken @ [b]) ls') \<and> (r \<noteq> None \<longrightarrow> (\<exists>e n. r = Some (Some e, n)))"
  proof (cases "length (lsBatch ls1) < copyBatchSize")
    case True
    with assms(1) turn inv sel show ?thesis by (auto simp: load_inv_def)
  next
    case False
    obtain q ls2 where q: "copyBatch env (lsBatch ls1) ls1 = (q, ls2)" by fastforce
    show ?thesis
    proof (cases q)
      case (Inr n)
      note c = copyBatch_Inr[OF q[unfolded Inr]]
      have "ls' = ls2\<lparr>lsTotal := lsTotal ls2 + n, lsBatch := []\<rparr>" "r = None" using assms(1) turn False q Inr by simp_all
      moreover have "distinct (map bzID (staged @ lsBatch ls1))" using c(2) c(6) inv sel by simp
      ultimately show ?thesis using c inv sel by (simp add: load_inv_def copyBatchSize_def)
    qed (use assms(1) turn False q in auto)
  qed
  then show "r = None \<Longrightarrow> load_inv env (taken @ [b]) ls'" "r \<noteq> None \<Longrightarrow> \<exists>e n. r = Some (Some e, n)" by blast+
qed

lemma copy_turn_Closed:
  assumes "copy_turn env ChanClosed ls = (r, ls')" "load_inv env taken ls"
  shows "(\<exists>e n. r = Some (Some e, n)) \<or>
    r = Some (None, length taken) \<and> lsStage ls' = map (store (dbTypes env)) taken \<and>
      list_all (fits (dbTypes env)) taken \<and> distinct (map bzID taken)"
proof -
  obtain staged where inv: "taken = staged @ lsBatch ls" "lsStage ls = map (store (dbTypes env)) staged"
    "list_all (fits (dbTypes env)) staged" "lsTotal ls = length staged" "distinct (map bzID staged)"
    using assms(2) by (auto simp: load_inv_def)
  obtain q ls2 where q: "copyBatch env (lsBatch ls) ls = (q, ls2)" by fastforce
  show ?thesis
  proof (cases q)
    case (Inr n)
    note c = copyBatch_Inr[OF q[unfolded Inr]]
    have "r = Some (None, lsTotal ls2 + n)" "ls' = ls2" using assms(1) q Inr by (auto simp: copy_turn_def)
    moreover have "distinct (map bzID taken)" using c(2) c(6) inv by simp
    ultimately show ?thesis using c inv by simp
  qed (use assms(1) q in \<open>auto simp: copy_turn_def\<close>)
qed

lemma copy_turn_Done: "copy_turn env (CtxDone e) ls = (Some (Some (LoadingRows e), lsTotal ls), ls)"
  by (simp add: copy_turn_def)

lemma copyAll_ok:
  "copyAll env events ls = Some ((None, n), ls') \<Longrightarrow> load_inv env taken ls \<Longrightarrow>
    \<exists>bs rest. events = map Row bs @ ChanClosed # rest \<and> n = length (taken @ bs) \<and>
      lsStage ls' = map (store (dbTypes env)) (taken @ bs) \<and> list_all (fits (dbTypes env)) (taken @ bs) \<and>
      distinct (map bzID (taken @ bs))"
proof (induction env events ls arbitrary: taken rule: copyAll.induct)
  case (2 env ev evs ls)
  obtain r ls1 where t: "copy_turn env ev ls = (r, ls1)" by fastforce
  show ?case
  proof (cases ev)
    case (Row b)
    note row = copy_turn_Row[OF t[unfolded Row] "2.prems"(2)]
    with "2.prems"(1) t have "r = None" by (cases r) auto
    then obtain bs rest where "evs = map Row bs @ ChanClosed # rest" "n = length ((taken @ [b]) @ bs)"
      "lsStage ls' = map (store (dbTypes env)) ((taken @ [b]) @ bs)" "list_all (fits (dbTypes env)) ((taken @ [b]) @ bs)"
      "distinct (map bzID ((taken @ [b]) @ bs))"
      using "2.IH"[OF t[symmetric] \<open>r = None\<close>, of "taken @ [b]"] "2.prems"(1) t row(1) by auto
    then show ?thesis using Row by (intro exI[of _ "b # bs"] exI[of _ rest]) simp
  next
    case ChanClosed
    with copy_turn_Closed[OF t[unfolded ChanClosed] "2.prems"(2)] "2.prems"(1) t show ?thesis
      by (intro exI[of _ "[]"] exI[of _ evs]) auto
  next
    case (CtxDone e)
    with "2.prems"(1) show ?thesis by (simp add: copy_turn_Done)
  qed
qed simp

text \<open>How the last two statements end: the rows are in the table and counted; or there is an error, and
  the table is as it was - unless the error is a failed commit that took effect.\<close>

definition load_failed :: "'e db_env \<Rightarrow> business list \<Rightarrow> 'e load_error \<Rightarrow> biz_table \<Rightarrow> biz_table \<Rightarrow> bool" where
  "load_failed env bs e T T' \<longleftrightarrow> T' = T \<or>
     (\<exists>x i. e = Committing x \<and> dbTrip env i = Some x \<and> dbLanded env i \<and> list_all (loadable env) bs \<and>
       distinct (map bzID bs) \<and> T' = loaded_table env bs T)"

lemma load_close_cases:
  assumes "lsStage ls = map (store (dbTypes env)) bs" "list_all (fits (dbTypes env)) bs" "distinct (map bzID bs)"
    and "load_close env n ls T = ((err, m), T')"
  shows "(err = None \<and> m = n \<and> list_all (loadable env) bs \<and> T' = loaded_table env bs T) \<or>
    (\<exists>e. err = Some e \<and> m = 0 \<and> load_failed env bs e T T')"
proof -
  have "list_all (loadable env) bs" if "list_all (ctComputes (dbTypes env)) (lsStage ls)"
    using that assms(1,2) by (auto simp: loadable_def list_all_iff)
  with assms show ?thesis
    by (auto simp: load_close_def db_trip_def load_failed_def loaded_table_def split: option.splits if_splits)
qed

subsection \<open>The upsert\<close>

lemma upsert_row_other: "i \<noteq> bzID b \<Longrightarrow> upsert_row now b T i = T i"
  by (simp add: upsert_row_def)

lemma upsertSQL_other: "i \<notin> bzID ` set bs \<Longrightarrow> upsertSQL now bs T i = T i"
  unfolding upsertSQL_def by (induction bs arbitrary: T) (auto simp: upsert_row_other)

definition row_after :: "instant \<Rightarrow> biz_table \<Rightarrow> business \<Rightarrow> biz_row" where
  "row_after now T b = \<lparr>brBusiness = b, brLoc = loc_of b, brVector = vector_of b,
     brCreatedAt = (case T (bzID b) of None \<Rightarrow> now | Some old \<Rightarrow> brCreatedAt old)\<rparr>"

lemma upsertSQL_row:
  "distinct (map bzID bs) \<Longrightarrow> b \<in> set bs \<Longrightarrow> upsertSQL now bs T (bzID b) = Some (row_after now T b)"
proof (induction bs arbitrary: T)
  case (Cons c bs)
  have step: "upsertSQL now (c # bs) T = upsertSQL now bs (upsert_row now c T)" by (simp add: upsertSQL_def)
  show ?case
  proof (cases "b = c")
    case True
    with Cons.prems have "bzID b \<notin> bzID ` set bs" by auto
    then show ?thesis unfolding step by (simp add: upsertSQL_other True upsert_row_def row_after_def)
  next
    case False
    with Cons.prems have "b \<in> set bs" "bzID b \<noteq> bzID c" by (auto simp: image_iff)
    with Cons.IH[of "upsert_row now c T"] Cons.prems show ?thesis
      unfolding step by (simp add: row_after_def upsert_row_other)
  qed
qed simp

text \<open>The whole table after an upsert of rows with distinct ids.\<close>

lemma upsertSQL_eq:
  assumes "distinct (map bzID bs)"
  shows "upsertSQL now bs T i = (case find (\<lambda>b. bzID b = i) bs of None \<Rightarrow> T i | Some b \<Rightarrow> Some (row_after now T b))"
proof (cases "find (\<lambda>b. bzID b = i) bs")
  case None
  then have "i \<notin> bzID ` set bs" by (auto simp: find_None_iff)
  with None show ?thesis by (simp add: upsertSQL_other)
next
  case (Some b)
  then have "b \<in> set bs" "bzID b = i" by (auto simp: find_Some_iff)
  with Some upsertSQL_row[OF assms] show ?thesis by auto
qed

subsection \<open>Without faults\<close>

definition healthy_db :: "'e db_env \<Rightarrow> bool" where
  "healthy_db env \<longleftrightarrow> dbTrip env = (\<lambda>_. None) \<and> dbCount env = (\<lambda>_ n. n)"

lemma copyBatch_healthy:
  assumes "healthy_db env" "distinct (map bzID (lsStage ls @ batch))" "list_all (fits (dbTypes env)) batch"
  shows "\<exists>ls'. copyBatch env batch ls = (Inr (length batch), ls')"
  using assms
  by (simp add: copyBatch_def CopyFrom_def those_copy_rows healthy_db_def db_trip_def del: map_map)

lemma load_inv_ids: "load_inv env taken ls \<Longrightarrow> map bzID (lsStage ls @ lsBatch ls) = map bzID taken"
  by (auto simp: load_inv_def)

lemma load_inv_fits: "load_inv env taken ls \<Longrightarrow> list_all (fits (dbTypes env)) taken \<Longrightarrow> list_all (fits (dbTypes env)) (lsBatch ls)"
  by (auto simp: load_inv_def)

lemma copy_turn_healthy:
  assumes "healthy_db env" "load_inv env taken ls"
  shows "distinct (map bzID (taken @ [b])) \<Longrightarrow> list_all (fits (dbTypes env)) (taken @ [b]) \<Longrightarrow>
      \<exists>ls'. copy_turn env (Row b) ls = (None, ls')"
    and "distinct (map bzID taken) \<Longrightarrow> list_all (fits (dbTypes env)) taken \<Longrightarrow>
      \<exists>ls' n. copy_turn env ChanClosed ls = (Some (None, n), ls')"
proof -
  note ids = load_inv_ids[OF assms(2)] and fit = load_inv_fits[OF assms(2)]
  show "\<exists>ls'. copy_turn env (Row b) ls = (None, ls')"
    if "distinct (map bzID (taken @ [b]))" "list_all (fits (dbTypes env)) (taken @ [b])"
  proof -
    define ls1 where "ls1 = ls\<lparr>lsBatch := lsBatch ls @ [b]\<rparr>"
    have "map bzID (lsStage ls1 @ lsBatch ls1) = map bzID (taken @ [b])" using ids by (simp add: ls1_def)
    then have "distinct (map bzID (lsStage ls1 @ lsBatch ls1))" using that(1) by simp
    moreover have "list_all (fits (dbTypes env)) (lsBatch ls1)" using that(2) fit by (simp add: ls1_def)
    ultimately show ?thesis using copyBatch_healthy[OF assms(1), of ls1 "lsBatch ls1"]
      by (auto simp: copy_turn_def Let_def simp flip: ls1_def)
  qed
  show "\<exists>ls' n. copy_turn env ChanClosed ls = (Some (None, n), ls')"
    if "distinct (map bzID taken)" "list_all (fits (dbTypes env)) taken"
  proof -
    have "distinct (map bzID (lsStage ls @ lsBatch ls))" using that(1) ids by simp
    from copyBatch_healthy[OF assms(1) this fit[OF that(2)]] show ?thesis by (auto simp: copy_turn_def)
  qed
qed

lemma copyAll_healthy:
  "healthy_db env \<Longrightarrow> load_inv env taken ls \<Longrightarrow> distinct (map bzID (taken @ bs)) \<Longrightarrow>
    list_all (fits (dbTypes env)) (taken @ bs) \<Longrightarrow>
    \<exists>n ls'. copyAll env (map Row bs @ [ChanClosed]) ls = Some ((None, n), ls')"
proof (induction bs arbitrary: taken ls)
  case Nil
  with copy_turn_healthy(2)[OF Nil(1,2)] show ?case by fastforce
next
  case (Cons b bs)
  then obtain ls' where t: "copy_turn env (Row b) ls = (None, ls')"
    using copy_turn_healthy(1)[OF Cons.prems(1,2), of b] by auto
  from copy_turn_Row(1)[OF this Cons.prems(2)] have "load_inv env (taken @ [b]) ls'" by simp
  with Cons.IH[OF Cons.prems(1) this] Cons.prems(3,4) t show ?case by simp
qed

lemma load_open_healthy: "healthy_db env \<Longrightarrow> \<exists>ls. load_open env tick = Inr ls"
  by (simp add: load_open_def healthy_db_def db_trip_def Let_def)

lemma load_close_healthy:
  "healthy_db env \<Longrightarrow> list_all (ctComputes (dbTypes env)) (lsStage ls) \<Longrightarrow>
    load_close env n ls T = ((None, n), upsertSQL (dbNow env) (lsStage ls) T)"
  by (simp add: load_close_def healthy_db_def db_trip_def)

section \<open>Properties\<close>

text \<open>C13. A load is all or nothing, whatever the channel, the context and the database do, and its
  result says which - up to a failed commit. If it succeeds the channel was drained to its close, the ids were
  distinct, the columns took every row, the count is the number of rows, and the table is the upsert of
  exactly those rows as the columns keep them. If it fails zero rows are reported and the table is untouched,
  except that a commit that was reported as failed may have taken effect: then the table is the upsert of all rows of the
  drained channel, never of some.\<close>

theorem Load_atomic:
  "case Load_rows env tick events T of
     None \<Rightarrow> True
   | Some ((Some e, n), T') \<Rightarrow> n = 0 \<and> (T' = T \<or>
       (\<exists>x bs rest. e = Committing x \<and> events = map Row bs @ ChanClosed # rest \<and> list_all (loadable env) bs \<and>
         distinct (map bzID bs) \<and> T' = loaded_table env bs T))
   | Some ((None, n), T') \<Rightarrow> (\<exists>bs rest. events = map Row bs @ ChanClosed # rest \<and> n = length bs \<and>
       list_all (loadable env) bs \<and> distinct (map bzID bs) \<and> T' = loaded_table env bs T)"
proof (cases "load_open env tick")
  case (Inr ls)
  show ?thesis
  proof (cases "copyAll env events ls")
    case (Some r)
    then obtain err n ls' where r: "copyAll env events ls = Some ((err, n), ls')" by (cases r) auto
    show ?thesis
    proof (cases err)
      case None
      obtain bs rest where bs: "events = map Row bs @ ChanClosed # rest" "n = length bs"
        "lsStage ls' = map (store (dbTypes env)) bs" "list_all (fits (dbTypes env)) bs" "distinct (map bzID bs)"
        using copyAll_ok[OF r[unfolded None] load_open_inv[OF Inr]] by auto
      obtain cerr m T' where c: "load_close env n ls' T = ((cerr, m), T')" by (metis prod.collapse)
      have whole: "Load_rows env tick events T = Some ((cerr, m), T')" using Inr r None c by (simp add: Load_rows_def)
      from load_close_cases[OF bs(3-5) c] bs(1,2,5) show ?thesis
        unfolding whole by (cases cerr) (auto simp: load_failed_def)
    qed (use Inr r in \<open>simp add: Load_rows_def\<close>)
  qed (use Inr in \<open>simp add: Load_rows_def\<close>)
qed (simp add: Load_rows_def)

text \<open>C21. Loading the same rows again changes nothing, \<open>created_at\<close> included, whenever it happens.\<close>

theorem upsert_idempotent:
  assumes "distinct (map bzID bs)"
  shows "upsertSQL later bs (upsertSQL now bs T) = upsertSQL now bs T"
proof
  fix i
  show "upsertSQL later bs (upsertSQL now bs T) i = upsertSQL now bs T i"
  proof (cases "find (\<lambda>b. bzID b = i) bs")
    case (Some b)
    then have b: "b \<in> set bs" "i = bzID b" by (auto simp: find_Some_iff)
    show ?thesis unfolding b(2) upsertSQL_row[OF assms b(1)] by (simp add: row_after_def upsertSQL_row[OF assms b(1)])
  qed (simp add: upsertSQL_eq[OF assms])
qed

text \<open>A database without faults. Its texts are those without a zero byte, its one JSON value the empty object.\<close>

definition calm_types :: col_types where
  "calm_types = \<lparr>ctText = (\<lambda>s. CHR 0x00 \<notin> set s), ctJson = (\<lambda>h. if h = ''{}'' then Some h else None),
     ctComputes = (\<lambda>b. True)\<rparr>"

definition calm_db :: "unit db_env" where
  "calm_db = \<lparr>dbTrip = \<lambda>_. None, dbLanded = \<lambda>_. False, dbCount = \<lambda>_ n. n, dbConstraint = (), dbNow = 7,
     dbTypes = calm_types\<rparr>"

lemma healthy_calm_db: "healthy_db calm_db"
  by (simp add: healthy_db_def calm_db_def)

definition a_business :: "uuid \<Rightarrow> business" where
  "a_business i = \<lparr>bzID = i, bzName = ''Cafe'', bzCategory = ''Other'', bzSubcategory = None, bzSpecialty = None,
     bzArchetype = ArchetypeLowStakesFastNearby, bzAddress = None, bzNeighborhood = None, bzLatitude = None,
     bzLongitude = None, bzLemonScore = None, bzGoogleRating = None, bzGoogleReviewCount = None,
     bzPriceRange = None, bzHours = None, bzPhotos = None, bzAbout = None, bzUniversalTags = None,
     bzSpecificTags = None, bzIsClaimed = False, bzFriendCount = 0\<rparr>"

lemma a_business_id [simp]: "bzID (a_business i) = i"
  by (simp add: a_business_def)

theorem upsert_idempotent_witness:
  "upsertSQL 9 [a_business 1] (upsertSQL 7 [a_business 1] Map.empty) = upsertSQL 7 [a_business 1] Map.empty"
  by (rule upsert_idempotent) simp

text \<open>Without faults every batch arrangement goes through: rows with distinct ids that the columns take, however many,
  are all loaded and counted, the full batches of 500 and the last partial one alike.\<close>

theorem Load_complete:
  assumes "healthy_db env" "distinct (map bzID bs)" "list_all (loadable env) bs"
  shows "Load_rows env tick (map Row bs @ [ChanClosed]) T = Some ((None, length bs), loaded_table env bs T)"
proof -
  obtain ls where o: "load_open env tick = Inr ls" using load_open_healthy[OF assms(1)] by blast
  note inv = load_open_inv[OF o]
  have fit: "list_all (fits (dbTypes env)) bs" using assms(3) by (auto simp: loadable_def list_all_iff)
  obtain n ls' where c: "copyAll env (map Row bs @ [ChanClosed]) ls = Some ((None, n), ls')"
    using copyAll_healthy[OF assms(1) inv, of bs] assms(2) fit by auto
  obtain bs' rest where e: "map Row bs @ [ChanClosed] = map Row bs' @ ChanClosed # (rest :: 'a event list)" "n = length bs'"
    "lsStage ls' = map (store (dbTypes env)) bs'"
    using copyAll_ok[OF c inv] unfolding append_Nil by metis
  have "bs' = bs"
  proof -
    have "takeWhile (\<lambda>e. e \<noteq> ChanClosed) (map Row xs @ ChanClosed # r) = map Row xs" for xs and r :: "'a event list"
      by (induction xs) auto
    from this[of bs "[]"] this[of bs' rest] e(1) have "(map Row bs :: 'a event list) = map Row bs'" by simp
    then show ?thesis by (auto dest: map_injective simp: inj_def)
  qed
  moreover from this have "list_all (ctComputes (dbTypes env)) (lsStage ls')"
    using assms(3) e(3) by (auto simp: loadable_def list_all_iff)
  ultimately show ?thesis using o c e(2,3)
    by (simp add: Load_rows_def load_close_healthy[OF assms(1)] loaded_table_def)
qed

lemma a_business_loadable: "loadable calm_db (a_business i)"
  by (simp add: loadable_def fits_def calm_db_def calm_types_def a_business_def all_archetypes_def archetype_defs int4_def)

theorem Load_complete_witness:
  "Load_rows calm_db 0 [Row (a_business 1), Row (a_business 2), ChanClosed] Map.empty =
     Some ((None, 2), loaded_table calm_db [a_business 1, a_business 2] Map.empty)"
  using Load_complete[OF healthy_calm_db, of "[a_business 1, a_business 2]" 0 Map.empty] a_business_loadable by simp

end
