(* ===== verification/Ingest_Pipeline.thy ===== *)
theory Ingest_Pipeline
  imports Ingest_Parser Ingest_Record Ingest_Loader
begin

text \<open>
  \<open>cmd/ingest/pipeline.go\<close>: the producer's pure stages over one record and its tally. The
  collaborators outside the repository (JSON decoding, UUIDs, MD5, the case table) are the
  record \<open>stage_env\<close>. \<open>produce\<close> is the reference for the streaming loop: the rows and the tally
  of a list of raw records.
\<close>

section \<open>Stages\<close>

record 'e stage_env =
  sgUnicode :: unicode
  sgUnmarshal :: "string \<Rightarrow> 'e + raw_record"
  sgParseID :: "string \<Rightarrow> 'e + uuid"
  sgIDString :: "uuid \<Rightarrow> string"
  sgMD5 :: "string \<Rightarrow> 8 word list"

record ingest_stats =
  isRead :: int
  isDroppedGeo :: int
  isDroppedNoAddr :: int
  isDroppedCatEmpty :: int
  isBucketedOther :: int
  isLoaded :: int
  isClaimedTrue :: int
  isFriendNonzero :: int

definition no_stats :: ingest_stats where
  "no_stats = \<lparr>isRead = 0, isDroppedGeo = 0, isDroppedNoAddr = 0, isDroppedCatEmpty = 0, isBucketedOther = 0,
     isLoaded = 0, isClaimedTrue = 0, isFriendNonzero = 0\<rparr>"

definition deref :: "string option \<Rightarrow> string" where
  "deref s = (case s of None \<Rightarrow> [] | Some v \<Rightarrow> v)"

definition emptyToNil :: "string \<Rightarrow> string option" where
  "emptyToNil s = (if s = [] then None else Some s)"

definition toBusiness :: "raw_business \<Rightarrow> taxonomy \<Rightarrow> bool \<Rightarrow> int \<Rightarrow> business" where
  "toBusiness rb tax claimed friends =
     \<lparr>bzID = rbID rb, bzName = rbName rb, bzCategory = txCategory tax,
      bzSubcategory = emptyToNil (txSubcategory tax), bzSpecialty = rbSpecialty rb,
      bzArchetype = txArchetype tax, bzAddress = rbAddress rb, bzNeighborhood = rbNeighborhood rb,
      bzLatitude = rbLatitude rb, bzLongitude = rbLongitude rb, bzLemonScore = rbLemonScore rb,
      bzGoogleRating = rbGoogleRating rb, bzGoogleReviewCount = rbGoogleReviewCount rb,
      bzPriceRange = rbPriceRange rb, bzHours = rbHours rb, bzPhotos = rbPhotos rb, bzAbout = rbAbout rb,
      bzUniversalTags = rbUniversalTags rb, bzSpecificTags = rbSpecificTags rb,
      bzIsClaimed = claimed, bzFriendCount = friends\<rparr>"

definition process :: "'e stage_env \<Rightarrow> string \<Rightarrow> ingest_stats \<Rightarrow> business option \<times> ingest_stats" where
  "process env raw s =
     (case Sanitize (sgUnicode env) (sgUnmarshal env) (sgParseID env) raw of
        Inl e \<Rightarrow> (None, s\<lparr>isRead := isRead s - 1\<rparr>)
      | Inr rb \<Rightarrow>
          (case GeoFilter (rbLatitude rb) (rbLongitude rb) (deref (rbAddress rb)) of
             DropNonMiami \<Rightarrow> (None, s\<lparr>isDroppedGeo := isDroppedGeo s + 1\<rparr>)
           | DropNoAddress \<Rightarrow> (None, s\<lparr>isDroppedNoAddr := isDroppedNoAddr s + 1\<rparr>)
           | GeoKeep \<Rightarrow>
               (let tax = Normalize (sgUnicode env) (rbCategory rb) (deref (rbSubcategory rb)) in
                if txDecision tax = TaxonomyDrop then (None, s\<lparr>isDroppedCatEmpty := isDroppedCatEmpty s + 1\<rparr>)
                else (let s = (if txDecision tax = TaxonomyBucketed then s\<lparr>isBucketedOther := isBucketedOther s + 1\<rparr> else s);
                          claimed = Claimed (sgMD5 env) (sgIDString env) (rbID rb);
                          s = (if claimed then s\<lparr>isClaimedTrue := isClaimedTrue s + 1\<rparr> else s);
                          friends = FriendCount (sgMD5 env) (sgIDString env) (rbID rb);
                          s = (if 0 < friends then s\<lparr>isFriendNonzero := isFriendNonzero s + 1\<rparr> else s)
                      in (Some (toBusiness rb tax claimed friends), s)))))"

text \<open>The loop's body after a successful \<open>Next\<close>.\<close>

definition take_record :: "'e stage_env \<Rightarrow> string \<Rightarrow> ingest_stats \<Rightarrow> business option \<times> ingest_stats" where
  "take_record env raw s = process env raw (s\<lparr>isRead := isRead s + 1\<rparr>)"

section \<open>The reference\<close>

fun produce :: "'e stage_env \<Rightarrow> string list \<Rightarrow> ingest_stats \<Rightarrow> business list \<times> ingest_stats" where
  "produce env [] s = ([], s)"
| "produce env (raw # raws) s =
     (let (b, s) = take_record env raw s; (bs, s) = produce env raws s
      in (case b of None \<Rightarrow> bs | Some b \<Rightarrow> b # bs, s))"

lemma produce_append:
  "produce env (xs @ ys) s = (let (bs, s1) = produce env xs s; (cs, s2) = produce env ys s1 in (bs @ cs, s2))"
  by (induction env xs s rule: produce.induct) (auto simp: Let_def split: prod.splits option.splits)

section \<open>Rows that reach the loader\<close>

text \<open>What the businesses table demands of a row and what the search relies on: a nonempty name, a
  category and archetype of the spec, clean optional text, one of the price tiers, 0 to 5 friends.\<close>

definition row_ok :: "business \<Rightarrow> bool" where
  "row_ok b \<longleftrightarrow> clean (bzName b) \<and> bzCategory b \<in> set spec_categories \<and> bzArchetype b \<in> set all_archetypes \<and>
     bzArchetype b = archetypeFor (bzCategory b) (deref (bzSubcategory b)) \<and>
     list_all (pred_option clean) [bzSubcategory b, bzSpecialty b, bzAddress b, bzNeighborhood b] \<and>
     pred_option (\<lambda>p. p \<in> set price_tiers) (bzPriceRange b) \<and>
     pred_option (\<lambda>ps. ps \<noteq> [] \<and> distinct ps \<and> list_all clean ps) (bzPhotos b) \<and>
     list_all (pred_option (\<lambda>ts. ts \<noteq> [] \<and> list_all clean ts)) [bzUniversalTags b, bzSpecificTags b] \<and>
     GeoFilter (bzLatitude b) (bzLongitude b) (deref (bzAddress b)) = GeoKeep \<and>
     0 \<le> bzFriendCount b \<and> bzFriendCount b \<le> 5"

lemma deref_emptyToNil [simp]: "deref (emptyToNil s) = s"
  by (simp add: deref_def emptyToNil_def)

lemma process_row_ok: "process env raw s = (Some b, s') \<Longrightarrow> row_ok b"
proof -
  assume p: "process env raw s = (Some b, s')"
  then obtain rb where rb: "Sanitize (sgUnicode env) (sgUnmarshal env) (sgParseID env) raw = Inr rb"
    by (auto simp: process_def split: sum.splits)
  define tax where "tax = Normalize (sgUnicode env) (rbCategory rb) (deref (rbSubcategory rb))"
  from p rb have keep: "GeoFilter (rbLatitude rb) (rbLongitude rb) (deref (rbAddress rb)) = GeoKeep"
    "txDecision tax \<noteq> TaxonomyDrop"
    "b = toBusiness rb tax (Claimed (sgMD5 env) (sgIDString env) (rbID rb)) (FriendCount (sgMD5 env) (sgIDString env) (rbID rb))"
    by (auto simp: process_def Let_def simp flip: tax_def split: geo_decision.splits if_splits)
  note k = Normalize_kept[OF keep(2)[unfolded tax_def], folded tax_def]
  have "pred_option clean (emptyToNil (txSubcategory tax))"
    using k(2) by (simp add: emptyToNil_def clean_def)
  with Sanitize_aux[OF rb] keep k FriendCount_range(1,2) show ?thesis
    by (simp add: row_ok_def toBusiness_def sanitized_def archetypeFor_valid)
qed

lemma produce_row_ok: "list_all row_ok (fst (produce env raws s))"
proof (induction env raws s rule: produce.induct)
  case (2 env raw raws s)
  obtain b s1 where "take_record env raw s = (b, s1)" by fastforce
  with "2.IH"[OF this[symmetric] refl] process_row_ok show ?case
    by (auto simp: take_record_def split: prod.split option.split)
qed simp

section \<open>The tally\<close>

definition drops :: "ingest_stats \<Rightarrow> int" where
  "drops s = isDroppedGeo s + isDroppedNoAddr s + isDroppedCatEmpty s"

text \<open>Every record read is dropped for one counted reason or produced; the derived counts are those of
  the produced rows.\<close>

definition tally_grows :: "ingest_stats \<Rightarrow> business list \<Rightarrow> ingest_stats \<Rightarrow> bool" where
  "tally_grows s bs s' \<longleftrightarrow> isRead s' - isRead s = drops s' - drops s + int (length bs) \<and>
     isDroppedGeo s \<le> isDroppedGeo s' \<and> isDroppedNoAddr s \<le> isDroppedNoAddr s' \<and>
     isDroppedCatEmpty s \<le> isDroppedCatEmpty s' \<and>
     isBucketedOther s \<le> isBucketedOther s' \<and> isBucketedOther s' - isBucketedOther s \<le> int (length (filter (\<lambda>b. bzCategory b = categoryOther) bs)) \<and>
     isClaimedTrue s' - isClaimedTrue s = int (length (filter bzIsClaimed bs)) \<and>
     isFriendNonzero s' - isFriendNonzero s = int (length (filter (\<lambda>b. 0 < bzFriendCount b) bs)) \<and>
     isLoaded s' = isLoaded s"

lemma tally_refl [simp]: "tally_grows s [] s"
  by (simp add: tally_grows_def)

lemma tally_trans: "tally_grows s bs s1 \<Longrightarrow> tally_grows s1 cs s2 \<Longrightarrow> tally_grows s (bs @ cs) s2"
  by (simp add: tally_grows_def)

lemma bucketed_Other: "txDecision (Normalize U c s) = TaxonomyBucketed \<Longrightarrow> txCategory (Normalize U c s) = categoryOther"
  by (auto simp: Normalize_def Let_def split: option.splits if_splits)

lemma take_record_tally:
  "take_record env raw s = (b, s') \<Longrightarrow> tally_grows s (case b of None \<Rightarrow> [] | Some b \<Rightarrow> [b]) s'"
  by (auto simp: take_record_def process_def tally_grows_def drops_def toBusiness_def Let_def bucketed_Other
      split: sum.splits geo_decision.splits if_splits)

lemma produce_tally: "produce env raws s = (bs, s') \<Longrightarrow> tally_grows s bs s'"
proof (induction env raws s arbitrary: bs s' rule: produce.induct)
  case (2 env raw raws s)
  obtain b s1 where t: "take_record env raw s = (b, s1)" by fastforce
  obtain cs s2 where r: "produce env raws s1 = (cs, s2)" by fastforce
  from tally_trans[OF take_record_tally[OF t] "2.IH"[OF t[symmetric] refl r]] "2.prems" t r show ?case
    by (auto split: option.splits)
qed simp

section \<open>Properties\<close>

text \<open>C31. Every row handed to the loader satisfies the schema's and the search's demands, whatever the
  source holds: spec category, the archetype of its category and subcategory, clean text, a
  known price tier, a location in Miami or Florida, 0 to 5 friends.\<close>

theorem produced_rows_ok: "list_all row_ok (fst (produce env raws s))"
  by (rule produce_row_ok)

text \<open>The report adds up: each record counted as read is counted under exactly one drop reason or
  was produced, and the claimed and friend counts are those of the produced rows.\<close>

theorem produce_adds_up:
  "case produce env raws no_stats of (bs, st) \<Rightarrow>
     isRead st = isDroppedGeo st + isDroppedNoAddr st + isDroppedCatEmpty st + int (length bs) \<and>
     isClaimedTrue st = int (length (filter bzIsClaimed bs)) \<and>
     isFriendNonzero st = int (length (filter (\<lambda>b. 0 < bzFriendCount b) bs)) \<and>
     isBucketedOther st \<le> int (length (filter (\<lambda>b. bzCategory b = categoryOther) bs))"
proof -
  obtain bs st where p: "produce env raws no_stats = (bs, st)" by fastforce
  from produce_tally[OF p] show ?thesis unfolding p prod.case by (simp add: tally_grows_def no_stats_def drops_def)
qed

end
