(* ===== verification/Ingest_System.thy ===== *)
theory Ingest_System
  imports Ingest_Pipeline
begin

text \<open>
  \<open>cmd/ingest\<close> as the two goroutines it runs (\<open>run\<close> of \<open>main.go\<close>, the producer's \<open>run\<close> of
  \<open>pipeline.go\<close>, \<open>Loader.Load\<close>): the producer, the buffered channel, the loader and the shared
  context. A step relation interleaves them; both \<open>select\<close>s are its nondeterminism, and a signal
  may cancel the context at any time. The channel is closed when the producer has finished,
  which it does after publishing its tally. Every schedule is covered by the properties.
\<close>

section \<open>States\<close>

datatype 'e stop = ParseStop "'e parse_error" | CtxStop 'e

datatype prod_phase = Looping | Sending business | Finished

datatype 'e load_phase = Opening | Copying load_state | Returned "'e load_error option" nat

record 'e ingest_sys =
  gsParser :: "'e parser"
  gsStats :: ingest_stats
  gsErr :: "'e stop option"
  gsProd :: prod_phase
  gsChan :: "business list"
  gsCtx :: "'e option"
  gsLoad :: "'e load_phase"
  gsTable :: biz_table

text \<open>The environment: the stages' collaborators, the database, the error of a signal if one may come,
  and \<open>context.Canceled\<close>.\<close>

record 'e ingest_env =
  giStages :: "'e stage_env"
  giDb :: "'e db_env"
  giSignal :: "'e option"
  giCanceled :: 'e

definition CopyChannelBuffer :: nat where "CopyChannelBuffer = copyBatchSize"

definition ingest_start :: "'e parser \<Rightarrow> biz_table \<Rightarrow> 'e ingest_sys" where
  "ingest_start p T = \<lparr>gsParser = p, gsStats = no_stats, gsErr = None, gsProd = Looping, gsChan = [], gsCtx = None,
     gsLoad = Opening, gsTable = T\<rparr>"

section \<open>Turns\<close>

text \<open>The producer's loop up to its next send: the context check, \<open>Next\<close>, \<open>process\<close>.\<close>

definition prod_turn :: "'e ingest_env \<Rightarrow> 'e ingest_sys \<Rightarrow> 'e ingest_sys" where
  "prod_turn env s =
     (case gsCtx s of
        Some e \<Rightarrow> s\<lparr>gsErr := Some (CtxStop e), gsProd := Finished\<rparr>
      | None \<Rightarrow>
          (case Next (gsParser s) of
             (Inl EndOfStream, p) \<Rightarrow> s\<lparr>gsParser := p, gsProd := Finished\<rparr>
           | (Inl e, p) \<Rightarrow> s\<lparr>gsParser := p, gsErr := Some (ParseStop e), gsProd := Finished\<rparr>
           | (Inr raw, p) \<Rightarrow>
               (case take_record (giStages env) raw (gsStats s) of
                  (None, st) \<Rightarrow> s\<lparr>gsParser := p, gsStats := st\<rparr>
                | (Some b, st) \<Rightarrow> s\<lparr>gsParser := p, gsStats := st, gsProd := Sending b\<rparr>)))"

definition open_turn :: "'e ingest_env \<Rightarrow> 'e ingest_sys \<Rightarrow> 'e ingest_sys" where
  "open_turn env s =
     (case load_open (giDb env) 0 of
        Inl e \<Rightarrow> s\<lparr>gsLoad := Returned (Some e) 0\<rparr>
      | Inr ls \<Rightarrow> s\<lparr>gsLoad := Copying ls\<rparr>)"

text \<open>The loader on one event of its select; when \<open>copyAll\<close> returns, \<open>Load\<close> does.\<close>

definition load_turn :: "'e ingest_env \<Rightarrow> 'e event \<Rightarrow> load_state \<Rightarrow> 'e ingest_sys \<Rightarrow> 'e ingest_sys" where
  "load_turn env ev ls s =
     (case copy_turn (giDb env) ev ls of
        (None, ls) \<Rightarrow> s\<lparr>gsLoad := Copying ls\<rparr>
      | (Some (Some e, n), ls) \<Rightarrow> s\<lparr>gsLoad := Returned (Some e) 0\<rparr>
      | (Some (None, n), ls) \<Rightarrow>
          (case load_close (giDb env) n ls (gsTable s) of
             ((err, n), T) \<Rightarrow> s\<lparr>gsLoad := Returned err n, gsTable := T\<rparr>))"

inductive ingest_step :: "'e ingest_env \<Rightarrow> 'e ingest_sys \<Rightarrow> 'e ingest_sys \<Rightarrow> bool" for env where
  signal: "giSignal env = Some e \<Longrightarrow> gsCtx s = None \<Longrightarrow> ingest_step env s (s\<lparr>gsCtx := Some e\<rparr>)"
| produce: "gsProd s = Looping \<Longrightarrow> ingest_step env s (prod_turn env s)"
| send: "gsProd s = Sending b \<Longrightarrow> length (gsChan s) < CopyChannelBuffer \<Longrightarrow>
    ingest_step env s (s\<lparr>gsChan := gsChan s @ [b], gsProd := Looping\<rparr>)"
| send_stop: "gsProd s = Sending b \<Longrightarrow> gsCtx s = Some e \<Longrightarrow>
    ingest_step env s (s\<lparr>gsErr := Some (CtxStop e), gsProd := Finished\<rparr>)"
| load_open: "gsLoad s = Opening \<Longrightarrow> ingest_step env s (open_turn env s)"
| receive: "gsLoad s = Copying ls \<Longrightarrow> gsChan s = b # bs \<Longrightarrow>
    ingest_step env s (load_turn env (Row b) ls (s\<lparr>gsChan := bs\<rparr>))"
| drained: "gsLoad s = Copying ls \<Longrightarrow> gsChan s = [] \<Longrightarrow> gsProd s = Finished \<Longrightarrow>
    ingest_step env s (load_turn env ChanClosed ls s)"
| load_stop: "gsLoad s = Copying ls \<Longrightarrow> gsCtx s = Some e \<Longrightarrow>
    ingest_step env s (load_turn env (CtxDone e) ls s)"
| main_cancel: "gsLoad s = Returned err n \<Longrightarrow> gsCtx s = None \<Longrightarrow>
    ingest_step env s (s\<lparr>gsCtx := Some (giCanceled env)\<rparr>)"

definition ingest_reach :: "'e ingest_env \<Rightarrow> 'e ingest_sys \<Rightarrow> 'e ingest_sys \<Rightarrow> bool" where
  "ingest_reach env = (ingest_step env)\<^sup>*\<^sup>*"

text \<open>The producer has published and the loader has returned; \<open>run\<close>'s result then.\<close>

definition ingest_final :: "'e ingest_sys \<Rightarrow> bool" where
  "ingest_final s \<longleftrightarrow> gsProd s = Finished \<and> (case gsLoad s of Returned err n \<Rightarrow> True | _ \<Rightarrow> False)"

datatype 'e run_error = LoadFailed "'e load_error" | ProducingRows "'e stop" | NotFinished

definition run_result :: "'e ingest_sys \<Rightarrow> 'e run_error + ingest_stats" where
  "run_result s =
     (case gsLoad s of
        Returned (Some e) n \<Rightarrow> Inl (LoadFailed e)
      | Returned None n \<Rightarrow>
          (case gsErr s of
             Some e \<Rightarrow> Inl (ProducingRows e)
           | None \<Rightarrow> Inr ((gsStats s)\<lparr>isLoaded := int n\<rparr>))
      | _ \<Rightarrow> Inl NotFinished)"

section \<open>Every run ends\<close>

lemma skip_loop_length: "length (snd (skip_loop err bs)) \<le> length bs"
  by (induction err bs rule: skip_loop.induct) auto

lemma next_loop_length: "length (psRest (snd (next_loop p bs))) \<le> length bs"
proof (induction p bs rule: next_loop.induct)
  case (2 p b bs)
  obtain d q where "consume p b = (d, q)" by fastforce
  with "2.IH"[OF this[symmetric] refl] show ?case by (cases d) auto
qed simp

lemma Next_length: "Next p = (r, p') \<Longrightarrow> length (psRest p') \<le> length (psRest p)"
proof -
  assume n: "Next p = (r, p')"
  obtain err q where q: "skipToObject p = (err, q)" by fastforce
  then have "length (psRest q) \<le> length (psRest p)"
    using skip_loop_length[of "psEnd p" "psRest p"] by (auto simp: skipToObject_def split: prod.splits)
  moreover have "length (psRest p') \<le> length (psRest q)"
    using n q next_loop_length[of "reset q" "psRest q"] by (auto simp: Next_def split: option.splits)
  ultimately show ?thesis by simp
qed

lemma Next_shorter: "Next p = (Inr raw, p') \<Longrightarrow> length (psRest p') < length (psRest p)"
  using Next_Inr by fastforce

definition prod_weight :: "prod_phase \<Rightarrow> nat" where
  "prod_weight ph = (case ph of Looping \<Rightarrow> 1 | Sending _ \<Rightarrow> 3 | Finished \<Rightarrow> 0)"

definition load_weight :: "'e load_phase \<Rightarrow> nat" where
  "load_weight ph = (case ph of Opening \<Rightarrow> 2 | Copying _ \<Rightarrow> 1 | Returned _ _ \<Rightarrow> 0)"

definition work_left :: "'e ingest_sys \<Rightarrow> nat" where
  "work_left s = 4 * length (psRest (gsParser s)) + prod_weight (gsProd s) + length (gsChan s) +
     load_weight (gsLoad s) + (if gsCtx s = None then 1 else 0)"

lemmas weight_defs = work_left_def prod_weight_def load_weight_def

lemma prod_turn_work: "gsProd s = Looping \<Longrightarrow> work_left (prod_turn env s) < work_left s"
  using Next_length[of "gsParser s"] Next_shorter[of "gsParser s"]
  by (fastforce simp: prod_turn_def weight_defs split: option.splits prod.splits sum.splits parse_error.splits)

lemma load_turn_weight:
  "load_weight (gsLoad (load_turn env ev ls s)) \<le> 1"
  "gsParser (load_turn env ev ls s) = gsParser s" "gsProd (load_turn env ev ls s) = gsProd s"
  "gsChan (load_turn env ev ls s) = gsChan s" "gsCtx (load_turn env ev ls s) = gsCtx s"
  "gsErr (load_turn env ev ls s) = gsErr s" "gsStats (load_turn env ev ls s) = gsStats s"
  by (auto simp: load_turn_def load_weight_def split: prod.splits option.splits)

lemma load_turn_returns:
  assumes "\<And>b. ev \<noteq> Row b"
  shows "\<exists>err n. gsLoad (load_turn env ev ls s) = Returned err n"
  using assms by (cases ev) (auto simp: load_turn_def copy_turn_def split: prod.splits option.splits sum.splits)

lemma step_work: "ingest_step env s s' \<Longrightarrow> work_left s' < work_left s"
proof (induction rule: ingest_step.induct)
  case (produce s)
  then show ?case by (rule prod_turn_work)
next
  case (receive s ls b bs)
  with load_turn_weight(1)[of env "Row b" ls "s\<lparr>gsChan := bs\<rparr>"] show ?case
    by (simp add: work_left_def load_turn_weight) (simp add: load_weight_def)
next
  case (drained s ls)
  then obtain err n where "gsLoad (load_turn env ChanClosed ls s) = Returned err n"
    using load_turn_returns[of ChanClosed env ls s] by auto
  with drained show ?case by (simp add: work_left_def load_turn_weight load_weight_def)
next
  case (load_stop s ls e)
  then obtain err n where "gsLoad (load_turn env (CtxDone e) ls s) = Returned err n"
    using load_turn_returns[of "CtxDone e" env ls s] by auto
  with load_stop show ?case by (simp add: work_left_def load_turn_weight load_weight_def)
next
  case (load_open s)
  then show ?case by (auto simp: open_turn_def weight_defs split: sum.split)
qed (simp_all add: weight_defs)

text \<open>A state without a next step is a finished run: a full channel is drained by the loader, and a
  loader that has returned cancels the context, which frees a blocked producer.\<close>

lemma step_exists: "ingest_final s \<or> (\<exists>s'. ingest_step env s s')"
proof (cases "gsLoad s")
  case Opening
  then show ?thesis by (blast intro: ingest_step.intros)
next
  case (Copying ls)
  then show ?thesis
  proof (cases "gsChan s")
    case Nil
    then show ?thesis
      using Copying ingest_step.produce[of s env] ingest_step.drained[of s ls env]
        ingest_step.send[of s _ env]
      by (cases "gsProd s") (auto simp: CopyChannelBuffer_def copyBatchSize_def)
  next
    case (Cons b bs)
    with Copying show ?thesis by (blast intro: ingest_step.intros)
  qed
next
  case (Returned err n)
  then show ?thesis
    by (cases "gsProd s"; cases "gsCtx s") (auto simp: ingest_final_def intro: ingest_step.intros)
qed

lemma wf_ingest: "wfp (\<lambda>s' s. ingest_step env s s')"
  by (rule wfp_if_convertible_to_nat[of _ work_left]) (rule step_work)

lemma reach_final: "\<exists>s'. ingest_reach env s s' \<and> ingest_final s'"
proof (induction s rule: wfp_induct_rule[OF wf_ingest[of env]])
  case (1 s)
  from step_exists[of s env] show ?case
  proof
    assume "ingest_final s"
    then show ?thesis unfolding ingest_reach_def by blast
  next
    assume "\<exists>s'. ingest_step env s s'"
    then obtain s' where "ingest_step env s s'" by blast
    with "1.IH"[OF this] show ?thesis unfolding ingest_reach_def by (meson converse_rtranclp_into_rtranclp)
  qed
qed

section \<open>The invariant\<close>

text \<open>The parser after yielding these objects.\<close>

fun parser_after :: "'e parser \<Rightarrow> string list \<Rightarrow> 'e parser option" where
  "parser_after p [] = Some p"
| "parser_after p (raw # raws) =
     (case Next p of
        (Inr x, q) \<Rightarrow> (if x = raw then parser_after q raws else None)
      | _ \<Rightarrow> None)"

lemma parser_after_snoc:
  "parser_after p raws = Some q \<Longrightarrow> Next q = (Inr raw, r) \<Longrightarrow> parser_after p (raws @ [raw]) = Some r"
  by (induction p raws rule: parser_after.induct) (auto split: prod.splits sum.splits if_splits)

lemma parser_after_all:
  "parser_after p raws = Some q \<Longrightarrow> parse_all p = (let (more, e) = parse_all q in (raws @ more, e))"
proof (induction p raws rule: parser_after.induct)
  case (2 p raw raws)
  then obtain r where r: "Next p = (Inr raw, r)" "parser_after r raws = Some q"
    by (auto split: prod.splits sum.splits if_splits)
  with "2.IH" show ?case by (subst parse_all.simps) (auto simp: Let_def split: prod.split)
qed simp

lemma parser_after_end:
  "parser_after p raws = Some q \<Longrightarrow> fst (Next q) = Inl e \<Longrightarrow> parse_all p = (raws, e)"
  using parser_after_all[of p raws q] by (cases "Next q") (simp add: parse_all.simps[of q])

lemma parser_after_prefix:
  "parser_after p raws = Some q \<Longrightarrow> parse_all p = (all, e) \<Longrightarrow> \<exists>more. all = raws @ more"
  using parser_after_all[of p raws q] by (auto simp: Let_def split: prod.splits)

text \<open>The producer: its tally is that of the objects read, and the rows it produced are those sent, the
  one it is sending and, only if the context stopped it, one it gave up.\<close>

definition pending :: "prod_phase \<Rightarrow> business list" where
  "pending ph = (case ph of Sending b \<Rightarrow> [b] | _ \<Rightarrow> [])"

definition stopped_by_ctx :: "'e stop option \<Rightarrow> bool" where
  "stopped_by_ctx err = (case err of Some (CtxStop e) \<Rightarrow> True | _ \<Rightarrow> False)"

definition prod_inv :: "'e ingest_env \<Rightarrow> 'e parser \<Rightarrow> string list \<Rightarrow> business list \<Rightarrow> 'e ingest_sys \<Rightarrow> bool" where
  "prod_inv env p0 raws sent s \<longleftrightarrow>
     (\<exists>q lost. parser_after p0 raws = Some q \<and>
       produce (giStages env) raws no_stats = (sent @ pending (gsProd s) @ lost, gsStats s) \<and>
       (if gsProd s = Finished
        then (case gsErr s of
            None \<Rightarrow> fst (Next q) = Inl EndOfStream \<and> lost = []
          | Some (ParseStop e) \<Rightarrow> fst (Next q) = Inl e \<and> e \<noteq> EndOfStream \<and> lost = []
          | Some (CtxStop e) \<Rightarrow> True)
        else gsParser s = q \<and> gsErr s = None \<and> lost = []))"

text \<open>The loader: its locals are those of the rows taken, and the table is the initial one until it
  commits, which needs a finished producer and an empty channel.\<close>

definition taken_inv :: "'e ingest_env \<Rightarrow> biz_table \<Rightarrow> business list \<Rightarrow> 'e ingest_sys \<Rightarrow> bool" where
  "taken_inv env T0 taken s \<longleftrightarrow>
     (case gsLoad s of
        Opening \<Rightarrow> taken = [] \<and> gsTable s = T0
      | Copying ls \<Rightarrow> load_inv (giDb env) taken ls \<and> gsTable s = T0
      | Returned (Some e) n \<Rightarrow> gsTable s = T0 \<or>
          gsProd s = Finished \<and> gsChan s = [] \<and> load_failed (giDb env) taken e T0 (gsTable s)
      | Returned None n \<Rightarrow> gsProd s = Finished \<and> gsChan s = [] \<and> n = length taken \<and> distinct (map bzID taken) \<and>
          list_all (loadable (giDb env)) taken \<and> gsTable s = loaded_table (giDb env) taken T0)"

definition ingest_inv :: "'e ingest_env \<Rightarrow> 'e parser \<Rightarrow> biz_table \<Rightarrow> 'e ingest_sys \<Rightarrow> bool" where
  "ingest_inv env p0 T0 s \<longleftrightarrow> (\<exists>raws taken. prod_inv env p0 raws (taken @ gsChan s) s \<and> taken_inv env T0 taken s)"

lemma inv_start: "ingest_inv env p T (ingest_start p T)"
  by (auto simp: ingest_inv_def prod_inv_def taken_inv_def ingest_start_def pending_def intro!: exI[of _ "[]"])

lemma prod_inv_cong:
  "gsParser s' = gsParser s \<Longrightarrow> gsStats s' = gsStats s \<Longrightarrow> gsErr s' = gsErr s \<Longrightarrow> gsProd s' = gsProd s \<Longrightarrow>
    prod_inv env p0 raws sent s' = prod_inv env p0 raws sent s"
  by (simp add: prod_inv_def)

lemma taken_inv_cong:
  "gsLoad s' = gsLoad s \<Longrightarrow> gsTable s' = gsTable s \<Longrightarrow> gsChan s' = gsChan s \<Longrightarrow> gsProd s' = gsProd s \<Longrightarrow>
    taken_inv env T0 taken s' = taken_inv env T0 taken s"
  by (simp add: taken_inv_def split: load_phase.split option.split)

text \<open>A producer step leaves a loader alone that has not returned successfully.\<close>

lemma taken_inv_prod:
  assumes "taken_inv env T0 taken s" "gsProd s \<noteq> Finished" "gsLoad s' = gsLoad s" "gsTable s' = gsTable s"
  shows "taken_inv env T0 taken s'"
  using assms by (auto simp: taken_inv_def split: load_phase.splits option.splits)

lemma prod_turn_sel:
  "gsChan (prod_turn env s) = gsChan s" "gsLoad (prod_turn env s) = gsLoad s" "gsTable (prod_turn env s) = gsTable s"
  "gsCtx (prod_turn env s) = gsCtx s"
  by (simp_all add: prod_turn_def split: option.split prod.split sum.split parse_error.split)

lemma produce_snoc:
  "produce env raws s = (bs, s1) \<Longrightarrow> take_record env raw s1 = (b, s2) \<Longrightarrow>
    produce env (raws @ [raw]) s = (bs @ (case b of None \<Rightarrow> [] | Some b \<Rightarrow> [b]), s2)"
  by (simp add: produce_append)

lemma prod_turn_inv:
  assumes "prod_inv env p0 raws sent s" "gsProd s = Looping"
  shows "\<exists>raws'. prod_inv env p0 raws' sent (prod_turn env s)"
proof -
  have inv: "parser_after p0 raws = Some (gsParser s)" "produce (giStages env) raws no_stats = (sent, gsStats s)"
    "gsErr s = None"
    using assms by (auto simp: prod_inv_def pending_def)
  obtain r p where n: "Next (gsParser s) = (r, p)" by fastforce
  show ?thesis
  proof (cases "gsCtx s")
    case (Some e)
    with inv show ?thesis by (intro exI[of _ raws]) (simp add: prod_turn_def prod_inv_def pending_def)
  next
    case None
    show ?thesis
    proof (cases r)
      case (Inl e)
      have "prod_turn env s = (if e = EndOfStream then s\<lparr>gsParser := p, gsProd := Finished\<rparr>
          else s\<lparr>gsParser := p, gsErr := Some (ParseStop e), gsProd := Finished\<rparr>)"
        using None n Inl by (cases e) (simp_all add: prod_turn_def)
      with inv n Inl show ?thesis by (intro exI[of _ raws]) (auto simp: prod_inv_def pending_def)
    next
      case (Inr raw)
      obtain b st where t: "take_record (giStages env) raw (gsStats s) = (b, st)" by fastforce
      note q = parser_after_snoc[OF inv(1) n[unfolded Inr]] produce_snoc[OF inv(2) t]
      from inv(3) n Inr t None q show ?thesis
        by (intro exI[of _ "raws @ [raw]"]) (cases b; simp add: prod_turn_def prod_inv_def pending_def assms(2))
    qed
  qed
qed

lemma open_turn_sel:
  "gsParser (open_turn env s) = gsParser s" "gsStats (open_turn env s) = gsStats s" "gsErr (open_turn env s) = gsErr s"
  "gsProd (open_turn env s) = gsProd s" "gsChan (open_turn env s) = gsChan s" "gsCtx (open_turn env s) = gsCtx s"
  by (simp_all add: open_turn_def split: sum.split)

lemma send_inv:
  assumes "prod_inv env p0 raws sent s" "gsProd s = Sending b" "gsProd s' = Looping" "gsParser s' = gsParser s"
    "gsStats s' = gsStats s" "gsErr s' = gsErr s"
  shows "prod_inv env p0 raws (sent @ [b]) s'"
  using assms by (auto simp: prod_inv_def pending_def)

lemma send_stop_inv:
  assumes "prod_inv env p0 raws sent s" "gsProd s = Sending b" "gsStats s' = gsStats s" "gsProd s' = Finished"
    "gsErr s' = Some (CtxStop e)"
  shows "prod_inv env p0 raws sent s'"
  using assms by (auto simp: prod_inv_def pending_def)

lemma load_turn_inv:
  assumes "load_inv (giDb env) taken ls" "gsTable s = T0"
  shows "ev = Row b \<Longrightarrow> taken_inv env T0 (taken @ [b]) (load_turn env ev ls s)"
    and "ev = ChanClosed \<Longrightarrow> gsProd s = Finished \<Longrightarrow> gsChan s = [] \<Longrightarrow> taken_inv env T0 taken (load_turn env ev ls s)"
    and "ev = CtxDone e \<Longrightarrow> taken_inv env T0 taken (load_turn env ev ls s)"
proof -
  obtain r ls' where t: "copy_turn (giDb env) ev ls = (r, ls')" by fastforce
  show "taken_inv env T0 (taken @ [b]) (load_turn env ev ls s)" if "ev = Row b"
    using copy_turn_Row[OF t[unfolded that] assms(1)] t that assms(2)
    by (cases r) (auto simp: load_turn_def taken_inv_def)
  show "taken_inv env T0 taken (load_turn env ev ls s)" if "ev = CtxDone e"
    using assms(2) that by (simp add: load_turn_def taken_inv_def copy_turn_Done)
  show "taken_inv env T0 taken (load_turn env ev ls s)" if "ev = ChanClosed" "gsProd s = Finished" "gsChan s = []"
  proof (cases "\<exists>e n. r = Some (Some e, n)")
    case True
    then show ?thesis using t that assms(2) by (auto simp: load_turn_def taken_inv_def)
  next
    case False
    with copy_turn_Closed[OF t[unfolded that] assms(1)] have r: "r = Some (None, length taken)"
      "lsStage ls' = map (store (dbTypes (giDb env))) taken" "list_all (fits (dbTypes (giDb env))) taken" "distinct (map bzID taken)"
      by auto
    obtain err m T where c: "load_close (giDb env) (length taken) ls' T0 = ((err, m), T)" by (metis prod.collapse)
    have s: "load_turn env ev ls s = s\<lparr>gsLoad := Returned err m, gsTable := T\<rparr>" using t r(1) c assms(2) by (simp add: load_turn_def)
    from load_close_cases[OF r(2-4) c] that r(4) show ?thesis
      unfolding s by (cases err) (auto simp: taken_inv_def)
  qed
qed

lemma inv_ctx: "ingest_inv env p0 T0 (s\<lparr>gsCtx := x\<rparr>) = ingest_inv env p0 T0 s"
  by (simp add: ingest_inv_def prod_inv_cong[of "s\<lparr>gsCtx := x\<rparr>" s] taken_inv_cong[of "s\<lparr>gsCtx := x\<rparr>" s])

lemma step_inv: "ingest_step env s s' \<Longrightarrow> ingest_inv env p0 T0 s \<Longrightarrow> ingest_inv env p0 T0 s'"
proof (induction rule: ingest_step.induct)
  case (produce s)
  then obtain raws taken where inv: "prod_inv env p0 raws (taken @ gsChan s) s" "taken_inv env T0 taken s"
    by (auto simp: ingest_inv_def)
  obtain raws' where "prod_inv env p0 raws' (taken @ gsChan s) (prod_turn env s)"
    using prod_turn_inv[OF inv(1) produce.hyps] by blast
  moreover have "taken_inv env T0 taken (prod_turn env s)"
    by (rule taken_inv_prod[OF inv(2)]) (simp_all add: produce.hyps prod_turn_sel)
  ultimately show ?case unfolding ingest_inv_def prod_turn_sel by blast
next
  case (send s b)
  then obtain raws taken where inv: "prod_inv env p0 raws (taken @ gsChan s) s" "taken_inv env T0 taken s"
    by (auto simp: ingest_inv_def)
  let ?s = "s\<lparr>gsChan := gsChan s @ [b], gsProd := Looping\<rparr>"
  have "prod_inv env p0 raws (taken @ gsChan ?s) ?s" using send_inv[OF inv(1) send.hyps(1), of ?s] by simp
  moreover have "taken_inv env T0 taken ?s" by (rule taken_inv_prod[OF inv(2)]) (simp_all add: send.hyps)
  ultimately show ?case unfolding ingest_inv_def by blast
next
  case (send_stop s b e)
  then obtain raws taken where inv: "prod_inv env p0 raws (taken @ gsChan s) s" "taken_inv env T0 taken s"
    by (auto simp: ingest_inv_def)
  let ?s = "s\<lparr>gsErr := Some (CtxStop e), gsProd := Finished\<rparr>"
  have "prod_inv env p0 raws (taken @ gsChan ?s) ?s" using send_stop_inv[OF inv(1) send_stop.hyps(1), of ?s] by simp
  moreover have "taken_inv env T0 taken ?s" by (rule taken_inv_prod[OF inv(2)]) (simp_all add: send_stop.hyps)
  ultimately show ?case unfolding ingest_inv_def by blast
next
  case (load_open s)
  then obtain raws taken where inv: "prod_inv env p0 raws (taken @ gsChan s) s" "taken = []" "gsTable s = T0"
    by (auto simp: ingest_inv_def taken_inv_def)
  have "taken_inv env T0 [] (open_turn env s)"
    using inv(3) by (auto simp: open_turn_def taken_inv_def dest: load_open_inv split: sum.split)
  moreover have "prod_inv env p0 raws ([] @ gsChan (open_turn env s)) (open_turn env s)"
    using inv(1,2) by (simp add: prod_inv_cong[of "open_turn env s" s] open_turn_sel)
  ultimately show ?case unfolding ingest_inv_def by blast
next
  case (receive s ls b bs)
  then obtain raws taken where inv: "prod_inv env p0 raws (taken @ gsChan s) s" "load_inv (giDb env) taken ls" "gsTable s = T0"
    by (auto simp: ingest_inv_def taken_inv_def)
  let ?s = "load_turn env (Row b) ls (s\<lparr>gsChan := bs\<rparr>)"
  have "prod_inv env p0 raws ((taken @ [b]) @ gsChan ?s) ?s"
    using inv(1) receive.hyps(2) by (simp add: prod_inv_cong[of ?s s] load_turn_weight)
  moreover have "taken_inv env T0 (taken @ [b]) ?s"
    by (rule load_turn_inv(1)[OF inv(2) _ refl]) (simp add: inv(3))
  ultimately show ?case unfolding ingest_inv_def by blast
next
  case (drained s ls)
  then obtain raws taken where inv: "prod_inv env p0 raws (taken @ gsChan s) s" "load_inv (giDb env) taken ls" "gsTable s = T0"
    by (auto simp: ingest_inv_def taken_inv_def)
  let ?s = "load_turn env ChanClosed ls s"
  have "prod_inv env p0 raws (taken @ gsChan ?s) ?s"
    using inv(1) by (simp add: prod_inv_cong[of ?s s] load_turn_weight)
  moreover have "taken_inv env T0 taken ?s"
    by (rule load_turn_inv(2)[OF inv(2,3) refl]) (simp_all add: drained.hyps)
  ultimately show ?case unfolding ingest_inv_def by blast
next
  case (load_stop s ls e)
  then obtain raws taken where inv: "prod_inv env p0 raws (taken @ gsChan s) s" "load_inv (giDb env) taken ls" "gsTable s = T0"
    by (auto simp: ingest_inv_def taken_inv_def)
  let ?s = "load_turn env (CtxDone e) ls s"
  have "prod_inv env p0 raws (taken @ gsChan ?s) ?s"
    using inv(1) by (simp add: prod_inv_cong[of ?s s] load_turn_weight)
  moreover have "taken_inv env T0 taken ?s" by (rule load_turn_inv(3)[OF inv(2,3) refl])
  ultimately show ?case unfolding ingest_inv_def by blast
qed (simp_all add: inv_ctx)

lemma reach_inv: "ingest_reach env (ingest_start p0 T0) s \<Longrightarrow> ingest_inv env p0 T0 s"
  unfolding ingest_reach_def
  by (induction rule: rtranclp_induct) (auto intro: inv_start step_inv)

end
