(* ===== verification/Ingest_Runs.thy ===== *)
theory Ingest_Runs
  imports Ingest_System
begin

text \<open>
  What every schedule of an ingest run does: it ends; a successful run has loaded exactly the rows
  of the whole file; without a signal and without database faults the outcome does not depend
  on the schedule, and a file that breaks off half-way is loaded up to the break although the
  run reports an error.
\<close>

section \<open>Outcomes\<close>

lemma final_Returned:
  assumes "ingest_final s"
  obtains err n where "gsLoad s = Returned err n" "gsProd s = Finished"
  using assms by (auto simp: ingest_final_def split: load_phase.splits)

text \<open>What the invariant says of a run whose loader succeeded.\<close>

lemma loaded_inv:
  assumes "ingest_inv env p0 T0 s" "gsLoad s = Returned None n"
  obtains raws bs lost q where "parser_after p0 raws = Some q"
    "produce (giStages env) raws no_stats = (bs @ lost, gsStats s)"
    "n = length bs" "distinct (map bzID bs)" "list_all (loadable (giDb env)) bs" "gsTable s = loaded_table (giDb env) bs T0"
    "gsErr s = None \<longrightarrow> fst (Next q) = Inl EndOfStream \<and> lost = []"
    "\<forall>e. gsErr s = Some (ParseStop e) \<longrightarrow> fst (Next q) = Inl e \<and> e \<noteq> EndOfStream \<and> lost = []"
proof -
  obtain raws taken where inv: "prod_inv env p0 raws (taken @ gsChan s) s" "taken_inv env T0 taken s"
    using assms(1) by (auto simp: ingest_inv_def)
  then have t: "gsProd s = Finished" "gsChan s = []" "n = length taken" "distinct (map bzID taken)"
    "list_all (loadable (giDb env)) taken" "gsTable s = loaded_table (giDb env) taken T0"
    using assms(2) by (simp_all add: taken_inv_def)
  obtain q lost where "parser_after p0 raws = Some q"
    "produce (giStages env) raws no_stats = (taken @ lost, gsStats s)"
    and err: "case gsErr s of None \<Rightarrow> fst (Next q) = Inl EndOfStream \<and> lost = []
      | Some (ParseStop e) \<Rightarrow> fst (Next q) = Inl e \<and> e \<noteq> EndOfStream \<and> lost = []
      | Some (CtxStop e) \<Rightarrow> True"
    using inv(1) t(1,2) by (auto simp: prod_inv_def pending_def)
  with t(3-6) that[of raws q taken lost] show ?thesis by (auto split: option.splits stop.splits)
qed

text \<open>And of one whose loader failed.\<close>

lemma failed_inv:
  assumes "ingest_inv env p0 T0 s" "gsLoad s = Returned (Some e) n" "gsTable s \<noteq> T0"
  obtains raws bs lost q where "parser_after p0 raws = Some q"
    "produce (giStages env) raws no_stats = (bs @ lost, gsStats s)" "load_failed (giDb env) bs e T0 (gsTable s)"
proof -
  obtain raws taken where inv: "prod_inv env p0 raws (taken @ gsChan s) s" "taken_inv env T0 taken s"
    using assms(1) by (auto simp: ingest_inv_def)
  then have t: "gsProd s = Finished" "gsChan s = []" "load_failed (giDb env) taken e T0 (gsTable s)"
    using assms(2,3) by (simp_all add: taken_inv_def)
  with inv(1) obtain q lost where "parser_after p0 raws = Some q"
    "produce (giStages env) raws no_stats = (taken @ lost, gsStats s)"
    by (auto simp: prod_inv_def pending_def)
  with t(3) that show ?thesis by blast
qed

text \<open>The rows of a prefix of the file's records, but for the last one perhaps, are in the table.\<close>

definition prefix_loaded :: "'e ingest_env \<Rightarrow> 'e parser \<Rightarrow> biz_table \<Rightarrow> biz_table \<Rightarrow> bool" where
  "prefix_loaded env p0 T0 T \<longleftrightarrow> (\<exists>raws bs lost. parser_after p0 raws \<noteq> None \<and>
     fst (produce (giStages env) raws no_stats) = bs @ lost \<and> list_all (loadable (giDb env)) bs \<and>
     T = loaded_table (giDb env) bs T0)"

text \<open>What the result of a run says about the table.\<close>

definition outcome_ok :: "'e ingest_env \<Rightarrow> 'e parser \<Rightarrow> biz_table \<Rightarrow> 'e run_error + ingest_stats \<Rightarrow> biz_table \<Rightarrow> bool" where
  "outcome_ok env p0 T0 res T \<longleftrightarrow>
    (case res of
       Inr st \<Rightarrow> (\<exists>raws bs st0. parse_all p0 = (raws, EndOfStream) \<and>
         produce (giStages env) raws no_stats = (bs, st0) \<and> st = st0\<lparr>isLoaded := int (length bs)\<rparr> \<and>
         distinct (map bzID bs) \<and> list_all (loadable (giDb env)) bs \<and> T = loaded_table (giDb env) bs T0)
     | Inl (LoadFailed e) \<Rightarrow> T = T0 \<or> (\<exists>x. e = Committing x) \<and> prefix_loaded env p0 T0 T
     | Inl (ProducingRows (ParseStop x)) \<Rightarrow> (\<exists>raws bs. parse_all p0 = (raws, x) \<and> x \<noteq> EndOfStream \<and>
         fst (produce (giStages env) raws no_stats) = bs \<and> list_all (loadable (giDb env)) bs \<and>
         T = loaded_table (giDb env) bs T0)
     | Inl (ProducingRows (CtxStop x)) \<Rightarrow> prefix_loaded env p0 T0 T
     | Inl NotFinished \<Rightarrow> False)"

lemma parse_all_after: "parse_all p = (raws, e) \<Longrightarrow> parser_after p raws \<noteq> None"
proof (induction p arbitrary: raws rule: parse_all.induct)
  case (1 p)
  show ?case
  proof (cases "Next p")
    case (Pair r q)
    show ?thesis
    proof (cases r)
      case (Inl x)
      with 1 Pair show ?thesis by (simp add: parse_all.simps[of p])
    next
      case (Inr raw)
      obtain more e' where m: "parse_all q = (more, e')" by fastforce
      with 1 Pair Inr have "raws = raw # more" by (simp add: parse_all.simps[of p])
      moreover have "parser_after q more \<noteq> None" using "1.IH" Pair Inr m "1.prems" by (auto simp: parse_all.simps[of p])
      ultimately show ?thesis using Pair Inr by simp
    qed
  qed
qed

lemma broken_prefix:
  assumes "parse_all p0 = (raws, x)" "list_all (loadable (giDb env)) (fst (produce (giStages env) raws no_stats))"
  shows "prefix_loaded env p0 T0 (loaded_table (giDb env) (fst (produce (giStages env) raws no_stats)) T0)"
  unfolding prefix_loaded_def using parse_all_after[OF assms(1)] assms(2)
  by (intro exI[of _ raws] exI[of _ "fst (produce (giStages env) raws no_stats)"] exI[of _ "[]"]) simp

lemma outcome_aux:
  assumes inv: "ingest_inv env p0 T0 s" and fin: "ingest_final s"
  shows "outcome_ok env p0 T0 (run_result s) (gsTable s)"
proof -
  obtain err n where l: "gsLoad s = Returned err n" by (rule final_Returned[OF fin])
  show ?thesis
  proof (cases err)
    case (Some e)
    have "\<exists>x. e = Committing x" "prefix_loaded env p0 T0 (gsTable s)" if ne: "gsTable s \<noteq> T0"
    proof -
      obtain raws bs lost q where f: "parser_after p0 raws = Some q"
        "produce (giStages env) raws no_stats = (bs @ lost, gsStats s)" "load_failed (giDb env) bs e T0 (gsTable s)"
        by (rule failed_inv[OF inv l[unfolded Some] ne])
      show "\<exists>x. e = Committing x" using f(3) ne by (auto simp: load_failed_def)
      have "list_all (loadable (giDb env)) bs \<and> gsTable s = loaded_table (giDb env) bs T0"
        using f(3) ne by (auto simp: load_failed_def)
      with f(1,2) show "prefix_loaded env p0 T0 (gsTable s)" unfolding prefix_loaded_def
        by (intro exI[of _ raws] exI[of _ bs] exI[of _ lost]) simp
    qed
    with l Some show ?thesis by (auto simp: outcome_ok_def run_result_def)
  next
    case None
    obtain raws bs lost q where p: "parser_after p0 raws = Some q"
      "produce (giStages env) raws no_stats = (bs @ lost, gsStats s)"
      "n = length bs" "distinct (map bzID bs)" "list_all (loadable (giDb env)) bs" "gsTable s = loaded_table (giDb env) bs T0"
      and ok: "gsErr s = None \<longrightarrow> fst (Next q) = Inl EndOfStream \<and> lost = []"
      and stop: "\<forall>e. gsErr s = Some (ParseStop e) \<longrightarrow> fst (Next q) = Inl e \<and> e \<noteq> EndOfStream \<and> lost = []"
      by (rule loaded_inv[OF inv l[unfolded None]]) (rule that)
    show ?thesis
    proof (cases "gsErr s")
      case None
      with ok p parser_after_end[OF p(1)] l \<open>err = None\<close> show ?thesis by (auto simp: outcome_ok_def run_result_def)
    next
      case (Some x)
      have "prefix_loaded env p0 T0 (gsTable s)" unfolding prefix_loaded_def
        using p by (intro exI[of _ raws] exI[of _ bs] exI[of _ lost]) simp
      with Some l \<open>err = None\<close> stop p parser_after_end[OF p(1)] show ?thesis
        by (cases x) (auto simp: outcome_ok_def run_result_def)
    qed
  qed
qed

section \<open>Undisturbed runs\<close>

definition undisturbed :: "'e ingest_env \<Rightarrow> bool" where
  "undisturbed env \<longleftrightarrow> giSignal env = None \<and> healthy_db (giDb env)"

definition calm_state :: "'e ingest_sys \<Rightarrow> bool" where
  "calm_state s \<longleftrightarrow> \<not> stopped_by_ctx (gsErr s) \<and>
     (case gsLoad s of Returned (Some e) n \<Rightarrow> False | Returned None n \<Rightarrow> True | _ \<Rightarrow> gsCtx s = None)"

lemma calm_ctx:
  assumes "calm_state s" "ingest_inv env p0 T0 s" "gsProd s \<noteq> Finished"
  shows "gsCtx s = None"
  using assms by (auto simp: calm_state_def ingest_inv_def taken_inv_def split: load_phase.splits option.splits)

lemma sent_prefix:
  assumes "prod_inv env p0 raws sent s" "parse_all p0 = (all, e)" "produce (giStages env) all no_stats = (bs, st)"
  shows "\<exists>rest. bs = sent @ rest"
proof -
  obtain q lost where q: "parser_after p0 raws = Some q"
    "produce (giStages env) raws no_stats = (sent @ pending (gsProd s) @ lost, gsStats s)"
    using assms(1) by (auto simp: prod_inv_def)
  obtain more where "all = raws @ more" using parser_after_prefix[OF q(1) assms(2)] by blast
  with q(2) assms(3) show ?thesis by (auto simp: produce_append split: prod.splits)
qed

lemma sent_good:
  assumes "prod_inv env p0 raws sent s" "parse_all p0 = (all, e)" "produce (giStages env) all no_stats = (bs, st)"
    and "distinct (map bzID bs)" "list_all (loadable (giDb env)) bs"
  shows "distinct (map bzID sent)" "list_all (loadable (giDb env)) sent" "list_all (fits (dbTypes (giDb env))) sent"
proof -
  obtain rest where "bs = sent @ rest" using sent_prefix[OF assms(1-3)] by blast
  with assms(4,5) show "distinct (map bzID sent)" "list_all (loadable (giDb env)) sent" by simp_all
  then show "list_all (fits (dbTypes (giDb env))) sent" by (auto simp: loadable_def list_all_iff)
qed

lemma calm_turn:
  assumes "gsLoad (load_turn env ev ls s) = Returned None n \<or> (\<exists>ls'. gsLoad (load_turn env ev ls s) = Copying ls' \<and> gsCtx s = None)"
    and "\<not> stopped_by_ctx (gsErr s)"
  shows "calm_state (load_turn env ev ls s)"
  using assms by (auto simp: calm_state_def load_turn_weight)

lemma calm_step:
  assumes "undisturbed env" "parse_all p0 = (all, e)" "produce (giStages env) all no_stats = (bs, st)"
    and "distinct (map bzID bs)" "list_all (loadable (giDb env)) bs"
  shows "ingest_step env s s' \<Longrightarrow> ingest_inv env p0 T0 s \<Longrightarrow> calm_state s \<Longrightarrow> calm_state s'"
proof (induction rule: ingest_step.induct)
  case (signal e s)
  with assms(1) show ?case by (simp add: undisturbed_def)
next
  case (produce s)
  with calm_ctx[of s env p0 T0] have "gsCtx s = None" by simp
  then have "\<not> stopped_by_ctx (gsErr (prod_turn env s))"
    using produce.prems(2)
    by (auto simp: prod_turn_def calm_state_def stopped_by_ctx_def split: prod.splits sum.splits parse_error.splits option.splits)
  with produce.prems(2) show ?case by (simp add: calm_state_def prod_turn_sel split: load_phase.splits option.splits)
next
  case (send s b)
  then show ?case by (auto simp: calm_state_def split: load_phase.splits option.splits)
next
  case (send_stop s b e)
  with calm_ctx[of s env p0 T0] show ?case by simp
next
  case (load_open s)
  obtain ls where "Ingest_Loader.load_open (giDb env) 0 = Inr ls"
    using load_open_healthy assms(1) unfolding undisturbed_def by blast
  with load_open show ?case by (auto simp: open_turn_def calm_state_def)
next
  case (receive s ls b cs)
  then obtain raws taken where inv: "prod_inv env p0 raws (taken @ b # cs) s" "load_inv (giDb env) taken ls"
    by (auto simp: ingest_inv_def taken_inv_def)
  have "distinct (map bzID (taken @ [b]))" "list_all (fits (dbTypes (giDb env))) (taken @ [b])"
    using sent_good[OF inv(1) assms(2-5)] by simp_all
  then obtain ls' where "copy_turn (giDb env) (Row b) ls = (None, ls')"
    using copy_turn_healthy(1)[OF _ inv(2)] assms(1) unfolding undisturbed_def by blast
  with receive show ?case by (intro calm_turn) (auto simp: load_turn_def calm_state_def)
next
  case (drained s ls)
  then obtain raws taken where inv: "prod_inv env p0 raws (taken @ []) s" "load_inv (giDb env) taken ls"
    by (auto simp: ingest_inv_def taken_inv_def)
  have good: "distinct (map bzID taken)" "list_all (fits (dbTypes (giDb env))) taken" "list_all (loadable (giDb env)) taken"
    using sent_good[OF inv(1) assms(2-5)] by simp_all
  then obtain ls' n where turn: "copy_turn (giDb env) ChanClosed ls = (Some (None, n), ls')"
    using copy_turn_healthy(2)[OF _ inv(2)] assms(1) unfolding undisturbed_def by blast
  with copy_turn_Closed[OF this inv(2)] have "lsStage ls' = map (store (dbTypes (giDb env))) taken" by simp
  with good(3) have "list_all (ctComputes (dbTypes (giDb env))) (lsStage ls')" by (auto simp: loadable_def list_all_iff)
  with drained assms(1) turn show ?case
    by (intro calm_turn[where n = n]) (auto simp: load_turn_def calm_state_def load_close_healthy undisturbed_def)
next
  case (load_stop s ls e)
  then show ?case by (simp add: calm_state_def)
next
  case (main_cancel s err n)
  then show ?case by (auto simp: calm_state_def)
qed

lemma calm_reach:
  assumes "undisturbed env" "parse_all p0 = (all, e)" "produce (giStages env) all no_stats = (bs, st)"
    and "distinct (map bzID bs)" "list_all (loadable (giDb env)) bs" "ingest_reach env (ingest_start p0 T0) s"
  shows "calm_state s"
  using assms(6) unfolding ingest_reach_def
proof (induction rule: rtranclp_induct)
  case base
  show ?case by (simp add: calm_state_def ingest_start_def stopped_by_ctx_def)
next
  case (step s s')
  then show ?case using calm_step[OF assms(1-5)] reach_inv unfolding ingest_reach_def by blast
qed

lemma undisturbed_loaded:
  assumes "undisturbed env" "parse_all p0 = (raws, e)" "produce (giStages env) raws no_stats = (bs, st)"
    and "distinct (map bzID bs)" "list_all (loadable (giDb env)) bs" "ingest_reach env (ingest_start p0 T0) s" "ingest_final s"
  shows "gsTable s = loaded_table (giDb env) bs T0 \<and>
    run_result s = (if e = EndOfStream then Inr (st\<lparr>isLoaded := int (length bs)\<rparr>) else Inl (ProducingRows (ParseStop e)))"
proof -
  note calm = calm_reach[OF assms(1-6)]
  obtain err n where l: "gsLoad s = Returned err n" by (rule final_Returned[OF assms(7)])
  with calm have "err = None" by (auto simp: calm_state_def split: option.splits)
  note l = l[unfolded this]
  obtain raws1 bs1 lost q where p: "parser_after p0 raws1 = Some q"
    "produce (giStages env) raws1 no_stats = (bs1 @ lost, gsStats s)"
    "n = length bs1" "gsTable s = loaded_table (giDb env) bs1 T0"
    and none: "gsErr s = None \<longrightarrow> fst (Next q) = Inl EndOfStream \<and> lost = []"
    and stop: "\<forall>x. gsErr s = Some (ParseStop x) \<longrightarrow> fst (Next q) = Inl x \<and> x \<noteq> EndOfStream \<and> lost = []"
    by (rule loaded_inv[OF reach_inv[OF assms(6)] l]) (rule that)
  show ?thesis
  proof (cases "gsErr s")
    case None
    from parser_after_end[OF p(1)] none None assms(2) have "raws1 = raws" "e = EndOfStream" by auto
    with p none None assms(3) None l show ?thesis by (simp add: run_result_def)
  next
    case (Some y)
    then obtain x where x: "y = ParseStop x" using calm by (cases y) (auto simp: calm_state_def stopped_by_ctx_def)
    note stop = stop[rule_format, OF Some[unfolded x]]
    from parser_after_end[OF p(1)] stop assms(2) have "raws1 = raws" "e = x" by auto
    with p stop assms(3) Some x l show ?thesis by (simp add: run_result_def)
  qed
qed

text \<open>When the database refuses one of the rows: without a signal only a load that has failed stops the
  producer, so a load that had not failed would have taken every row.\<close>

definition quiet_state :: "'e ingest_sys \<Rightarrow> bool" where
  "quiet_state s \<longleftrightarrow> (gsCtx s \<noteq> None \<longrightarrow> (\<exists>err n. gsLoad s = Returned err n)) \<and>
     (stopped_by_ctx (gsErr s) \<longrightarrow> (\<exists>e n. gsLoad s = Returned (Some e) n))"

lemma quiet_stop:
  assumes "quiet_state s" "ingest_inv env p0 T0 s" "gsProd s \<noteq> Finished" "gsCtx s = Some e"
  shows "\<exists>e n. gsLoad s = Returned (Some e) n"
proof -
  obtain err n where "gsLoad s = Returned err n" using assms(1,4) by (auto simp: quiet_state_def)
  with assms(2,3) show ?thesis by (cases err) (auto simp: ingest_inv_def taken_inv_def)
qed

lemma quiet_step:
  assumes "giSignal env = None"
  shows "ingest_step env s s' \<Longrightarrow> ingest_inv env p0 T0 s \<Longrightarrow> quiet_state s \<Longrightarrow> quiet_state s'"
proof (induction rule: ingest_step.induct)
  case (produce s)
  show ?case
  proof (cases "gsCtx s")
    case (Some e)
    from quiet_stop[OF produce.prems(2,1) _ Some] produce.hyps have "\<exists>e n. gsLoad s = Returned (Some e) n" by simp
    then show ?thesis by (auto simp: quiet_state_def prod_turn_sel)
  next
    case None
    then have "stopped_by_ctx (gsErr (prod_turn env s)) = stopped_by_ctx (gsErr s) \<or> \<not> stopped_by_ctx (gsErr (prod_turn env s))"
      by (auto simp: prod_turn_def stopped_by_ctx_def split: prod.splits sum.splits parse_error.splits option.splits)
    with produce.prems(2) show ?thesis by (auto simp: quiet_state_def prod_turn_sel)
  qed
next
  case (send_stop s b e)
  with quiet_stop[OF send_stop.prems(2,1) _ send_stop.hyps(2)] show ?case by (auto simp: quiet_state_def)
next
  case (load_open s)
  then show ?case by (auto simp: quiet_state_def open_turn_sel)
next
  case (receive s ls b bs)
  then show ?case by (auto simp: quiet_state_def load_turn_weight)
next
  case (drained s ls)
  then show ?case by (auto simp: quiet_state_def load_turn_weight)
next
  case (load_stop s ls e)
  then show ?case by (auto simp: quiet_state_def)
next
  case (main_cancel s err n)
  then show ?case by (auto simp: quiet_state_def)
qed (use assms in \<open>auto simp: quiet_state_def\<close>)

lemma quiet_reach:
  assumes "giSignal env = None" "ingest_reach env (ingest_start p0 T0) s"
  shows "quiet_state s"
  using assms(2) unfolding ingest_reach_def
proof (induction rule: rtranclp_induct)
  case base
  show ?case by (simp add: quiet_state_def ingest_start_def stopped_by_ctx_def)
next
  case (step s s')
  then show ?case using quiet_step[OF assms(1)] reach_inv unfolding ingest_reach_def by blast
qed

lemma undisturbed_refused:
  assumes "undisturbed env" "parse_all p0 = (raws, e)" "produce (giStages env) raws no_stats = (bs, st)"
    and "\<not> list_all (loadable (giDb env)) bs" "ingest_reach env (ingest_start p0 T0) s" "ingest_final s"
  shows "gsTable s = T0 \<and> (\<exists>x. run_result s = Inl (LoadFailed x))"
proof -
  have quiet: "quiet_state s" using quiet_reach[OF _ assms(5)] assms(1) by (simp add: undisturbed_def)
  note inv = reach_inv[OF assms(5)]
  obtain err n where l: "gsLoad s = Returned err n" by (rule final_Returned[OF assms(6)])
  have "err \<noteq> None"
  proof
    assume ok: "err = None"
    obtain raws1 bs1 lost q where p: "parser_after p0 raws1 = Some q"
      "produce (giStages env) raws1 no_stats = (bs1 @ lost, gsStats s)" "list_all (loadable (giDb env)) bs1"
      and none: "gsErr s = None \<longrightarrow> fst (Next q) = Inl EndOfStream \<and> lost = []"
      and stop: "\<forall>x. gsErr s = Some (ParseStop x) \<longrightarrow> fst (Next q) = Inl x \<and> x \<noteq> EndOfStream \<and> lost = []"
      by (rule loaded_inv[OF inv l[unfolded ok]]) (rule that)
    have "\<not> stopped_by_ctx (gsErr s)" using quiet l ok by (auto simp: quiet_state_def)
    then obtain x where "fst (Next q) = Inl x" "lost = []"
      using none stop by (auto simp: stopped_by_ctx_def split: option.splits stop.splits)
    with parser_after_end[OF p(1)] assms(2) have "raws1 = raws" by auto
    with p(2,3) \<open>lost = []\<close> assms(3,4) show False by simp
  qed
  then obtain x where x: "err = Some x" by blast
  have "gsTable s = T0"
  proof (rule ccontr)
    assume "gsTable s \<noteq> T0"
    then obtain raws1 bs1 lost q where "load_failed (giDb env) bs1 x T0 (gsTable s)"
      by (rule failed_inv[OF inv l[unfolded x]])
    with \<open>gsTable s \<noteq> T0\<close> assms(1) show False by (auto simp: load_failed_def undisturbed_def healthy_db_def)
  qed
  with l x show ?thesis by (simp add: run_result_def)
qed

section \<open>A file that breaks off\<close>

text \<open>One good record, then the beginning of another; every record decodes to the same pet shop.\<close>

definition pet_shop :: raw_record where
  "pet_shop = \<lparr>rrID = ''1'', rrName = ''Paws'', rrCategory = ''Pets'', rrSubcategory = None, rrSpecialty = None,
     rrAddress = Some ''Miami, FL'', rrNeighborhood = None, rrLatitude = None, rrLongitude = None,
     rrLemonScore = None, rrGoogleRating = None, rrGoogleReviewCount = None, rrPriceRange = None, rrHours = [],
     rrPhotos = [], rrAbout = [], rrUniversalTags = [], rrSpecificTags = [], rrIsClaimed = False\<rparr>"

definition pet_env :: "unit ingest_env" where
  "pet_env = \<lparr>giStages = \<lparr>sgUnicode = basic_unicode, sgUnmarshal = \<lambda>_. Inr pet_shop, sgParseID = \<lambda>_. Inr 1,
     sgIDString = \<lambda>_. ''1'', sgMD5 = \<lambda>_. []\<rparr>, giDb = calm_db, giSignal = None, giCanceled = ()\<rparr>"

definition broken_file :: "unit parser" where
  "broken_file = New_parser ''[{}{'' None"

lemma parse_broken: "parse_all broken_file = ([''{}''], UnexpectedEOF)"
  unfolding broken_file_def
  by (subst parse_all.simps, subst parse_all.simps)
    (simp add: New_parser_def Next_def skipToObject_def isStructural_def reset_def consume_def readErr_def)

definition pet_file :: "unit parser" where
  "pet_file = New_parser ''[{}]'' None"

lemma parse_pet: "parse_all pet_file = ([''{}''], EndOfStream)"
  unfolding pet_file_def
  by (subst parse_all.simps, subst parse_all.simps)
    (simp add: New_parser_def Next_def skipToObject_def isStructural_def reset_def consume_def readErr_def skipErr_def)

lemma pet_kept: "\<exists>b st. produce (giStages pet_env) [''{}''] no_stats = ([b], st) \<and> bzID b = 1 \<and> bzName b = ''Paws'' \<and>
    bzHours b = None \<and> bzLemonScore b = None \<and> bzGoogleRating b = None \<and> bzGoogleReviewCount b = None \<and> loadable (giDb pet_env) b"
proof -
  have trim: "trim_space ''Paws'' = ''Paws''" "trim_space ''Pets'' = ''Pets''" "trim_space ''Miami, FL'' = ''Miami, FL''"
    by (rule trim_space_ascii_fixed; simp add: is_space_def)+
  have fl: "flAddress ''Miami, FL''" by code_simp
  have none: "\<not> equal_fold_ascii ''Pets'' ''none''" by code_simp
  obtain rb where rb: "Sanitize (sgUnicode (giStages pet_env)) (sgUnmarshal (giStages pet_env)) (sgParseID (giStages pet_env)) ''{}'' = Inr rb"
    "rbID rb = 1" "rbCategory rb = ''Pets''" "rbAddress rb = Some ''Miami, FL''" "rbName rb = ''Paws''"
    "rbHours rb = None \<and> rbLemonScore rb = None \<and> rbGoogleRating rb = None \<and> rbGoogleReviewCount rb = None"
    "rbSubcategory rb = None \<and> rbSpecialty rb = None \<and> rbNeighborhood rb = None \<and> rbPriceRange rb = None \<and> rbPhotos rb = None \<and>
     rbAbout rb = None \<and> rbUniversalTags rb = None \<and> rbSpecificTags rb = None"
    by (simp add: pet_env_def Sanitize_def pet_shop_def trim Let_def trimPtr_def nullableJSON_def normalizePrice_def
        dedupeNonEmpty_def joinAbout_def trimEach_def)
  define tax where "tax = Normalize (sgUnicode (giStages pet_env)) (rbCategory rb) (deref (rbSubcategory rb))"
  have "''Pets'' \<in> set spec_categories" by (simp add: spec_categories_eq)
  from spec_category_fixed[OF this, of "sgUnicode (giStages pet_env)"]
  have tax: "txCategory tax = ''Pets''" "txSubcategory tax = normalizeSubcategory ''Pets'' []" "txDecision tax = TaxonomyKeep"
    by (simp_all add: tax_def Normalize_def rb deref_def Let_def)
  have "CHR 0x00 \<notin> set (normalizeSubcategory ''Pets'' [])" by code_simp
  moreover have "txArchetype tax \<in> set all_archetypes" using Normalize_kept(4)[of "sgUnicode (giStages pet_env)"]
      archetypeFor_valid[OF \<open>''Pets'' \<in> set spec_categories\<close>] tax unfolding tax_def by simp
  moreover have "CHR 0x00 \<notin> set a" if "a \<in> set all_archetypes" for a
    using that by (auto simp: all_archetypes_def archetype_defs)
  moreover have "int4 (FriendCount M I i)" for M I i using FriendCount_range(1,2)[of M I i] by (simp add: int4_def)
  ultimately have load: "loadable (giDb pet_env) (toBusiness rb tax c (FriendCount M I i))" for c M I i
    using rb tax
    by (auto simp: loadable_def fits_def pet_env_def calm_db_def calm_types_def toBusiness_def emptyToNil_def)
  have "GeoFilter (rbLatitude rb) (rbLongitude rb) (deref (rbAddress rb)) = GeoKeep"
    by (simp add: GeoFilter_def rb deref_def fl del: flAddress.simps)
  moreover have "txDecision (Normalize U (rbCategory rb) s) \<noteq> TaxonomyDrop" for U s
    using Normalize_closed_aux[of U "rbCategory rb" s] by (simp add: rb trim none)
  ultimately show ?thesis using load
    by (auto simp: take_record_def process_def rb Let_def tax_def toBusiness_def)
qed

section \<open>Properties\<close>

text \<open>C15. Every run of the ingest command ends, whatever the schedule, the file, the database and the
  signals do: there is no infinite schedule, and a state in which nothing can happen is a
  finished run, so neither goroutine is ever left blocked on the channel.\<close>

theorem ingest_ends:
  "wfp (\<lambda>s' s. ingest_step env s s') \<and> (ingest_final s \<or> (\<exists>s'. ingest_step env s s'))"
  using wf_ingest step_exists by blast

text \<open>C9. What the result of an ingest run says about the table, on every schedule and with any faults. A
  run that reports success has read the whole file to its clean end and committed exactly the rows its
  records produce, counting them all. One that reports a broken file has committed the rows before the break; one
  stopped by the context after the load, the rows of a prefix. One that reports a load error has left the table
  untouched - unless the error is a failed commit, after which the table may hold the rows of a prefix, all of
  those handed to the loader.\<close>

theorem ingest_outcome:
  assumes "ingest_reach env (ingest_start p0 T0) s" "ingest_final s"
  shows "case run_result s of
       Inr st \<Rightarrow> (\<exists>raws bs st0. parse_all p0 = (raws, EndOfStream) \<and>
         produce (giStages env) raws no_stats = (bs, st0) \<and> st = st0\<lparr>isLoaded := int (length bs)\<rparr> \<and>
         distinct (map bzID bs) \<and> list_all (loadable (giDb env)) bs \<and> gsTable s = loaded_table (giDb env) bs T0)
     | Inl (LoadFailed e) \<Rightarrow> gsTable s = T0 \<or> (\<exists>x. e = Committing x) \<and> prefix_loaded env p0 T0 (gsTable s)
     | Inl (ProducingRows (ParseStop x)) \<Rightarrow> (\<exists>raws bs. parse_all p0 = (raws, x) \<and> x \<noteq> EndOfStream \<and>
         fst (produce (giStages env) raws no_stats) = bs \<and> list_all (loadable (giDb env)) bs \<and>
         gsTable s = loaded_table (giDb env) bs T0)
     | Inl (ProducingRows (CtxStop x)) \<Rightarrow> prefix_loaded env p0 T0 (gsTable s)
     | Inl NotFinished \<Rightarrow> False"
  using outcome_aux[OF reach_inv[OF assms(1)] assms(2)] unfolding outcome_ok_def .

theorem ingest_outcome_witness:
  "\<exists>s. ingest_reach pet_env (ingest_start broken_file Map.empty) s \<and> run_result s \<noteq> Inl NotFinished"
proof -
  obtain s where s: "ingest_reach pet_env (ingest_start broken_file Map.empty) s" "ingest_final s"
    using reach_final by blast
  from ingest_outcome[OF s] s show ?thesis by (intro exI[of _ s]) auto
qed

text \<open>C12. Without a signal and without database faults every schedule gives the same outcome. If the database
  takes every row of the file up to its end or its break, they are committed, and the run succeeds exactly
  when the file ended cleanly: so a file that breaks off is loaded in part although the command fails. If the
  database refuses one of them, the run fails and nothing is committed.\<close>

theorem ingest_undisturbed:
  assumes "undisturbed env" "parse_all p0 = (raws, e)" "produce (giStages env) raws no_stats = (bs, st)"
    and "distinct (map bzID bs)" "ingest_reach env (ingest_start p0 T0) s" "ingest_final s"
  shows "if list_all (loadable (giDb env)) bs
    then gsTable s = loaded_table (giDb env) bs T0 \<and>
      run_result s = (if e = EndOfStream then Inr (st\<lparr>isLoaded := int (length bs)\<rparr>) else Inl (ProducingRows (ParseStop e)))
    else gsTable s = T0 \<and> (\<exists>x. run_result s = Inl (LoadFailed x))"
  using undisturbed_loaded[OF assms(1-4) _ assms(5,6)] undisturbed_refused[OF assms(1-3) _ assms(5,6)] by simp

theorem ingest_undisturbed_witness:
  "\<exists>s. ingest_reach pet_env (ingest_start broken_file Map.empty) s \<and>
     run_result s = Inl (ProducingRows (ParseStop UnexpectedEOF)) \<and> gsTable s 1 \<noteq> None"
proof -
  obtain s where s: "ingest_reach pet_env (ingest_start broken_file Map.empty) s" "ingest_final s"
    using reach_final by blast
  obtain b st where b: "produce (giStages pet_env) [''{}''] no_stats = ([b], st)" "bzID b = 1" "loadable (giDb pet_env) b"
    using pet_kept by blast
  have calm: "undisturbed pet_env" using healthy_calm_db by (simp add: undisturbed_def pet_env_def)
  from ingest_undisturbed[OF calm parse_broken b(1) _ s] b(3) have
    "gsTable s = loaded_table (giDb pet_env) [b] Map.empty"
    "run_result s = Inl (ProducingRows (ParseStop UnexpectedEOF))" by simp_all
  with s(1) b(2) show ?thesis by (intro exI[of _ s]) (simp add: loaded_table_def upsertSQL_def upsert_row_def)
qed

end
