(* ===== verification/Ingest_Embed.thy ===== *)
theory Ingest_Embed
  imports Domain
begin

text \<open>
  Package \<open>ingest\<close>, the embedding pass: the text of a business (\<open>embedtext.go\<close>), the paging
  \<open>Backfiller\<close> (\<open>embed.go\<close>) and its Postgres adapter \<open>EmbedStore\<close> (\<open>embedstore.go\<close>). The store's
  world is the table and a counter of round trips; each round trip may fail as the
  parameter \<open>fault\<close> says, and a failed commit may have taken effect. The cast to \<open>vector\<close> and the shortest decimal of a \<open>float32\<close> are
  parameters. The pass is a loop with fuel: \<open>None\<close> is a run that has not returned yet.
\<close>

section \<open>The text of a business\<close>

definition maxEmbedChars :: nat where "maxEmbedChars = 512"

definition truncateRunes :: "string \<Rightarrow> nat \<Rightarrow> string" where
  "truncateRunes s maxRunes =
     (if length s \<le> maxRunes then s
      else (let rs = runes s in if length rs \<le> maxRunes then s else encode (take maxRunes rs)))"

fun tag_loop :: "string list \<Rightarrow> string list \<Rightarrow> string list" where
  "tag_loop out [] = out"
| "tag_loop out (tag # tags) = (let t = trim_space tag in tag_loop (if t \<noteq> [] then out @ [t] else out) tags)"

definition joinTags :: "string list \<Rightarrow> string" where
  "joinTags tags = (if length tags = 0 then [] else join '' '' (tag_loop [] tags))"

definition add_line :: "string list \<Rightarrow> string \<Rightarrow> string list" where
  "add_line lines s = (let t = trim_space s in if t \<noteq> [] then lines @ [t] else lines)"

definition EmbedText :: "string \<Rightarrow> string \<Rightarrow> string \<Rightarrow> string list \<Rightarrow> string list \<Rightarrow> string \<Rightarrow> string" where
  "EmbedText name category subcategory universalTags specificTags about =
     (let lines = [];
          lines = add_line lines name;
          lines = add_line lines category;
          lines = add_line lines subcategory;
          lines = add_line lines (joinTags universalTags);
          lines = add_line lines (joinTags specificTags);
          lines = add_line lines about
      in truncateRunes (join [CHR 0x0A] lines) maxEmbedChars)"

subsection \<open>Facts\<close>

lemma length_segs: "length (segs s) \<le> length s"
proof (induction s rule: segs.induct)
  case (2 c cs)
  obtain r w where d: "decode_bytes (byte_of c) (map byte_of cs) = (r, w)" by force
  then have w: "0 < w" using decode_width_pos[of "byte_of c" "map byte_of cs"] by simp
  have "length (segs (drop w (c # cs))) \<le> length (drop w (c # cs))" by (rule "2.IH"[OF d[symmetric] refl])
  with w have "Suc (length (segs (drop w (c # cs)))) \<le> length (c # cs)" by (cases w) auto
  then show ?case by (simp add: segs.simps(2) d)
qed simp

lemma length_runes: "length (runes s) \<le> length s"
  using length_segs by (simp add: runes_def)

declare runes_eq_Nil [simp]

lemma runes_truncate: "runes (truncateRunes s n) = take n (runes s)"
proof -
  have "list_all valid_rune (take n (runes s))"
    using runes_valid[of s] by (auto simp: list_all_iff dest: in_set_takeD)
  then show ?thesis using length_runes[of s] by (simp add: truncateRunes_def Let_def runes_encode)
qed

lemma truncate_Nil: "0 < n \<Longrightarrow> truncateRunes s n = [] \<longleftrightarrow> s = []"
  using runes_truncate[of s n] by (metis runes_eq_Nil take_eq_Nil less_numeral_extra(3))

lemma join_Nil: "list_all (\<lambda>s. s \<noteq> []) ss \<Longrightarrow> join sep ss = [] \<longleftrightarrow> ss = []"
  by (induction sep ss rule: join.induct) auto

lemma tag_loop_eq: "tag_loop out tags = out @ filter (\<lambda>t. t \<noteq> []) (map trim_space tags)"
  by (induction out tags rule: tag_loop.induct) (auto simp: Let_def)

lemma joinTags_eq: "joinTags tags = join '' '' (filter (\<lambda>t. t \<noteq> []) (map trim_space tags))"
  by (cases tags) (simp_all add: joinTags_def tag_loop_eq)

definition embed_lines :: "string \<Rightarrow> string \<Rightarrow> string \<Rightarrow> string list \<Rightarrow> string list \<Rightarrow> string \<Rightarrow> string list" where
  "embed_lines name category subcategory utags stags about =
     filter (\<lambda>t. t \<noteq> []) (map trim_space [name, category, subcategory, joinTags utags, joinTags stags, about])"

lemma EmbedText_lines: "EmbedText n c s ut st a = truncateRunes (join [CHR 0x0A] (embed_lines n c s ut st a)) 512"
  unfolding EmbedText_def embed_lines_def maxEmbedChars_def add_line_def Let_def by simp

lemma EmbedText_Nil: "EmbedText n c s ut st a = [] \<longleftrightarrow> embed_lines n c s ut st a = []"
  unfolding EmbedText_lines truncate_Nil[of 512, simplified]
  by (rule join_Nil) (simp add: embed_lines_def list_all_iff)

section \<open>The pass\<close>

record embed_row =
  erID :: uuid
  erName :: string
  erCategory :: string
  erSubcategory :: "string option"
  erAbout :: "string option"
  erUniversalTags :: "string list"
  erSpecificTags :: "string list"

record embed_stats =
  esScanned :: int
  esEmbedded :: int
  esSkipped :: int

definition zero_stats :: embed_stats where
  "zero_stats = \<lparr>esScanned = 0, esEmbedded = 0, esSkipped = 0\<rparr>"

datatype 'e backfill_error =
    PassCancelled 'e
  | ReadingPage uuid 'e
  | EmbeddingTexts nat 'e
  | VectorCount nat nat
  | WritingEmbeddings nat 'e

text \<open>The ports as state-passing functions over one world: the reader's \<open>page\<close>, the writer's
  \<open>updateBatch\<close>, the embedder's \<open>EmbedBatch\<close>, and the context's error.\<close>

record ('s, 'e) backfiller =
  bfCtx :: "'s \<Rightarrow> 'e option"
  bfPage :: "'s \<Rightarrow> uuid \<Rightarrow> int \<Rightarrow> bool \<Rightarrow> ('e + embed_row list) \<times> 's"
  bfUpdate :: "'s \<Rightarrow> uuid list \<Rightarrow> f32 list list \<Rightarrow> 'e option \<times> 's"
  bfEmbed :: "'s \<Rightarrow> string list \<Rightarrow> ('e + f32 list list) \<times> 's"
  bfBatchSize :: int

definition EmbedBatchSize :: int where "EmbedBatchSize = 64"

definition NewBackfiller :: "('s \<Rightarrow> 'e option) \<Rightarrow> ('s \<Rightarrow> uuid \<Rightarrow> int \<Rightarrow> bool \<Rightarrow> ('e + embed_row list) \<times> 's) \<Rightarrow>
    ('s \<Rightarrow> uuid list \<Rightarrow> f32 list list \<Rightarrow> 'e option \<times> 's) \<Rightarrow> ('s \<Rightarrow> string list \<Rightarrow> ('e + f32 list list) \<times> 's) \<Rightarrow>
    int \<Rightarrow> ('s, 'e) backfiller" where
  "NewBackfiller ctx page update embedBatch batchSize =
     (let batchSize = (if batchSize \<le> 0 then EmbedBatchSize else batchSize) in
      \<lparr>bfCtx = ctx, bfPage = page, bfUpdate = update, bfEmbed = embedBatch, bfBatchSize = batchSize\<rparr>)"

definition derefStr :: "string option \<Rightarrow> string" where
  "derefStr s = (case s of None \<Rightarrow> [] | Some v \<Rightarrow> v)"

definition row_text :: "embed_row \<Rightarrow> string" where
  "row_text r = EmbedText (erName r) (erCategory r) (derefStr (erSubcategory r)) (erUniversalTags r)
     (erSpecificTags r) (derefStr (erAbout r))"

definition pageSize :: "('s, 'e) backfiller \<Rightarrow> int \<Rightarrow> int \<Rightarrow> int" where
  "pageSize b limit scanned =
     (if limit \<le> 0 then bfBatchSize b
      else (let remaining = limit - scanned in if remaining < bfBatchSize b then remaining else bfBatchSize b))"

fun collect_texts :: "embed_row list \<Rightarrow> uuid list \<Rightarrow> string list \<Rightarrow> embed_stats \<Rightarrow>
    uuid list \<times> string list \<times> embed_stats" where
  "collect_texts [] ids texts st = (ids, texts, st)"
| "collect_texts (r # rs) ids texts st =
     (let text = row_text r in
      if text = [] then collect_texts rs ids texts (st\<lparr>esSkipped := esSkipped st + 1\<rparr>)
      else collect_texts rs (ids @ [erID r]) (texts @ [text]) st)"

definition embedPage :: "('s, 'e) backfiller \<Rightarrow> embed_row list \<Rightarrow> embed_stats \<Rightarrow> 's \<Rightarrow>
    ('e backfill_error option \<times> embed_stats) \<times> 's" where
  "embedPage b rows st s =
     (let (ids, texts, st) = collect_texts rows [] [] st in
      if length texts = 0 then ((None, st), s)
      else (case bfEmbed b s texts of
        (Inl e, s) \<Rightarrow> ((Some (EmbeddingTexts (length texts) e), st), s)
      | (Inr vecs, s) \<Rightarrow>
          if length vecs \<noteq> length ids then ((Some (VectorCount (length vecs) (length texts)), st), s)
          else (case bfUpdate b s ids vecs of
            (Some e, s) \<Rightarrow> ((Some (WritingEmbeddings (length ids) e), st), s)
          | (None, s) \<Rightarrow> ((None, st\<lparr>esEmbedded := esEmbedded st + int (length ids)\<rparr>), s))))"

text \<open>One turn of the loop: it returns (\<open>Inl\<close>) or goes on with new loop variables (\<open>Inr\<close>).\<close>

definition run_step :: "('s, 'e) backfiller \<Rightarrow> bool \<Rightarrow> int \<Rightarrow> embed_stats \<Rightarrow> uuid \<Rightarrow> 's \<Rightarrow>
    (('e backfill_error option \<times> embed_stats) \<times> 's) + (embed_stats \<times> uuid \<times> 's)" where
  "run_step b onlyMissing limit st afterID s =
     (case bfCtx b s of
        Some e \<Rightarrow> Inl ((Some (PassCancelled e), st), s)
      | None \<Rightarrow>
          (let k = pageSize b limit (esScanned st) in
           if k \<le> 0 then Inl ((None, st), s)
           else (case bfPage b s afterID k onlyMissing of
             (Inl e, s) \<Rightarrow> Inl ((Some (ReadingPage afterID e), st), s)
           | (Inr rows, s) \<Rightarrow>
               if length rows = 0 then Inl ((None, st), s)
               else (let st = st\<lparr>esScanned := esScanned st + int (length rows)\<rparr>;
                         afterID = erID (last rows) in
                     case embedPage b rows st s of
                       ((Some e, st), s) \<Rightarrow> Inl ((Some e, st), s)
                     | ((None, st), s) \<Rightarrow>
                         if int (length rows) < k then Inl ((None, st), s)
                         else Inr (st, afterID, s)))))"

fun run_loop :: "nat \<Rightarrow> ('s, 'e) backfiller \<Rightarrow> bool \<Rightarrow> int \<Rightarrow> embed_stats \<Rightarrow> uuid \<Rightarrow> 's \<Rightarrow>
    (('e backfill_error option \<times> embed_stats) \<times> 's) option" where
  "run_loop 0 b onlyMissing limit st afterID s = None"
| "run_loop (Suc n) b onlyMissing limit st afterID s =
     (case run_step b onlyMissing limit st afterID s of
        Inl r \<Rightarrow> Some r
      | Inr (st, afterID, s) \<Rightarrow> run_loop n b onlyMissing limit st afterID s)"

definition Run_backfill :: "nat \<Rightarrow> ('s, 'e) backfiller \<Rightarrow> bool \<Rightarrow> int \<Rightarrow> 's \<Rightarrow>
    (('e backfill_error option \<times> embed_stats) \<times> 's) option" where
  "Run_backfill fuel b onlyMissing limit s = run_loop fuel b onlyMissing limit zero_stats 0 s"

section \<open>The store\<close>

fun literal_loop :: "(f32 \<Rightarrow> string) \<Rightarrow> nat \<Rightarrow> f32 list \<Rightarrow> string \<Rightarrow> string" where
  "literal_loop fmt i [] buf = buf"
| "literal_loop fmt i (v # vs) buf =
     (let buf = (if 0 < i then buf @ '','' else buf) in literal_loop fmt (i + 1) vs (buf @ fmt v))"

definition vectorLiteral :: "(f32 \<Rightarrow> string) \<Rightarrow> f32 list \<Rightarrow> string" where
  "vectorLiteral fmt vec = (if length vec = 0 then ''[]'' else literal_loop fmt 0 vec ''['' @ '']'')"

record 'v stored_row =
  srwRow :: embed_row
  srwEmbedding :: "'v option"

record 'v store_world =
  swTable :: "'v stored_row list"
  swTick :: nat

datatype 'e store_error =
    QueryPage 'e
  | ScanPageRow 'e
  | PageRows 'e
  | VecsIndexPanic
  | BeginUpdateTx 'e
  | UpdateEmbedding nat nat 'e
  | CloseUpdateBatch 'e
  | CommitUpdateBatch 'e

text \<open>A round trip: the fault of this tick, if any.\<close>

definition trip :: "(nat \<Rightarrow> 'e option) \<Rightarrow> 'v store_world \<Rightarrow> 'e option \<times> 'v store_world" where
  "trip fault w = (fault (swTick w), w\<lparr>swTick := swTick w + 1\<rparr>)"

text \<open>\<open>pageSQL\<close>: a UUID compares as its 128-bit value.\<close>

definition pageSQL :: "'v stored_row list \<Rightarrow> uuid \<Rightarrow> int \<Rightarrow> bool \<Rightarrow> 'v stored_row list" where
  "pageSQL table afterID limit onlyMissing =
     take (nat limit) (sort_key (erID \<circ> srwRow)
       (filter (\<lambda>r. afterID < erID (srwRow r) \<and> (\<not> onlyMissing \<or> srwEmbedding r = None)) table))"

fun scan_page :: "(nat \<Rightarrow> 'e option) \<Rightarrow> 'v stored_row list \<Rightarrow> embed_row list \<Rightarrow> 'v store_world \<Rightarrow>
    ('e store_error + embed_row list) \<times> 'v store_world" where
  "scan_page fault [] out w =
     (case trip fault w of (Some e, w) \<Rightarrow> (Inl (PageRows e), w) | (None, w) \<Rightarrow> (Inr out, w))"
| "scan_page fault (r # rs) out w =
     (case trip fault w of
        (Some e, w) \<Rightarrow> (Inl (ScanPageRow e), w)
      | (None, w) \<Rightarrow> scan_page fault rs (out @ [srwRow r]) w)"

definition store_page :: "(nat \<Rightarrow> 'e option) \<Rightarrow> 'v store_world \<Rightarrow> uuid \<Rightarrow> int \<Rightarrow> bool \<Rightarrow>
    ('e store_error + embed_row list) \<times> 'v store_world" where
  "store_page fault w afterID limit onlyMissing =
     (case trip fault w of
        (Some e, w) \<Rightarrow> (Inl (QueryPage e), w)
      | (None, w) \<Rightarrow> scan_page fault (pageSQL (swTable w) afterID limit onlyMissing) [] w)"

text \<open>\<open>updateSQL\<close> on the transaction's table; the cast of the literal may be refused.\<close>

definition updateSQL :: "'v \<Rightarrow> uuid \<Rightarrow> 'v stored_row list \<Rightarrow> 'v stored_row list" where
  "updateSQL v i table =
     map (\<lambda>r. if erID (srwRow r) = i then r\<lparr>srwEmbedding := Some v\<rparr> else r) table"

fun exec_loop :: "(nat \<Rightarrow> 'e option) \<Rightarrow> (string \<Rightarrow> 'e + 'v) \<Rightarrow> nat \<Rightarrow> nat \<Rightarrow> (string \<times> uuid) list \<Rightarrow>
    'v stored_row list \<Rightarrow> 'v store_world \<Rightarrow> ('e store_error + 'v stored_row list) \<times> 'v store_world" where
  "exec_loop fault cast n i [] tx w = (Inr tx, w)"
| "exec_loop fault cast n i ((lit, u) # qs) tx w =
     (case trip fault w of
        (Some e, w) \<Rightarrow> (Inl (UpdateEmbedding (i + 1) n e), w)
      | (None, w) \<Rightarrow>
          (case cast lit of
             Inl e \<Rightarrow> (Inl (UpdateEmbedding (i + 1) n e), w)
           | Inr v \<Rightarrow> exec_loop fault cast n (i + 1) qs (updateSQL v u tx) w))"

text \<open>The transaction works on its own copy of the table, which replaces the table on commit; a
  failed round trip before it rolls back. A commit that is reported as failed may have taken effect all the same,
  when only its reply was lost: \<open>landed\<close>.\<close>

definition store_update :: "(nat \<Rightarrow> 'e option) \<Rightarrow> (nat \<Rightarrow> bool) \<Rightarrow> (f32 \<Rightarrow> string) \<Rightarrow> (string \<Rightarrow> 'e + 'v) \<Rightarrow> 'v store_world \<Rightarrow>
    uuid list \<Rightarrow> f32 list list \<Rightarrow> 'e store_error option \<times> 'v store_world" where
  "store_update fault landed fmt cast w ids vecs =
     (if length ids = 0 then (None, w)
      else if length vecs < length ids then (Some VecsIndexPanic, w)
      else (let batch = zip (map (vectorLiteral fmt) vecs) ids in
       case trip fault w of
         (Some e, w) \<Rightarrow> (Some (BeginUpdateTx e), w)
       | (None, w) \<Rightarrow>
           (case exec_loop fault cast (length ids) 0 batch (swTable w) w of
              (Inl e, w) \<Rightarrow> (Some e, w)
            | (Inr tx, w) \<Rightarrow>
                (case trip fault w of
                   (Some e, w) \<Rightarrow> (Some (CloseUpdateBatch e), w)
                 | (None, w) \<Rightarrow>
                     (case trip fault w of
                        (Some e, w') \<Rightarrow> (Some (CommitUpdateBatch e), if landed (swTick w) then w'\<lparr>swTable := tx\<rparr> else w')
                      | (None, w) \<Rightarrow> (None, w\<lparr>swTable := tx\<rparr>))))))"

section \<open>Facts of the pass\<close>

abbreviation with_text :: "embed_row list \<Rightarrow> embed_row list" where
  "with_text rows \<equiv> filter (\<lambda>r. row_text r \<noteq> []) rows"

lemma collect_texts_eq:
  "collect_texts rows ids texts st = (ids @ map erID (with_text rows), texts @ map row_text (with_text rows),
     st\<lparr>esSkipped := esSkipped st + int (length rows) - int (length (with_text rows))\<rparr>)"
  by (induction rows ids texts st rule: collect_texts.induct) (auto simp: Let_def)

lemma embedPage_stats:
  assumes "embedPage b rows st s = ((err, st'), s')"
  shows "esScanned st' = esScanned st" "esEmbedded st \<le> esEmbedded st'" "esSkipped st \<le> esSkipped st'"
    "esEmbedded st' + esSkipped st' \<le> esEmbedded st + esSkipped st + int (length rows)"
    "err = None \<Longrightarrow> esEmbedded st' + esSkipped st' = esEmbedded st + esSkipped st + int (length rows)"
  using assms length_filter_le[of "\<lambda>r. row_text r \<noteq> []" rows]
  by (auto simp: embedPage_def collect_texts_eq split: if_splits sum.splits prod.splits option.splits)

text \<open>What the loop keeps of its tally between pages.\<close>

definition tally_ok :: "int \<Rightarrow> embed_stats \<Rightarrow> bool" where
  "tally_ok limit st \<longleftrightarrow> 0 \<le> esEmbedded st \<and> 0 \<le> esSkipped st \<and>
     esScanned st = esEmbedded st + esSkipped st \<and> (limit \<le> 0 \<or> esScanned st \<le> limit)"

definition tally_final :: "int \<Rightarrow> 'x option \<Rightarrow> embed_stats \<Rightarrow> bool" where
  "tally_final limit err st \<longleftrightarrow> 0 \<le> esEmbedded st \<and> 0 \<le> esSkipped st \<and>
     (if err = None then esScanned st = esEmbedded st + esSkipped st
      else esEmbedded st + esSkipped st \<le> esScanned st) \<and> (limit \<le> 0 \<or> esScanned st \<le> limit)"

lemma tally_ok_final: "tally_ok limit st \<Longrightarrow> tally_final limit err st"
  by (auto simp: tally_ok_def tally_final_def)

lemma tally_ok_zero [simp]: "tally_ok limit zero_stats"
  by (auto simp: tally_ok_def zero_stats_def)

text \<open>The reader's contract: a page holds at most the requested rows, all beyond the key it starts
  after.\<close>

locale embed_reader =
  fixes page :: "'s \<Rightarrow> uuid \<Rightarrow> int \<Rightarrow> bool \<Rightarrow> ('e + embed_row list) \<times> 's"
  assumes page_limit: "page s a k m = (Inr rows, s') \<Longrightarrow> 0 < k \<Longrightarrow> int (length rows) \<le> k"
    and page_after: "page s a k m = (Inr rows, s') \<Longrightarrow> list_all (\<lambda>r. a < erID r) rows"
begin

lemma last_after: "page s a k m = (Inr rows, s') \<Longrightarrow> rows \<noteq> [] \<Longrightarrow> a < erID (last rows)"
  using page_after by (simp add: list_all_iff)

lemma page_tally:
  assumes "tally_ok limit st" "page s a k m = (Inr rows, s1)" "k = pageSize b limit (esScanned st)" "0 < k"
    and "embedPage b rows (st\<lparr>esScanned := esScanned st + int (length rows)\<rparr>) s1 = ((err, st'), s')"
  shows "tally_final limit err st'" "err = None \<Longrightarrow> tally_ok limit st'"
proof -
  have "limit \<le> 0 \<or> esScanned st + int (length rows) \<le> limit"
    using page_limit[OF assms(2,4)] assms(3) by (auto simp: pageSize_def Let_def split: if_splits)
  with embedPage_stats[OF assms(5)] assms(1) show "tally_final limit err st'" "err = None \<Longrightarrow> tally_ok limit st'"
    by (auto simp: tally_final_def tally_ok_def)
qed

lemma step_tally:
  assumes "bfPage b = page" "tally_ok limit st"
  shows "run_step b m limit st a s = Inl ((err, st'), s') \<Longrightarrow> tally_final limit err st'"
    and "run_step b m limit st a s = Inr (st', a', s') \<Longrightarrow> tally_ok limit st' \<and> a < a'"
proof -
  define k where "k = pageSize b limit (esScanned st)"
  note page_tally = page_tally[OF assms(2) _ k_def]
  show "run_step b m limit st a s = Inl ((err, st'), s') \<Longrightarrow> tally_final limit err st'"
    using page_tally(1) assms tally_ok_final[OF assms(2)]
    by (auto simp: run_step_def Let_def simp flip: k_def split: option.splits if_splits prod.splits sum.splits)
  show "run_step b m limit st a s = Inr (st', a', s') \<Longrightarrow> tally_ok limit st' \<and> a < a'"
    using page_tally(2) assms last_after
    by (auto simp: run_step_def Let_def simp flip: k_def split: option.splits if_splits prod.splits sum.splits)
qed

lemma loop_tally:
  assumes "bfPage b = page"
  shows "run_loop n b m limit st a s = Some ((err, st'), s') \<Longrightarrow> tally_ok limit st \<Longrightarrow> tally_final limit err st'"
proof (induction n arbitrary: st a s)
  case (Suc n)
  from Suc.prems(1) show ?case
    using step_tally[OF assms Suc.prems(2)] Suc.IH
    by (cases "run_step b m limit st a s") (auto split: prod.splits)
qed simp

text \<open>The key grows with every page, so no reader that keeps the contract runs the loop forever.\<close>

lemma loop_returns:
  assumes "bfPage b = page"
  shows "2 ^ 128 < n + unat a \<Longrightarrow> tally_ok limit st \<Longrightarrow> run_loop n b m limit st a s \<noteq> None"
proof (induction n arbitrary: st a s)
  case 0
  then show ?case using unsigned_less[of a, where ?'a = nat] by simp
next
  case (Suc n)
  show ?case
  proof (cases "run_step b m limit st a s")
    case (Inr r)
    then obtain st' a' s' where r: "run_step b m limit st a s = Inr (st', a', s')" by (metis prod_cases3)
    from step_tally(2)[OF assms Suc.prems(2) r] have "tally_ok limit st'" "unat a < unat a'"
      by (simp_all add: word_less_nat_alt)
    with Suc.IH[of a' st' s'] Suc.prems(1) r show ?thesis by simp
  qed simp
qed

end

text \<open>The store keeps the contract.\<close>

lemma scan_page_Inr: "scan_page fault rs out w = (Inr rows, w') \<Longrightarrow> rows = out @ map srwRow rs"
  by (induction fault rs out w rule: scan_page.induct) (auto split: prod.splits option.splits)

lemma store_page_Inr:
  "store_page fault w a k m = (Inr rows, w') \<Longrightarrow> rows = map srwRow (pageSQL (swTable w) a k m)"
  by (auto simp: store_page_def trip_def dest: scan_page_Inr split: option.splits)

interpretation store_reader: embed_reader "store_page fault"
proof
  fix s :: "'v store_world" and a k m rows s'
  assume p: "store_page fault s a k m = (Inr rows, s')"
  note rows = store_page_Inr[OF p]
  show "0 < k \<Longrightarrow> int (length rows) \<le> k" by (simp add: rows pageSQL_def)
  show "list_all (\<lambda>r. a < erID r) rows"
    by (auto simp: rows pageSQL_def list_all_iff dest!: in_set_takeD)
qed

end
