(* ===== verification/Embed_Pass.thy ===== *)
theory Embed_Pass
  imports Ingest_Embed
begin

text \<open>
  The embedding pass over the store (\<open>cmd/ingest/embed.go\<close>, \<open>runEmbed\<close>): the Backfiller on
  \<open>EmbedStore\<close> and an embedder, over the pair of the store's world and the embedder's state. The
  reader's contract gives the tally and the return of every run; without faults the pass
  fills exactly the missing embeddings.
\<close>

section \<open>Composition\<close>

datatype 'e pass_error = Store "'e store_error" | Embedding 'e | Cancelled 'e

record ('m, 'v, 'e) pass_env =
  peCtx :: "'v store_world \<times> 'm \<Rightarrow> 'e option"
  peFault :: "nat \<Rightarrow> 'e option"
  peLanded :: "nat \<Rightarrow> bool"
  peFormat :: "f32 \<Rightarrow> string"
  peCast :: "string \<Rightarrow> 'e + 'v"
  peEmbedBatch :: "'m \<Rightarrow> string list \<Rightarrow> ('e + f32 list list) \<times> 'm"

definition pass_page :: "('m, 'v, 'e) pass_env \<Rightarrow> 'v store_world \<times> 'm \<Rightarrow> uuid \<Rightarrow> int \<Rightarrow> bool \<Rightarrow>
    ('e pass_error + embed_row list) \<times> 'v store_world \<times> 'm" where
  "pass_page env s afterID limit onlyMissing =
     (let (r, w) = store_page (peFault env) (fst s) afterID limit onlyMissing in (map_err Store r, w, snd s))"

definition pass_update :: "('m, 'v, 'e) pass_env \<Rightarrow> 'v store_world \<times> 'm \<Rightarrow> uuid list \<Rightarrow> f32 list list \<Rightarrow>
    'e pass_error option \<times> 'v store_world \<times> 'm" where
  "pass_update env s ids vecs =
     (let (e, w) = store_update (peFault env) (peLanded env) (peFormat env) (peCast env) (fst s) ids vecs
      in (map_option Store e, w, snd s))"

definition pass_embed :: "('m, 'v, 'e) pass_env \<Rightarrow> 'v store_world \<times> 'm \<Rightarrow> string list \<Rightarrow>
    ('e pass_error + f32 list list) \<times> 'v store_world \<times> 'm" where
  "pass_embed env s texts = (let (r, m) = peEmbedBatch env (snd s) texts in (map_err Embedding r, fst s, m))"

definition pass_backfiller :: "('m, 'v, 'e) pass_env \<Rightarrow> ('v store_world \<times> 'm, 'e pass_error) backfiller" where
  "pass_backfiller env = NewBackfiller (map_option Cancelled \<circ> peCtx env) (pass_page env) (pass_update env)
     (pass_embed env) EmbedBatchSize"

record embed_opts =
  eoAll :: bool
  eoLimit :: int

definition runEmbed :: "nat \<Rightarrow> ('m, 'v, 'e) pass_env \<Rightarrow> embed_opts \<Rightarrow> 'v store_world \<times> 'm \<Rightarrow>
    (('e pass_error backfill_error option \<times> embed_stats) \<times> 'v store_world \<times> 'm) option" where
  "runEmbed fuel env opts s = Run_backfill fuel (pass_backfiller env) (\<not> eoAll opts) (eoLimit opts) s"

section \<open>Tally and return\<close>

interpretation pass_reader: embed_reader "pass_page env" for env :: "('m, 'v, 'e) pass_env"
proof
  fix s :: "'v store_world \<times> 'm" and a k m rows s'
  assume "pass_page env s a k m = (Inr rows, s')"
  then obtain w' where p: "store_page (peFault env) (fst s) a k m = (Inr rows, w')"
    by (auto simp: pass_page_def split: prod.splits)
  show "0 < k \<Longrightarrow> int (length rows) \<le> k" by (rule store_reader.page_limit[OF p])
  show "list_all (\<lambda>r. a < erID r) rows" by (rule store_reader.page_after[OF p])
qed

lemma pass_backfiller_sel [simp]:
  "bfPage (pass_backfiller env) = pass_page env" "bfUpdate (pass_backfiller env) = pass_update env"
  "bfEmbed (pass_backfiller env) = pass_embed env" "bfBatchSize (pass_backfiller env) = 64"
  "bfCtx (pass_backfiller env) = map_option Cancelled \<circ> peCtx env"
  by (simp_all add: pass_backfiller_def NewBackfiller_def EmbedBatchSize_def)

lemma pass_returns: "2 ^ 128 < fuel \<Longrightarrow> runEmbed fuel env opts s \<noteq> None"
  unfolding runEmbed_def Run_backfill_def by (rule pass_reader.loop_returns) simp_all

lemma pass_tally: "runEmbed fuel env opts s = Some ((err, st), s') \<Longrightarrow> tally_final (eoLimit opts) err st"
  unfolding runEmbed_def Run_backfill_def by (erule pass_reader.loop_tally[rotated]) simp_all

section \<open>Updates\<close>

lemma exec_loop_tick: "exec_loop fault cast n i qs tx w = (r, w') \<Longrightarrow> swTable w' = swTable w"
  by (induction fault cast n i qs tx w rule: exec_loop.induct)
    (auto simp: trip_def split: option.splits sum.splits)

text \<open>The rows of a table after the embeddings of some ids were written: each with a value that \<open>W\<close> allows
  for it.\<close>

definition embedded :: "(embed_row \<Rightarrow> 'v \<Rightarrow> bool) \<Rightarrow> embed_row \<Rightarrow> 'v option \<Rightarrow> bool" where
  "embedded W row e = (case e of None \<Rightarrow> False | Some v \<Rightarrow> W row v)"

definition updated :: "(embed_row \<Rightarrow> 'v \<Rightarrow> bool) \<Rightarrow> uuid set \<Rightarrow> 'v stored_row list \<Rightarrow> 'v stored_row list \<Rightarrow> bool" where
  "updated W ids T T' \<longleftrightarrow> list_all2 (\<lambda>r r'. srwRow r' = srwRow r \<and>
     (if erID (srwRow r) \<in> ids then embedded W (srwRow r) (srwEmbedding r') else srwEmbedding r' = srwEmbedding r)) T T'"

lemma updated_refl [simp]: "updated W {} T T"
  by (simp add: updated_def list_all2_same)

lemma updated_insert:
  assumes "updated W ids (updateSQL v i T) T'" "\<forall>r \<in> set T. erID (srwRow r) = i \<longrightarrow> W (srwRow r) v"
  shows "updated W (insert i ids) T T'"
proof -
  have "list_all2 (\<lambda>r r'. srwRow r' = srwRow r \<and>
      (if erID (srwRow r) \<in> ids then embedded W (srwRow r) (srwEmbedding r')
       else srwEmbedding r' = (if erID (srwRow r) = i then Some v else srwEmbedding r))) T T'"
    using assms(1) unfolding updated_def updateSQL_def list.rel_map by (rule list_all2_mono) (auto split: if_splits)
  then show ?thesis
    unfolding updated_def
  proof (rule list.rel_mono_strong)
    fix r r' assume "r \<in> set T" "srwRow r' = srwRow r \<and> (if erID (srwRow r) \<in> ids then embedded W (srwRow r) (srwEmbedding r')
       else srwEmbedding r' = (if erID (srwRow r) = i then Some v else srwEmbedding r))"
    with assms(2) show "srwRow r' = srwRow r \<and> (if erID (srwRow r) \<in> insert i ids then embedded W (srwRow r) (srwEmbedding r')
       else srwEmbedding r' = srwEmbedding r)" by (auto simp: embedded_def split: if_splits)
  qed
qed

text \<open>The values that a batch of literals may give to the rows of its ids.\<close>

definition batch_allows :: "(embed_row \<Rightarrow> 'v \<Rightarrow> bool) \<Rightarrow> (string \<Rightarrow> 'e + 'v) \<Rightarrow> 'v stored_row list \<Rightarrow> (string \<times> uuid) list \<Rightarrow> bool" where
  "batch_allows W cast T qs \<longleftrightarrow> (\<forall>(lit, u) \<in> set qs. \<forall>v. cast lit = Inr v \<longrightarrow>
     (\<forall>row \<in> srwRow ` set T. erID row = u \<longrightarrow> W row v))"

lemma updateSQL_rows: "srwRow ` set (updateSQL v u T) = srwRow ` set T"
proof -
  have "map srwRow (updateSQL v u T) = map srwRow T" by (simp add: updateSQL_def)
  then show ?thesis by (metis list.set_map)
qed

lemma exec_loop_updated:
  "exec_loop fault cast n i qs tx w = (Inr tx', w') \<Longrightarrow> batch_allows W cast tx qs \<Longrightarrow> updated W (snd ` set qs) tx tx'"
proof (induction fault cast n i qs tx w rule: exec_loop.induct)
  case (2 fault cast n i lit u qs tx w)
  obtain w1 v where "trip fault w = (None, w1)" "cast lit = Inr v"
    "exec_loop fault cast n (i + 1) qs (updateSQL v u tx) w1 = (Inr tx', w')"
    using "2.prems"(1) by (auto split: option.splits sum.splits prod.splits)
  moreover have "batch_allows W cast (updateSQL v u tx) qs"
    using "2.prems"(2) by (auto simp: batch_allows_def updateSQL_rows)
  ultimately have "updated W (snd ` set qs) (updateSQL v u tx) tx'" using "2.IH" by auto
  moreover have "\<forall>r \<in> set tx. erID (srwRow r) = u \<longrightarrow> W (srwRow r) v"
    using "2.prems"(2) \<open>cast lit = Inr v\<close> by (auto simp: batch_allows_def)
  ultimately show ?case by (auto intro: updated_insert)
qed simp

text \<open>A page's write leaves the table, or it went through all its updates to the commit.\<close>

lemma store_update_cases:
  assumes "store_update fault landed fmt cast w ids vecs = (r, w')" "ids \<noteq> []"
  shows "(r \<noteq> None \<and> swTable w' = swTable w) \<or>
    ((r = None \<or> (\<exists>x. r = Some (CommitUpdateBatch x))) \<and> length ids \<le> length vecs \<and>
      (\<exists>w1 w2. exec_loop fault cast (length ids) 0 (zip (map (vectorLiteral fmt) vecs) ids) (swTable w) w1 =
        (Inr (swTable w'), w2)))"
  using assms
  by (auto simp: store_update_def Let_def trip_def not_less dest: exec_loop_tick split: if_splits option.splits prod.splits sum.splits)
    blast+

lemma store_update_outcome:
  assumes "store_update fault landed fmt cast w ids vecs = (r, w')"
    and "batch_allows W cast (swTable w) (zip (map (vectorLiteral fmt) vecs) ids)"
  shows "(r \<noteq> None \<and> swTable w' = swTable w) \<or>
    ((r = None \<or> (\<exists>x. r = Some (CommitUpdateBatch x))) \<and> updated W (set ids) (swTable w) (swTable w'))"
proof (cases "ids = []")
  case True
  with assms(1) show ?thesis by (auto simp: store_update_def)
next
  case False
  have ids: "snd ` set (zip (map (vectorLiteral fmt) vecs) ids) = set ids" if "length ids \<le> length vecs"
    using that by (metis length_map list.set_map map_snd_zip_take min.absorb2 take_all_iff order_refl)
  from store_update_cases[OF assms(1) False] show ?thesis
    using exec_loop_updated[OF _ assms(2)] ids by metis
qed

lemma store_update_None:
  assumes "store_update fault landed fmt cast w ids vecs = (None, w')"
    and "batch_allows W cast (swTable w) (zip (map (vectorLiteral fmt) vecs) ids)"
  shows "updated W (set ids) (swTable w) (swTable w')"
  using store_update_outcome[OF assms] by simp

text \<open>A page's write is atomic: when a round trip of it fails - the begin, one of the updates,
  the close, the commit - no row has changed, unless it was the commit and it took effect all the same; when it succeeds,
  or so, every listed id has an embedding and every other row, and all text, is as before.\<close>

theorem store_update_atomic:
  "case store_update fault landed fmt cast w ids vecs of
     (Some e, w') \<Rightarrow> swTable w' = swTable w \<or>
       (\<exists>x. e = CommitUpdateBatch x) \<and> updated (\<lambda>_ _. True) (set ids) (swTable w) (swTable w')
   | (None, w') \<Rightarrow> updated (\<lambda>_ _. True) (set ids) (swTable w) (swTable w')"
proof -
  obtain r w' where r: "store_update fault landed fmt cast w ids vecs = (r, w')" by fastforce
  have "batch_allows (\<lambda>_ _. True) cast (swTable w) (zip (map (vectorLiteral fmt) vecs) ids)" by (auto simp: batch_allows_def)
  from store_update_outcome[OF r this] show ?thesis by (cases r) (auto simp: r)
qed

text \<open>C16. Every run of the embedding pass returns, whatever the database, the embedder and the context
  do, and its tally is right: it never reads more rows than the limit, and scanned rows are
  embedded or skipped, all of them unless the run failed.\<close>

theorem runEmbed_returns:
  "\<exists>err st s'. runEmbed (2 ^ 128 + Suc n) env opts s = Some ((err, st), s') \<and> tally_final (eoLimit opts) err st"
proof -
  have "runEmbed (2 ^ 128 + Suc n) env opts s \<noteq> None" by (rule pass_returns) (simp only: add_Suc_right less_add_Suc1)
  then obtain r where r: "runEmbed (2 ^ 128 + Suc n) env opts s = Some r" by blast
  obtain err st s' where "r = ((err, st), s')" by (metis prod.collapse)
  with r pass_tally[of "2 ^ 128 + Suc n" env opts s err st s'] show ?thesis by blast
qed

section \<open>A run without faults\<close>

text \<open>The documented behaviour of the collaborators when nothing fails: no fault, no cancellation; an
  embedder that returns one vector for each text, of 384 numbers, in order (\<open>V\<close> relates a text to the vectors it may
  be given); and a cast that accepts the literal of such a vector. Nothing is said of other literals.\<close>

definition healthy :: "('m, 'v, 'e) pass_env \<Rightarrow> (string \<Rightarrow> f32 list \<Rightarrow> bool) \<Rightarrow> bool" where
  "healthy env V \<longleftrightarrow> peCtx env = (\<lambda>_. None) \<and> peFault env = (\<lambda>_. None) \<and>
     (\<forall>t vec. V t vec \<longrightarrow> length vec = EmbeddingDim \<and> list_all finite_f vec) \<and>
     (\<forall>vec. length vec = EmbeddingDim \<and> list_all finite_f vec \<longrightarrow>
        \<not> isl (peCast env (vectorLiteral (peFormat env) vec))) \<and>
     (\<forall>m ts. \<exists>vs m'. peEmbedBatch env m ts = (Inr vs, m') \<and> list_all2 V ts vs)"

text \<open>The value stored for a row: the cast of the literal of a vector for the row's own text.\<close>

definition stores :: "('m, 'v, 'e) pass_env \<Rightarrow> (string \<Rightarrow> f32 list \<Rightarrow> bool) \<Rightarrow> embed_row \<Rightarrow> 'v \<Rightarrow> bool" where
  "stores env V row v \<longleftrightarrow> (\<exists>vec. V (row_text row) vec \<and> peCast env (vectorLiteral (peFormat env) vec) = Inr v)"

text \<open>What the pass promises: all text is as before, and exactly the rows that had text but no
  embedding have got one, a value that \<open>W\<close> allows for the row.\<close>

definition filled :: "(embed_row \<Rightarrow> 'v \<Rightarrow> bool) \<Rightarrow> 'v stored_row list \<Rightarrow> 'v stored_row list \<Rightarrow> bool" where
  "filled W T T' \<longleftrightarrow> list_all2 (\<lambda>r r'. srwRow r' = srwRow r \<and>
     (if srwEmbedding r = None \<and> row_text (srwRow r) \<noteq> [] then embedded W (srwRow r) (srwEmbedding r')
      else srwEmbedding r' = srwEmbedding r)) T T'"

abbreviation key :: "'v stored_row \<Rightarrow> uuid" where
  "key r \<equiv> erID (srwRow r)"

definition missing :: "uuid \<Rightarrow> 'v stored_row list \<Rightarrow> 'v stored_row list" where
  "missing a T = filter (\<lambda>r. a < key r \<and> srwEmbedding r = None) T"

lemma pageSQL_missing: "pageSQL T a k True = take (nat k) (sort_key (erID \<circ> srwRow) (missing a T))"
  by (simp add: pageSQL_def missing_def)

lemma sorted_missing:
  assumes "distinct (map key T)"
  shows "sorted_wrt (\<lambda>x y. key x < key y) (sort_key (erID \<circ> srwRow) (missing a T))"
proof -
  let ?L = "sort_key (erID \<circ> srwRow) (missing a T)"
  have "distinct (map key (missing a T))" unfolding missing_def using assms by (rule distinct_map_filter)
  moreover have "mset (map key ?L) = mset (map key (missing a T))" by (simp add: mset_map)
  ultimately have "distinct (map key ?L)" by (metis mset_eq_imp_distinct_iff)
  moreover have "sorted (map key ?L)" using sorted_sort_key[of "erID \<circ> srwRow" "missing a T"] by (simp add: comp_def)
  ultimately have "sorted_wrt (<) (map key ?L)" by (simp add: strict_sorted_iff)
  then show ?thesis by (simp add: sorted_wrt_map)
qed

text \<open>A page is the missing rows up to its last key; a short page is all of them.\<close>

lemma page_covers:
  assumes "distinct (map key T)" "0 < k" "P = pageSQL T a k True" "P \<noteq> []"
    and "r \<in> set (missing a T)" "key r \<le> key (last P)"
  shows "r \<in> set P"
proof -
  let ?L = "sort_key (erID \<circ> srwRow) (missing a T)"
  have P: "P = take (nat k) ?L" using assms(3) by (simp add: pageSQL_missing)
  have "r \<in> set ?L" using assms(5) by simp
  then have "r \<in> set P \<or> r \<in> set (drop (nat k) ?L)" unfolding P by (metis append_take_drop_id Un_iff set_append)
  moreover have "key (last P) < key r" if "r \<in> set (drop (nat k) ?L)"
  proof -
    have "sorted_wrt (\<lambda>x y. key x < key y) (P @ drop (nat k) ?L)"
      using sorted_missing[OF assms(1), of a] by (simp add: P)
    then show ?thesis using that assms(4) by (simp add: sorted_wrt_append)
  qed
  ultimately show ?thesis using assms(6) by auto
qed

lemma short_page:
  assumes "int (length P) < k" "P = pageSQL T a k True"
  shows "set P = set (missing a T)"
proof -
  have "length (missing a T) \<le> nat k" using assms by (simp add: pageSQL_missing split: if_splits)
  then show ?thesis using assms(2) by (simp add: pageSQL_missing)
qed

lemma page_subset: "set (pageSQL T a k True) \<subseteq> set (missing a T)"
  by (auto simp: pageSQL_missing dest!: in_set_takeD)

text \<open>Round trips without faults.\<close>

lemma scan_page_ok: "\<exists>t. scan_page (\<lambda>_. None) rs out w = (Inr (out @ map srwRow rs), w\<lparr>swTick := t\<rparr>)"
proof (induction rs arbitrary: out w)
  case Nil
  then show ?case by (auto simp: trip_def)
next
  case (Cons r rs)
  from Cons[of "out @ [srwRow r]" "w\<lparr>swTick := swTick w + 1\<rparr>"] show ?case by (auto simp: trip_def)
qed

lemma store_page_ok:
  "\<exists>t. store_page (\<lambda>_. None) w a k m = (Inr (map srwRow (pageSQL (swTable w) a k m)), w\<lparr>swTick := t\<rparr>)"
  using scan_page_ok[of "pageSQL (swTable w) a k m" "[]" "w\<lparr>swTick := swTick w + 1\<rparr>"]
  by (simp add: store_page_def trip_def)

lemma exec_loop_ok:
  assumes "\<forall>q \<in> set qs. \<not> isl (cast (fst q))"
  shows "\<exists>tx' w'. exec_loop (\<lambda>_. None) cast n i qs tx w = (Inr tx', w')"
  using assms
proof (induction qs arbitrary: i tx w)
  case (Cons q qs)
  obtain lit u where q: "q = (lit, u)" by fastforce
  with Cons.prems obtain v where "cast lit = Inr v" by (cases "cast lit") auto
  with Cons q show ?case by (simp add: trip_def)
qed simp

lemma store_update_ok:
  assumes "\<forall>vec \<in> set vecs. \<not> isl (cast (vectorLiteral fmt vec))" "length ids \<le> length vecs"
  shows "\<exists>w'. store_update (\<lambda>_. None) landed fmt cast w ids vecs = (None, w')"
proof -
  have "\<forall>q \<in> set (zip (map (vectorLiteral fmt) vecs) ids). \<not> isl (cast (fst q))"
    using assms(1) by (auto dest!: set_zip_leftD)
  from exec_loop_ok[OF this, of "length ids" 0 "swTable w" "w\<lparr>swTick := swTick w + 1\<rparr>"] assms(2)
  show ?thesis by (auto simp: store_update_def trip_def Let_def not_less)
qed

text \<open>A page of rows of the table, each the only one with its id.\<close>

definition page_of :: "embed_row list \<Rightarrow> 'v stored_row list \<Rightarrow> bool" where
  "page_of rows T \<longleftrightarrow> (\<forall>row \<in> set rows. \<forall>row' \<in> srwRow ` set T. erID row' = erID row \<longrightarrow> row' = row)"

lemma embedPage_ok:
  assumes "healthy env V" "page_of rows (swTable w)"
  shows "\<exists>st' w' m'. embedPage (pass_backfiller env) rows st (w, m) = ((None, st'), w', m') \<and>
    updated (stores env V) (set (map erID (with_text rows))) (swTable w) (swTable w')"
proof (cases "with_text rows = []")
  case True
  then show ?thesis by (simp add: embedPage_def collect_texts_eq)
next
  case False
  let ?rows = "with_text rows"
  obtain vs m' where e: "peEmbedBatch env m (map row_text ?rows) = (Inr vs, m')" "list_all2 V (map row_text ?rows) vs"
    using assms(1) by (metis healthy_def)
  have len: "length vs = length ?rows" using list_all2_lengthD[OF e(2)] by simp
  have cast: "\<forall>vec \<in> set vs. \<not> isl (peCast env (vectorLiteral (peFormat env) vec))"
  proof
    fix vec assume "vec \<in> set vs"
    then obtain t where "V t vec" using e(2) by (metis in_set_conv_nth list_all2_nthD2)
    then show "\<not> isl (peCast env (vectorLiteral (peFormat env) vec))" using assms(1) unfolding healthy_def by blast
  qed
  obtain w' where u: "store_update (\<lambda>_. None) (peLanded env) (peFormat env) (peCast env) w (map erID ?rows) vs = (None, w')"
    using store_update_ok[OF cast, of "map erID ?rows" "peLanded env" w] len by auto
  have "batch_allows (stores env V) (peCast env) (swTable w) (zip (map (vectorLiteral (peFormat env)) vs) (map erID ?rows))"
    unfolding batch_allows_def
  proof clarify
    fix lit u v r assume q: "(lit, erID (srwRow r)) \<in> set (zip (map (vectorLiteral (peFormat env)) vs) (map erID ?rows))"
      and v: "peCast env lit = Inr v" and r: "r \<in> set (swTable w)"
    then obtain i where i: "i < length ?rows" "lit = vectorLiteral (peFormat env) (vs ! i)" "erID (?rows ! i) = erID (srwRow r)"
      using len by (auto simp: set_zip)
    have "?rows ! i \<in> set rows" using nth_mem[OF i(1)] by auto
    then have "srwRow r = ?rows ! i" using assms(2) r i(3) unfolding page_of_def by auto
    moreover have "V (row_text (?rows ! i)) (vs ! i)" using list_all2_nthD[OF e(2), of i] i(1) by simp
    ultimately show "stores env V (srwRow r) v" using v i(2) unfolding stores_def by auto
  qed
  moreover have "peFault env = (\<lambda>_. None)" using assms(1) by (simp add: healthy_def)
  ultimately show ?thesis using e(1) u store_update_None[OF u] False len
    by (simp add: embedPage_def collect_texts_eq pass_embed_def pass_update_def)
qed

text \<open>The table while the pass runs: the rows filled so far are those whose key satisfies \<open>c\<close>.\<close>

definition filled_where :: "(embed_row \<Rightarrow> 'v \<Rightarrow> bool) \<Rightarrow> (uuid \<Rightarrow> bool) \<Rightarrow> 'v stored_row list \<Rightarrow> 'v stored_row list \<Rightarrow> bool" where
  "filled_where W c T T' \<longleftrightarrow> list_all2 (\<lambda>r r'. srwRow r' = srwRow r \<and>
     (if srwEmbedding r = None \<and> row_text (srwRow r) \<noteq> [] \<and> c (key r) then embedded W (srwRow r) (srwEmbedding r')
      else srwEmbedding r' = srwEmbedding r)) T T'"

lemma filled_where_True: "filled_where W (\<lambda>_. True) = filled W"
  by (simp add: fun_eq_iff filled_where_def filled_def)

lemma filled_where_keys: "filled_where W c T T' \<Longrightarrow> map key T' = map key T"
  unfolding filled_where_def by (induction T T' rule: list_all2_induct) auto

lemma filled_where_refl: "list_all (\<lambda>r. \<not> c (key r)) T \<Longrightarrow> filled_where W c T T"
  by (induction T) (auto simp: filled_where_def)

lemma updated_keys: "updated W ids T T' \<Longrightarrow> map key T' = map key T"
  unfolding updated_def by (induction T T' rule: list_all2_induct) auto

text \<open>Writing a page moves the frontier over the rows of the page.\<close>

lemma filled_step:
  assumes inv: "filled_where W (\<lambda>k. k \<le> a) T0 T" and up: "updated W (key ` {r \<in> P. row_text (srwRow r) \<noteq> []}) T T'"
    and dist: "distinct (map key T)" and P: "P \<subseteq> set (missing a T)"
    and new: "\<And>r. r \<in> P \<Longrightarrow> c (key r)" and old: "\<And>k. k \<le> a \<Longrightarrow> c k"
    and all: "\<And>r. r \<in> set (missing a T) \<Longrightarrow> c (key r) \<Longrightarrow> r \<in> P"
  shows "filled_where W c T0 T'"
  unfolding filled_where_def list_all2_conv_all_nth
proof (intro conjI allI impI)
  show "length T0 = length T'" using inv up by (auto simp: filled_where_def updated_def dest!: list_all2_lengthD)
  fix i assume i: "i < length T0"
  define r0 r r' where rs: "r0 = T0 ! i" "r = T ! i" "r' = T' ! i"
  have r: "r \<in> set T" using i inv by (auto simp: rs filled_where_def dest: list_all2_lengthD)
  have A: "srwRow r = srwRow r0 \<and> (if srwEmbedding r0 = None \<and> row_text (srwRow r0) \<noteq> [] \<and> key r0 \<le> a
      then embedded W (srwRow r0) (srwEmbedding r) else srwEmbedding r = srwEmbedding r0)"
    using inv i unfolding filled_where_def rs by (auto dest: list_all2_nthD)
  have B: "srwRow r' = srwRow r \<and> (if key r \<in> key ` {r \<in> P. row_text (srwRow r) \<noteq> []} then embedded W (srwRow r) (srwEmbedding r')
      else srwEmbedding r' = srwEmbedding r)"
  proof -
    have "i < length T" using i inv by (auto simp: filled_where_def dest: list_all2_lengthD)
    with up show ?thesis unfolding updated_def rs by (auto dest: list_all2_nthD)
  qed
  have in_ids: "key r \<in> key ` {r \<in> P. row_text (srwRow r) \<noteq> []} \<longleftrightarrow> r \<in> P \<and> row_text (srwRow r) \<noteq> []"
  proof
    assume "key r \<in> key ` {r \<in> P. row_text (srwRow r) \<noteq> []}"
    then obtain p where p: "p \<in> P" "row_text (srwRow p) \<noteq> []" "key p = key r" by auto
    then have "p \<in> set T" using P by (auto simp: missing_def)
    with p r dist have "p = r" by (auto simp: distinct_map dest: inj_onD)
    with p show "r \<in> P \<and> row_text (srwRow r) \<noteq> []" by simp
  qed auto
  have C: "r \<in> P \<Longrightarrow> a < key r \<and> srwEmbedding r = None \<and> c (key r)" using P new by (auto simp: missing_def)
  have D: "a < key r \<Longrightarrow> srwEmbedding r = None \<Longrightarrow> c (key r) \<Longrightarrow> r \<in> P" using r all by (simp add: missing_def)
  show "srwRow (T' ! i) = srwRow (T0 ! i)" using A B by (simp add: rs)
  show "if srwEmbedding (T0 ! i) = None \<and> row_text (srwRow (T0 ! i)) \<noteq> [] \<and> c (key (T0 ! i))
    then embedded W (srwRow (T0 ! i)) (srwEmbedding (T' ! i)) else srwEmbedding (T' ! i) = srwEmbedding (T0 ! i)"
    unfolding rs[symmetric]
  proof (cases "r \<in> P \<and> row_text (srwRow r) \<noteq> []")
    case True
    then have "a < key r" "c (key r)" using C by auto
    then show "if srwEmbedding r0 = None \<and> row_text (srwRow r0) \<noteq> [] \<and> c (key r0)
        then embedded W (srwRow r0) (srwEmbedding r') else srwEmbedding r' = srwEmbedding r0"
      using A B in_ids True C by auto
  next
    case False
    then have same: "srwEmbedding r' = srwEmbedding r" using B in_ids by auto
    show "if srwEmbedding r0 = None \<and> row_text (srwRow r0) \<noteq> [] \<and> c (key r0)
        then embedded W (srwRow r0) (srwEmbedding r') else srwEmbedding r' = srwEmbedding r0"
    proof (cases "key r \<le> a")
      case True
      with A same old[of "key r"] show ?thesis by auto
    next
      case far: False
      with A have "srwEmbedding r = srwEmbedding r0" by auto
      with same A D False far show ?thesis by (auto simp: not_le)
    qed
  qed
qed

lemma page_last:
  assumes "distinct (map key T)" "P = pageSQL T a k True" "r \<in> set P"
  shows "key r \<le> key (last P)"
proof -
  have "sorted_wrt (\<lambda>x y. key x < key y) (take (nat k) (sort_key (erID \<circ> srwRow) (missing a T)))"
    by (rule sorted_wrt_take[OF sorted_missing[OF assms(1)]])
  then have "sorted_wrt (\<lambda>x y. key x < key y) P" by (simp add: assms(2) pageSQL_missing)
  moreover obtain Q where "P = Q @ [last P]" using assms(3) by (metis append_butlast_last_id empty_iff list.set(1))
  ultimately have "r = last P \<or> key r < key (last P)" using assms(3) by (metis sorted_wrt_append UnE empty_iff empty_set list.set_intros(1) set_ConsD set_append)
  then show ?thesis by auto
qed

lemma ids_of_page:
  "set (map erID (with_text (map srwRow P))) = key ` {r \<in> set P. row_text (srwRow r) \<noteq> []}"
  by (auto simp: image_iff)

lemma run_step_ok:
  assumes h: "healthy env V" and inv: "filled_where (stores env V) (\<lambda>k. k \<le> a) T0 (swTable w)" and dist: "distinct (map key T0)"
  shows "(\<exists>st' w' m'. run_step (pass_backfiller env) True 0 st a (w, m) = Inl ((None, st'), w', m') \<and>
       filled (stores env V) T0 (swTable w')) \<or>
     (\<exists>st' a' w' m'. run_step (pass_backfiller env) True 0 st a (w, m) = Inr (st', a', w', m') \<and>
       filled_where (stores env V) (\<lambda>k. k \<le> a') T0 (swTable w') \<and> a < a' \<and> a' \<in> set (map key T0))"
proof -
  let ?T = "swTable w" let ?b = "pass_backfiller env"
  define P where "P = pageSQL ?T a 64 True"
  have keys: "map key ?T = map key T0" using inv by (rule filled_where_keys)
  have env: "peCtx env = (\<lambda>_. None)" "peFault env = (\<lambda>_. None)" using h by (simp_all add: healthy_def)
  obtain t where page: "store_page (peFault env) w a 64 True = (Inr (map srwRow P), w\<lparr>swTick := t\<rparr>)"
    using store_page_ok unfolding P_def env(2) by blast
  define st1 where "st1 = st\<lparr>esScanned := esScanned st + int (length P)\<rparr>"
  have sub: "set P \<subseteq> set (missing a ?T)" unfolding P_def by (rule page_subset)
  have "page_of (map srwRow P) ?T"
    unfolding page_of_def
  proof clarsimp
    fix p r assume "p \<in> set P" and r: "r \<in> set ?T" "key r = key p"
    then have "p \<in> set ?T" using sub by (auto simp: missing_def)
    with r dist keys show "srwRow r = srwRow p" by (metis distinct_map inj_onD)
  qed
  obtain st' w' m' where e: "embedPage ?b (map srwRow P) st1 (w\<lparr>swTick := t\<rparr>, m) = ((None, st'), w', m')"
    and up: "updated (stores env V) (key ` {r \<in> set P. row_text (srwRow r) \<noteq> []}) ?T (swTable w')"
    using embedPage_ok[OF h, of "map srwRow P" "w\<lparr>swTick := t\<rparr>" st1 m] \<open>page_of (map srwRow P) ?T\<close> unfolding ids_of_page by auto
  note move = filled_step[OF inv up _ sub, unfolded keys, OF dist]
  have step: "run_step ?b True 0 st a (w, m) =
    (if P = [] then Inl ((None, st), w\<lparr>swTick := t\<rparr>, m)
     else if length P < 64 then Inl ((None, st'), w', m') else Inr (st', key (last P), w', m'))"
    using e by (simp add: run_step_def env(1) pageSize_def pass_page_def page Let_def last_map flip: st1_def)
  have short: "length P < 64 \<Longrightarrow> filled (stores env V) T0 (swTable w')"
    unfolding filled_where_True[symmetric]
    by (rule move) (use short_page[of P 64 ?T a] P_def in auto)
  show ?thesis
  proof (cases "length P < 64")
    case True
    moreover have "swTable w' = ?T" if "P = []" using up that by (auto simp: updated_def list_all2_conv_all_nth intro!: nth_equalityI stored_row.equality)
    ultimately show ?thesis using short step by (cases "P = []") auto
  next
    case False
    then have ne: "P \<noteq> []" by auto
    have "filled_where (stores env V) (\<lambda>k. k \<le> key (last P)) T0 (swTable w')"
    proof (rule move)
      show "\<And>r. r \<in> set P \<Longrightarrow> key r \<le> key (last P)" using page_last[OF _ P_def] dist keys by metis
      show "\<And>r. r \<in> set (missing a ?T) \<Longrightarrow> key r \<le> key (last P) \<Longrightarrow> r \<in> set P"
        using page_covers[OF _ _ P_def ne] dist keys by simp
      have "last P \<in> set (missing a ?T)" using sub last_in_set[OF ne] by blast
      then have "a < key (last P)" by (simp add: missing_def)
      then show "\<And>k. k \<le> a \<Longrightarrow> k \<le> key (last P)" by simp
    qed
    moreover have "last P \<in> set (missing a ?T)" using sub last_in_set[OF ne] by blast
    then have "a < key (last P)" "key (last P) \<in> set (map key ?T)" by (auto simp: missing_def)
    ultimately show ?thesis using step ne False keys by auto
  qed
qed

lemma run_loop_ok:
  assumes "healthy env V" "distinct (map key T0)"
  shows "filled_where (stores env V) (\<lambda>k. k \<le> a) T0 (swTable w) \<Longrightarrow> length (filter (\<lambda>r. a < key r) T0) < n \<Longrightarrow>
    \<exists>st' w' m'. run_loop n (pass_backfiller env) True 0 st a (w, m) = Some ((None, st'), w', m') \<and>
      filled (stores env V) T0 (swTable w')"
proof (induction n arbitrary: st a w m)
  case (Suc n)
  from run_step_ok[OF assms(1) Suc.prems(1) assms(2), of st m] show ?case
  proof (elim disjE exE conjE)
    fix st' a' w' m'
    assume s: "run_step (pass_backfiller env) True 0 st a (w, m) = Inr (st', a', w', m')"
      and inv: "filled_where (stores env V) (\<lambda>k. k \<le> a') T0 (swTable w')" and a: "a < a'" "a' \<in> set (map key T0)"
    have "filter (\<lambda>r. a' < key r) T0 = filter (\<lambda>r. a' < key r) (filter (\<lambda>r. a < key r) T0)"
      using a by (auto intro!: filter_cong)
    moreover obtain r where "r \<in> set (filter (\<lambda>r. a < key r) T0)" "\<not> a' < key r" using a by auto
    ultimately have "length (filter (\<lambda>r. a' < key r) T0) < length (filter (\<lambda>r. a < key r) T0)"
      using length_filter_less[of r "filter (\<lambda>r. a < key r) T0" "\<lambda>r. a' < key r"] by simp
    with Suc.prems(2) have "length (filter (\<lambda>r. a' < key r) T0) < n" by simp
    from Suc.IH[OF inv this] s show ?case by simp
  qed auto
qed simp

lemma filled_keys: "filled W T T' \<Longrightarrow> map key T' = map key T"
  using filled_where_keys[of W "\<lambda>_. True"] by (simp add: filled_where_True)

lemma filled_again: "filled W T T1 \<Longrightarrow> filled W T1 T2 \<Longrightarrow> T2 = T1"
proof (induction T T1 arbitrary: T2 rule: list_induct2')
  case (4 r T r1 T1)
  then obtain r2 T2' where "T2 = r2 # T2'" by (cases T2) (auto simp: filled_def)
  with 4 show ?case by (cases r1; cases r2) (auto simp: filled_def embedded_def split: if_splits option.splits)
qed (auto simp: filled_def)

lemma runEmbed_aux:
  assumes "healthy env V" "distinct (map key (swTable w))" "0 \<notin> set (map key (swTable w))"
    and "length (swTable w) < fuel"
  shows "\<exists>st' w' m'. runEmbed fuel env \<lparr>eoAll = False, eoLimit = 0\<rparr> (w, m) = Some ((None, st'), w', m') \<and>
    filled (stores env V) (swTable w) (swTable w')"
proof -
  have "filled_where (stores env V) (\<lambda>k. k \<le> 0) (swTable w) (swTable w)"
    using assms(3) by (intro filled_where_refl) (auto simp: list_all_iff)
  moreover have "length (filter (\<lambda>r. 0 < key r) (swTable w)) < fuel"
    using assms(4) length_filter_le[of "\<lambda>r. 0 < key r" "swTable w"] by linarith
  ultimately show ?thesis
    unfolding runEmbed_def Run_backfill_def using run_loop_ok[OF assms(1,2)] by simp
qed

section \<open>Properties of a run without faults\<close>

text \<open>C32. Without faults, with an embedder that gives each text a vector of 384 numbers, the default pass
  returns within one turn more than there are rows, and has then filled exactly the missing
  embeddings: every row with text has the cast of the literal of a vector for its own text, rows without text
  and rows embedded before are untouched. A second run changes nothing. The nil id is
  excluded, because the scan starts strictly after it.\<close>

theorem runEmbed_fills:
  assumes "healthy env V" "distinct (map key (swTable w))" "0 \<notin> set (map key (swTable w))"
    and "length (swTable w) < fuel"
  shows "\<exists>st1 w1 m1 st2 w2 m2.
    runEmbed fuel env \<lparr>eoAll = False, eoLimit = 0\<rparr> (w, m) = Some ((None, st1), w1, m1) \<and>
    filled (stores env V) (swTable w) (swTable w1) \<and>
    runEmbed fuel env \<lparr>eoAll = False, eoLimit = 0\<rparr> (w1, m1) = Some ((None, st2), w2, m2) \<and>
    swTable w2 = swTable w1"
proof -
  obtain st1 w1 m1 where first: "runEmbed fuel env \<lparr>eoAll = False, eoLimit = 0\<rparr> (w, m) = Some ((None, st1), w1, m1)"
    "filled (stores env V) (swTable w) (swTable w1)"
    using runEmbed_aux[OF assms] by blast
  note keys = filled_keys[OF first(2)]
  have "length (swTable w1) = length (swTable w)" using keys by (metis length_map)
  with assms keys obtain st2 w2 m2 where
    "runEmbed fuel env \<lparr>eoAll = False, eoLimit = 0\<rparr> (w1, m1) = Some ((None, st2), w2, m2)"
    "filled (stores env V) (swTable w1) (swTable w2)"
    using runEmbed_aux[of env V w1 fuel m1] by auto
  with first filled_again show ?thesis by blast
qed

definition one_row :: "string store_world" where
  "one_row = \<lparr>swTable = [\<lparr>srwRow = \<lparr>erID = 1, erName = ''Cafe'', erCategory = [], erSubcategory = None, erAbout = None,
     erUniversalTags = [], erSpecificTags = []\<rparr>, srwEmbedding = None\<rparr>], swTick = 0\<rparr>"

text \<open>An embedder that answers with the zero vector, and a column that keeps the literal.\<close>

definition zero_vec :: "f32 list" where
  "zero_vec = replicate 384 (Fin 0)"

definition calm_env :: "(unit, string, unit) pass_env" where
  "calm_env = \<lparr>peCtx = \<lambda>_. None, peFault = \<lambda>_. None, peLanded = \<lambda>_. False, peFormat = \<lambda>_. ''0'',
     peCast = \<lambda>l. if l = ''[]'' then Inl () else Inr l,
     peEmbedBatch = \<lambda>m ts. (Inr (map (\<lambda>_. zero_vec) ts), m)\<rparr>"

lemma literal_loop_longer: "length buf \<le> length (literal_loop fmt i vs buf)"
proof (induction fmt i vs buf rule: literal_loop.induct)
  case (2 fmt i v vs buf)
  then show ?case by (auto simp: Let_def intro: order_trans[rotated])
qed simp

lemma healthy_calm: "healthy calm_env (\<lambda>_ vec. vec = zero_vec)"
proof -
  have "vectorLiteral (\<lambda>_. ''0'') vec \<noteq> ''[]''" if len: "length vec = EmbeddingDim" for vec :: "f32 list"
  proof -
    obtain v vs where "vec = v # vs" by (cases vec) (use len in \<open>auto simp: EmbeddingDim_def\<close>)
    then have "3 \<le> length (vectorLiteral (\<lambda>_. ''0'') vec)"
      using literal_loop_longer[of "''[0''" "\<lambda>_. ''0''" 1 vs] by (simp add: vectorLiteral_def)
    then show ?thesis by auto
  qed
  then show ?thesis
    by (auto simp: healthy_def calm_env_def zero_vec_def EmbeddingDim_def list_all_iff list.rel_map list_all2_same)
qed

theorem runEmbed_fills_witness:
  "\<exists>st1 w1 m1. runEmbed 2 calm_env \<lparr>eoAll = False, eoLimit = 0\<rparr> (one_row, ()) = Some ((None, st1), w1, m1) \<and>
    filled (stores calm_env (\<lambda>_ vec. vec = zero_vec)) (swTable one_row) (swTable w1)"
  using runEmbed_fills[OF healthy_calm, of one_row 2 "()"] by (auto simp: one_row_def)

end
