(* ===== verification/Embedders.thy ===== *)
theory Embedders
  imports Domain
begin

text \<open>
  The two adapters behind the \<open>Embedder\<close> port: \<open>retrieve/embed/ollama\<close>, an HTTP client, and
  \<open>retrieve/embed/onnx\<close>, a pool of in-process pipelines. HTTP transport, JSON and the ONNX
  runtime are parameters (transport and runtime with a state of their own). Both adapters
  interpret the locale \<open>embedder\<close>; the pool is also a transition system over the calls in
  flight, with the invariant that no pipeline is lost or shared.
\<close>

section \<open>Ollama\<close>

datatype 'e ollama_error =
    EmptyBaseURL | EmptyModel
  | EncodeRequest 'e
  | NewRequest string 'e
  | PostFailed string 'e
  | PostStatus string int
  | DecodeFailed string 'e
  | WrongDims nat nat
  | EmbedFailed string "'e ollama_error"
  | BatchCount nat nat
  | BatchIndex nat "'e ollama_error"

record ollama =
  olBaseURL :: string
  olModel :: string

datatype ollama_request = EmbedRequest string string | BatchRequest string "string list"

text \<open>The HTTP client: marshalling, request construction, the round trip (status and body), and
  decoding of the two response shapes.\<close>

record ('s, 'b, 'e) http_client =
  hcMarshal :: "ollama_request \<Rightarrow> 'e + string"
  hcRequest :: "string \<Rightarrow> string \<Rightarrow> 'e + string"
  hcDo :: "'s \<Rightarrow> string \<Rightarrow> ('e + int \<times> 'b) \<times> 's"
  hcDecodeOne :: "'b \<Rightarrow> 'e + f64 list"
  hcDecodeMany :: "'b \<Rightarrow> 'e + f64 list list"

definition New_ollama :: "string \<Rightarrow> string \<Rightarrow> 'e ollama_error + ollama" where
  "New_ollama baseURL model =
     (if baseURL = [] then Inl EmptyBaseURL
      else if model = [] then Inl EmptyModel
      else Inr \<lparr>olBaseURL = baseURL, olModel = model\<rparr>)"

definition post :: "ollama \<Rightarrow> ('s, 'b, 'e) http_client \<Rightarrow> ('b \<Rightarrow> 'e + 'v) \<Rightarrow> 's \<Rightarrow> string \<Rightarrow> ollama_request \<Rightarrow>
    ('e ollama_error + 'v) \<times> 's" where
  "post e hc decode s path body =
     (case hcMarshal hc body of
        Inl x \<Rightarrow> (Inl (EncodeRequest x), s)
      | Inr payload \<Rightarrow>
          (case hcRequest hc (olBaseURL e @ path) payload of
             Inl x \<Rightarrow> (Inl (NewRequest path x), s)
           | Inr req \<Rightarrow>
               (case hcDo hc s req of
                  (Inl x, s) \<Rightarrow> (Inl (PostFailed path x), s)
                | (Inr (status, resp), s) \<Rightarrow>
                    if 300 \<le> status then (Inl (PostStatus path status), s)
                    else (map_err (DecodeFailed path) (decode resp), s))))"

definition toVector :: "f64 list \<Rightarrow> 'e ollama_error + f32 list" where
  "toVector raw =
     (if length raw \<noteq> EmbeddingDim then Inl (WrongDims EmbeddingDim (length raw))
      else Inr (map f_to_f32 raw))"

definition Embed_ollama :: "ollama \<Rightarrow> ('s, 'b, 'e) http_client \<Rightarrow> 's \<Rightarrow> string \<Rightarrow> ('e ollama_error + f32 list) \<times> 's" where
  "Embed_ollama e hc s text =
     (let (resp, s) = post e hc (hcDecodeOne hc) s ''/api/embeddings'' (EmbedRequest (olModel e) text)
      in (res_bind resp (\<lambda>emb. map_err (EmbedFailed text) (toVector emb)), s))"

fun to_vectors :: "nat \<Rightarrow> f64 list list \<Rightarrow> 'e ollama_error + f32 list list" where
  "to_vectors i [] = Inr []"
| "to_vectors i (raw # raws) = res_bind (map_err (BatchIndex i) (toVector raw))
     (\<lambda>v. res_bind (to_vectors (i + 1) raws) (\<lambda>vs. Inr (v # vs)))"

definition EmbedBatch_ollama :: "ollama \<Rightarrow> ('s, 'b, 'e) http_client \<Rightarrow> 's \<Rightarrow> string list \<Rightarrow>
    ('e ollama_error + f32 list list) \<times> 's" where
  "EmbedBatch_ollama e hc s texts =
     (if length texts = 0 then (Inr [], s)
      else
        (let (resp, s) = post e hc (hcDecodeMany hc) s ''/api/embed'' (BatchRequest (olModel e) texts)
         in (res_bind resp (\<lambda>embs.
               if length embs \<noteq> length texts then Inl (BatchCount (length embs) (length texts))
               else to_vectors 0 embs), s)))"

lemma toVector_dim: "toVector raw = Inr v \<Longrightarrow> length v = EmbeddingDim"
  by (auto simp: toVector_def split: if_splits)

lemma to_vectors_Inr: "to_vectors i raws = Inr vs \<Longrightarrow>
    length vs = length raws \<and> list_all (\<lambda>v. length v = EmbeddingDim) vs"
  by (induction raws arbitrary: i vs) (auto simp: res_bind_eq_Inr toVector_dim)

interpretation ollama_port: embedder "Embed_ollama e hc" "EmbedBatch_ollama e hc" for e hc
proof
  fix s t v s' assume "Embed_ollama e hc s t = (Inr v, s')"
  then show "length v = EmbeddingDim"
    by (auto simp: Embed_ollama_def res_bind_eq_Inr toVector_dim split: prod.splits)
next
  fix s ts vs s' assume "EmbedBatch_ollama e hc s ts = (Inr vs, s')"
  then show "length vs = length ts" "list_all (\<lambda>v. length v = EmbeddingDim) vs"
    by (auto simp: EmbedBatch_ollama_def res_bind_eq_Inr dest: to_vectors_Inr split: if_splits prod.splits)
qed

section \<open>ONNX\<close>

datatype 'e onnx_error =
    EmptyModelPath
  | NewSession 'e
  | LoadPipeline nat 'e
  | WaitingForPipeline 'e
  | RunFailed nat 'e
  | OnnxCount nat nat
  | OnnxDims nat nat nat

text \<open>
  The runtime: session creation, one pipeline per index, and \<open>RunPipeline\<close>. The embedder's
  state is the number of pipelines in the channel, and the runtime's own state.
\<close>

record ('s, 'e) ort =
  ortSession :: "string \<Rightarrow> 'e + 's"
  ortPipeline :: "'s \<Rightarrow> nat \<Rightarrow> ('e option) \<times> 's"
  ortDestroy :: "'s \<Rightarrow> 's"
  ortRun :: "'s \<Rightarrow> string list \<Rightarrow> ('e + f32 list list) \<times> 's"
  ortMaxProcs :: nat

fun load_pipelines :: "('s, 'e) ort \<Rightarrow> nat \<Rightarrow> nat \<Rightarrow> nat \<Rightarrow> 's \<Rightarrow> ('e onnx_error + nat) \<times> 's" where
  "load_pipelines rt 0 i pool s = (Inr pool, s)"
| "load_pipelines rt (Suc left) i pool s =
     (case ortPipeline rt s i of
        (Some x, s) \<Rightarrow> (Inl (LoadPipeline i x), ortDestroy rt s)
      | (None, s) \<Rightarrow> load_pipelines rt left (i + 1) (pool + 1) s)"

definition New_onnx :: "('s, 'e) ort \<Rightarrow> string \<Rightarrow> string \<Rightarrow> int \<Rightarrow> 'e onnx_error + nat \<times> 's" where
  "New_onnx rt modelPath libDir poolSize =
     (if modelPath = [] then Inl EmptyModelPath
      else
        (let size = (if poolSize \<le> 0 then ortMaxProcs rt else nat poolSize)
         in case ortSession rt libDir of
              Inl x \<Rightarrow> Inl (NewSession x)
            | Inr s \<Rightarrow>
                (case load_pipelines rt size 0 0 s of
                   (Inl e, _) \<Rightarrow> Inl e
                 | (Inr pool, s) \<Rightarrow> Inr (pool, s))))"

fun check_dims :: "nat \<Rightarrow> f32 list list \<Rightarrow> 'e onnx_error option" where
  "check_dims i [] = None"
| "check_dims i (v # vs) =
     (if length v \<noteq> EmbeddingDim then Some (OnnxDims i (length v) EmbeddingDim) else check_dims (i + 1) vs)"

text \<open>
  \<open>run\<close> of one caller: with no pipeline in the channel, or when the select takes the
  cancelled context, it returns the context's error; otherwise the pipeline it took goes back
  on every path (the deferred send).
\<close>

definition run_onnx :: "('s, 'e) ort \<Rightarrow> 'e option \<Rightarrow> nat \<times> 's \<Rightarrow> string list \<Rightarrow>
    ('e onnx_error + f32 list list) \<times> (nat \<times> 's)" where
  "run_onnx rt cancelled st texts =
     (case cancelled of
        Some x \<Rightarrow> (Inl (WaitingForPipeline x), st)
      | None \<Rightarrow>
          (let (pool, s) = st;
               taken = pool - 1;
               (out, s) = ortRun rt s texts;
               back = taken + 1
           in (case out of
                 Inl x \<Rightarrow> Inl (RunFailed (length texts) x)
               | Inr vs \<Rightarrow>
                   if length vs \<noteq> length texts then Inl (OnnxCount (length vs) (length texts))
                   else (case check_dims 0 vs of Some e \<Rightarrow> Inl e | None \<Rightarrow> Inr vs),
               (back, s))))"

definition Embed_onnx :: "('s, 'e) ort \<Rightarrow> 'e option \<Rightarrow> nat \<times> 's \<Rightarrow> string \<Rightarrow> ('e onnx_error + f32 list) \<times> (nat \<times> 's)" where
  "Embed_onnx rt cancelled st text =
     (let (vecs, st) = run_onnx rt cancelled st [text] in (res_bind vecs (\<lambda>vs. Inr (vs ! 0)), st))"

definition EmbedBatch_onnx :: "('s, 'e) ort \<Rightarrow> 'e option \<Rightarrow> nat \<times> 's \<Rightarrow> string list \<Rightarrow>
    ('e onnx_error + f32 list list) \<times> (nat \<times> 's)" where
  "EmbedBatch_onnx rt cancelled st texts =
     (if length texts = 0 then (Inr [], st) else run_onnx rt cancelled st texts)"

definition Close_onnx :: "('s, 'e) ort \<Rightarrow> nat \<times> 's \<Rightarrow> nat \<times> 's" where
  "Close_onnx rt st = (fst st, ortDestroy rt (snd st))"

lemma check_dims_None: "check_dims i vs = None \<longleftrightarrow> list_all (\<lambda>v. length v = EmbeddingDim) vs"
  by (induction i vs rule: check_dims.induct) auto

lemma run_onnx_Inr:
  "run_onnx rt c st ts = (Inr vs, st') \<Longrightarrow> length vs = length ts \<and> list_all (\<lambda>v. length v = EmbeddingDim) vs"
  by (auto simp: run_onnx_def Let_def check_dims_None split: option.splits prod.splits sum.splits if_splits)

interpretation onnx_port: embedder "Embed_onnx rt c" "EmbedBatch_onnx rt c" for rt c
proof
  fix st t v st' assume "Embed_onnx rt c st t = (Inr v, st')"
  then obtain vs where "run_onnx rt c st [t] = (Inr vs, st')" "v = vs ! 0"
    by (auto simp: Embed_onnx_def res_bind_eq_Inr split: prod.splits)
  then show "length v = EmbeddingDim"
    using run_onnx_Inr[of rt c st "[t]" vs st'] by (cases vs) auto
next
  fix st ts vs st' assume "EmbedBatch_onnx rt c st ts = (Inr vs, st')"
  then show "length vs = length ts" "list_all (\<lambda>v. length v = EmbeddingDim) vs"
    by (auto simp: EmbedBatch_onnx_def dest: run_onnx_Inr split: if_splits)
qed

lemma load_pipelines_pool: "load_pipelines rt n i pool s = (Inr p, s') \<Longrightarrow> p = pool + n"
  by (induction rt n i pool s rule: load_pipelines.induct) (auto split: prod.splits option.splits)

subsection \<open>Concurrent callers\<close>

text \<open>
  The pool as the calls in flight see it. A call waits, holds one numbered pipeline while it
  runs, and is done; the channel holds the other pipelines.
\<close>

datatype call = Waiting | Running nat | Done

record pool_state =
  plFree :: "nat list"
  plCalls :: "call list"

inductive pool_step :: "pool_state \<Rightarrow> pool_state \<Rightarrow> bool" where
  arrive: "pool_step st (st\<lparr>plCalls := plCalls st @ [Waiting]\<rparr>)"
| acquire: "plFree st = p # ps \<Longrightarrow> k < length (plCalls st) \<Longrightarrow> plCalls st ! k = Waiting \<Longrightarrow>
    pool_step st (st\<lparr>plFree := ps, plCalls := (plCalls st)[k := Running p]\<rparr>)"
| cancel: "k < length (plCalls st) \<Longrightarrow> plCalls st ! k = Waiting \<Longrightarrow>
    pool_step st (st\<lparr>plCalls := (plCalls st)[k := Done]\<rparr>)"
| release: "k < length (plCalls st) \<Longrightarrow> plCalls st ! k = Running p \<Longrightarrow>
    pool_step st (st\<lparr>plFree := plFree st @ [p], plCalls := (plCalls st)[k := Done]\<rparr>)"

inductive pool_reach :: "nat \<Rightarrow> pool_state \<Rightarrow> bool" for n where
  init: "pool_reach n \<lparr>plFree = [0..<n], plCalls = []\<rparr>"
| step: "pool_reach n st \<Longrightarrow> pool_step st st' \<Longrightarrow> pool_reach n st'"

inductive_cases pool_stepE: "pool_step st st'"

fun holds :: "call \<Rightarrow> nat list" where
  "holds (Running p) = [p]"
| "holds _ = []"

definition held :: "call list \<Rightarrow> nat list" where
  "held cs = concat (map holds cs)"

lemma mset_held_update:
  assumes "k < length cs"
  shows "mset (held (cs[k := c])) + mset (holds (cs ! k)) = mset (held cs) + mset (holds c)"
proof -
  have "cs = take k cs @ cs ! k # drop (Suc k) cs" using assms by (rule id_take_nth_drop)
  then have "mset (held cs) = mset (held (take k cs)) + mset (holds (cs ! k)) + mset (held (drop (Suc k) cs))"
    unfolding held_def by (metis (no_types, lifting) add.assoc concat.simps(2) concat_append list.simps(9) map_append mset_append)
  moreover have "mset (held (cs[k := c])) = mset (held (take k cs)) + mset (holds c) + mset (held (drop (Suc k) cs))"
    using assms by (simp add: upd_conv_take_nth_drop held_def)
  ultimately show ?thesis by simp
qed

definition pool_inv :: "nat \<Rightarrow> pool_state \<Rightarrow> bool" where
  "pool_inv n st \<longleftrightarrow> mset (plFree st) + mset (held (plCalls st)) = mset [0..<n]"

lemma pool_step_inv: "pool_step st st' \<Longrightarrow> pool_inv n st \<Longrightarrow> pool_inv n st'"
proof (erule pool_stepE)
  assume "pool_inv n st" "st' = st\<lparr>plCalls := plCalls st @ [Waiting]\<rparr>"
  then show "pool_inv n st'" by (simp add: pool_inv_def held_def)
next
  fix p ps k
  assume i: "pool_inv n st" and s: "st' = st\<lparr>plFree := ps, plCalls := (plCalls st)[k := Running p]\<rparr>"
    "plFree st = p # ps" "k < length (plCalls st)" "plCalls st ! k = Waiting"
  then show "pool_inv n st'" using mset_held_update[of k "plCalls st" "Running p"] by (simp add: pool_inv_def)
next
  fix k assume "pool_inv n st" "st' = st\<lparr>plCalls := (plCalls st)[k := Done]\<rparr>"
    "k < length (plCalls st)" "plCalls st ! k = Waiting"
  then show "pool_inv n st'" using mset_held_update[of k "plCalls st" Done] by (simp add: pool_inv_def)
next
  fix k p assume "pool_inv n st" "st' = st\<lparr>plFree := plFree st @ [p], plCalls := (plCalls st)[k := Done]\<rparr>"
    "k < length (plCalls st)" "plCalls st ! k = Running p"
  moreover from this have "mset (held (plCalls st)) = add_mset p (mset (held ((plCalls st)[k := Done])))"
    using mset_held_update[of k "plCalls st" Done] by simp
  ultimately show "pool_inv n st'" by (simp add: pool_inv_def)
qed

lemma pool_reach_inv: "pool_reach n st \<Longrightarrow> pool_inv n st"
  by (induction rule: pool_reach.induct) (simp add: pool_inv_def held_def, rule pool_step_inv)

section \<open>Properties\<close>

text \<open>C29. However calls arrive, wait, run, are cancelled and finish, the ONNX pool neither loses nor
  shares a pipeline: those in the channel and those held by running calls are the pool's,
  each exactly once, so at most as many calls run at once as the pool is large.\<close>

theorem pool_exclusive:
  assumes "pool_reach n st"
  shows "distinct (plFree st @ held (plCalls st)) \<and> set (plFree st @ held (plCalls st)) = {0..<n} \<and>
    length (held (plCalls st)) \<le> n"
proof -
  have m: "mset (plFree st @ held (plCalls st)) = mset [0..<n]"
    using pool_reach_inv[OF assms] by (simp add: pool_inv_def)
  then have "distinct (plFree st @ held (plCalls st))" by (metis distinct_upt mset_eq_imp_distinct_iff)
  moreover have "set (plFree st @ held (plCalls st)) = {0..<n}" using mset_eq_setD[OF m] by simp
  moreover have "length (plFree st @ held (plCalls st)) = n" using mset_eq_length[OF m] by simp
  ultimately show ?thesis by simp
qed

theorem pool_exclusive_witness: "distinct ([1::nat] @ held [Running 0])"
proof -
  have "pool_reach 2 \<lparr>plFree = [0, 1], plCalls = []\<rparr>"
    using pool_reach.init[of 2] by (simp add: eval_nat_numeral)
  then have "pool_reach 2 \<lparr>plFree = [0, 1], plCalls = [Waiting]\<rparr>"
    by (rule pool_reach.step) (use pool_step.arrive[of "\<lparr>plFree = [0, 1], plCalls = []\<rparr>"] in simp)
  then have "pool_reach 2 \<lparr>plFree = [1], plCalls = [Running 0]\<rparr>"
    by (rule pool_reach.step) (use pool_step.acquire[of "\<lparr>plFree = [0, 1], plCalls = [Waiting]\<rparr>" 0 "[1]" 0] in simp)
  from pool_exclusive[OF this] show ?thesis by simp
qed

text \<open>A batch embedded by Ollama without error has one vector per text, each of the dimension
  of the database column.\<close>

theorem ollama_batch_aligned:
  assumes "EmbedBatch_ollama e hc s texts = (Inr vs, s')"
  shows "length vs = length texts \<and> list_all (\<lambda>v. length v = EmbeddingDim) vs"
  using ollama_port.batch_length[OF assms] ollama_port.batch_dim[OF assms] by blast

text \<open>An echo server for the witness: 384 zeros for every input.\<close>

definition echo_client :: "(unit, string, string) http_client" where
  "echo_client = \<lparr>hcMarshal = (\<lambda>r. Inr (case r of EmbedRequest m p \<Rightarrow> ''1'' | BatchRequest m ts \<Rightarrow> map (\<lambda>_. CHR ''1'') ts)),
     hcRequest = (\<lambda>url body. Inr body), hcDo = (\<lambda>s body. (Inr (200, body), s)),
     hcDecodeOne = (\<lambda>n. Inr (replicate 384 (Fin 0))),
     hcDecodeMany = (\<lambda>b. Inr (map (\<lambda>_. replicate 384 (Fin 0)) b))\<rparr>"

theorem ollama_batch_aligned_witness:
  "\<exists>vs. EmbedBatch_ollama \<lparr>olBaseURL = ''http://localhost:11434'', olModel = ''all-minilm''\<rparr> echo_client () [''a'', ''b''] = (Inr vs, ()) \<and>
    length vs = 2"
proof -
  let ?r = "EmbedBatch_ollama \<lparr>olBaseURL = ''http://localhost:11434'', olModel = ''all-minilm''\<rparr> echo_client () [''a'', ''b'']"
  have "\<exists>vs. ?r = (Inr vs, ())"
    by (simp add: EmbedBatch_ollama_def post_def echo_client_def toVector_def EmbeddingDim_def)
  then obtain vs where "?r = (Inr vs, ())" by blast
  from ollama_batch_aligned[OF this] this show ?thesis by simp
qed

end
