(* ===== verification/Postgres_Repo.thy ===== *)
theory Postgres_Repo
  imports Domain "HOL-Library.Product_Lexorder"
begin

text \<open>
  Package \<open>retrieve/postgres\<close> (\<open>repo.go\<close>): the adapter behind the \<open>BusinessRepo\<close> port. The
  connection pool is a parameter: a query maps its state and a call to an error or the rows,
  and the error the row iterator ends with; \<open>pgx\<close>'s conversion of a row to the 19 typed
  destinations is the parameter \<open>scan\<close>. What the two statements answer is modelled in
  \<open>Sql_Database\<close>.
\<close>

section \<open>Wire values\<close>

text \<open>One row of \<open>candidateColumns\<close>, in the order of the projection and of the destinations.\<close>

record wire =
  w_id :: uuid
  w_name :: string
  w_category :: string
  w_subcategory :: "string option"
  w_archetype :: string
  w_neighborhood :: "string option"
  w_distance_km :: f64
  w_lemon_score :: "f64 option"
  w_google_rating :: "f64 option"
  w_google_review_count :: int
  w_price_range :: "string option"
  w_photo_count :: int
  w_photo_url :: "string option"
  w_is_claimed :: bool
  w_friend_count :: int
  w_is_new :: bool
  w_is_open_now :: "bool option"
  w_opens_later :: bool
  w_hours :: "string option"

definition newCandidate :: "candidate \<times> string \<times> string option" where
  "newCandidate =
     (\<lparr>cID = 0, cName = [], cCategory = [], cSubcategory = None, cArchetype = [], cNeighborhood = None,
       cDistanceKM = Fin 0, cLemonScore = None, cGoogleRating = None, cGoogleReviewCount = 0,
       cPriceRange = None, cPhotoCount = 0, cPhotoURL = None, cIsClaimed = False, cFriendCount = 0,
       cIsNew = False, cIsOpenNow = None, cOpensLater = False, cHours = None\<rparr>, [], None)"

text \<open>A successful scan into \<open>candidateScanDests\<close>.\<close>

definition candidateScanDests :: "candidate \<times> string \<times> string option \<Rightarrow> wire \<Rightarrow> candidate \<times> string \<times> string option" where
  "candidateScanDests d w =
     (let (c, archetype, hours) = d in
      (c\<lparr>cID := w_id w, cName := w_name w, cCategory := w_category w, cSubcategory := w_subcategory w,
         cNeighborhood := w_neighborhood w, cDistanceKM := w_distance_km w, cLemonScore := w_lemon_score w,
         cGoogleRating := w_google_rating w, cGoogleReviewCount := w_google_review_count w,
         cPriceRange := w_price_range w, cPhotoCount := w_photo_count w, cPhotoURL := w_photo_url w,
         cIsClaimed := w_is_claimed w, cFriendCount := w_friend_count w, cIsNew := w_is_new w,
         cIsOpenNow := w_is_open_now w, cOpensLater := w_opens_later w\<rparr>,
       w_archetype w, w_hours w))"

definition finishCandidate :: "candidate \<times> string \<times> string option \<Rightarrow> candidate" where
  "finishCandidate d =
     (let (c, archetype, hours) = d; c = c\<lparr>cArchetype := archetype\<rparr>
      in case hours of None \<Rightarrow> c | Some h \<Rightarrow> c\<lparr>cHours := Some h\<rparr>)"

section \<open>Query parameters\<close>

datatype sql_arg = SqlNull | SqlText string | SqlArray "string list"

text \<open>A nil slice and an empty one are the same list here; both become the array literal.\<close>

definition nilToEmpty :: "string list \<Rightarrow> sql_arg" where
  "nilToEmpty s = (if s = [] then SqlArray [] else SqlArray s)"

text \<open>\<open>AppendFloat(buf, v, 'g', -1, 32)\<close> is the parameter \<open>fmt\<close>.\<close>

fun vector_loop :: "(f32 \<Rightarrow> string) \<Rightarrow> nat \<Rightarrow> f32 list \<Rightarrow> string \<Rightarrow> string" where
  "vector_loop fmt i [] buf = buf"
| "vector_loop fmt i (v # vs) buf =
     (let buf = (if 0 < i then buf @ '','' else buf) in vector_loop fmt (i + 1) vs (buf @ fmt v))"

definition vectorParam :: "(f32 \<Rightarrow> string) \<Rightarrow> f32 list option \<Rightarrow> sql_arg" where
  "vectorParam fmt vec =
     (case vec of
        None \<Rightarrow> SqlNull
      | Some v \<Rightarrow> if length v = 0 then SqlNull else SqlText (vector_loop fmt 0 v ''['' @ '']''))"

datatype sql_call =
    SearchSQL string f64 f64 instant int sql_arg sql_arg sql_arg sql_arg sql_arg bool sql_arg
  | ExactNameSQL string f64 f64

section \<open>The adapter\<close>

datatype 'e repo_error =
    NilPool
  | SearchQuery 'e | SearchRows 'e | ScanCandidate 'e
  | ExactQuery 'e | ExactRows 'e | ScanExact 'e

record ('row, 'e) pg_rows =
  rwRows :: "'row list"
  rwErr :: "'e option"

record ('s, 'row, 'e) pg =
  pgQuery :: "'s \<Rightarrow> sql_call \<Rightarrow> ('e + ('row, 'e) pg_rows) \<times> 's"
  pgScan :: "'row \<Rightarrow> 'e + wire"
  pgScanMatch :: "'row \<Rightarrow> 'e + wire \<times> int"
  pgFmt :: "f32 \<Rightarrow> string"

definition nameMatchCoverage :: f64 where "nameMatchCoverage = f_const (8/10)"
definition prefixMatchCoverage :: f64 where "prefixMatchCoverage = f_const (5/10)"
definition maxNameMatches :: int where "maxNameMatches = 5"

definition New_repo :: "('s, 'row, 'e) pg option \<Rightarrow> 'e repo_error + ('s, 'row, 'e) pg" where
  "New_repo pool = (case pool of None \<Rightarrow> Inl NilPool | Some p \<Rightarrow> Inr p)"

definition scanCandidate :: "('s, 'row, 'e) pg \<Rightarrow> 'row \<Rightarrow> 'e repo_error + candidate" where
  "scanCandidate p row =
     (case pgScan p row of
        Inl e \<Rightarrow> Inl (ScanCandidate e)
      | Inr w \<Rightarrow> Inr (finishCandidate (candidateScanDests newCandidate w)))"

fun scan_rows :: "('s, 'row, 'e) pg \<Rightarrow> 'row list \<Rightarrow> candidate list \<Rightarrow> 'e repo_error + candidate list" where
  "scan_rows p [] out = Inr out"
| "scan_rows p (r # rs) out = res_bind (scanCandidate p r) (\<lambda>c. scan_rows p rs (out @ [c]))"

definition Search_repo :: "('s, 'row, 'e) pg \<Rightarrow> 's \<Rightarrow> string \<Rightarrow> search_opts \<Rightarrow> ('e repo_error + candidate list) \<times> 's" where
  "Search_repo p s q opts =
     (let ov = soOverlay opts;
          (res, s) = pgQuery p s (SearchSQL q (soLat opts) (soLng opts) (soNow opts) (soLimit opts)
            (case ovCategoryFilter ov of None \<Rightarrow> SqlNull | Some c \<Rightarrow> SqlText c)
            (nilToEmpty (ovSubcategoryFilter ov)) (nilToEmpty (ovUniversalTagFilter ov))
            (nilToEmpty (ovSpecificTagFilter ov)) (nilToEmpty (ovPriceFilter ov))
            (ovRequireOpenNow ov) (vectorParam (pgFmt p) (soQueryVec opts)))
      in (case res of
            Inl e \<Rightarrow> Inl (SearchQuery e)
          | Inr rows \<Rightarrow> res_bind (scan_rows p (rwRows rows) [])
              (\<lambda>out. case rwErr rows of Some e \<Rightarrow> Inl (SearchRows e) | None \<Rightarrow> Inr out), s))"

definition ExactName :: "('s, 'row, 'e) pg \<Rightarrow> 's \<Rightarrow> string \<Rightarrow> ('e repo_error + candidate option) \<times> 's" where
  "ExactName p s q =
     (let (res, s) = pgQuery p s (ExactNameSQL q nameMatchCoverage prefixMatchCoverage)
      in (case res of
            Inl e \<Rightarrow> Inl (ExactQuery e)
          | Inr rows \<Rightarrow>
              (case rwRows rows of
                 [] \<Rightarrow> (case rwErr rows of Some e \<Rightarrow> Inl (ExactRows e) | None \<Rightarrow> Inr None)
               | row # _ \<Rightarrow>
                   (case pgScanMatch p row of
                      Inl e \<Rightarrow> Inl (ScanExact e)
                    | Inr (w, matchCount) \<Rightarrow>
                        (case rwErr rows of
                           Some e \<Rightarrow> Inl (ExactRows e)
                         | None \<Rightarrow>
                             if maxNameMatches < matchCount then Inr None
                             else Inr (Some (finishCandidate (candidateScanDests newCandidate w)))))), s))"

section \<open>The scan\<close>

definition of_wire :: "wire \<Rightarrow> candidate" where
  "of_wire w = finishCandidate (candidateScanDests newCandidate w)"

lemma of_wire_eq:
  "of_wire w = \<lparr>cID = w_id w, cName = w_name w, cCategory = w_category w, cSubcategory = w_subcategory w,
     cArchetype = w_archetype w, cNeighborhood = w_neighborhood w, cDistanceKM = w_distance_km w,
     cLemonScore = w_lemon_score w, cGoogleRating = w_google_rating w,
     cGoogleReviewCount = w_google_review_count w, cPriceRange = w_price_range w, cPhotoCount = w_photo_count w,
     cPhotoURL = w_photo_url w, cIsClaimed = w_is_claimed w, cFriendCount = w_friend_count w,
     cIsNew = w_is_new w, cIsOpenNow = w_is_open_now w, cOpensLater = w_opens_later w, cHours = w_hours w\<rparr>"
  by (simp add: of_wire_def finishCandidate_def candidateScanDests_def newCandidate_def Let_def split: option.split)

lemma scan_rows_eq: "scan_rows p rs out = res_bind (scan_rows p rs []) (\<lambda>cs. Inr (out @ cs))"
proof (induction rs arbitrary: out)
  case (Cons r rs)
  show ?case
  proof (cases "scanCandidate p r")
    case (Inr c)
    with Cons.IH[of "out @ [c]"] Cons.IH[of "[c]"] show ?thesis
      by (cases "scan_rows p rs []") simp_all
  qed simp
qed simp

lemma scan_rows_length: "scan_rows p rs out = Inr cs \<Longrightarrow> length cs = length out + length rs"
  by (induction p rs out rule: scan_rows.induct) (auto simp: res_bind_eq_Inr)

section \<open>The port\<close>

text \<open>
  What the adapter relies on: the search function of the database returns at most \<open>$5\<close> rows.
  The port's state is the pool together with its state, so that the law is an invariant.
\<close>

definition honors_limit :: "('s, 'row, 'e) pg \<Rightarrow> bool" where
  "honors_limit p \<longleftrightarrow> (\<forall>s q lat lng now limit cat sub uni spec price op vec rows s'.
     pgQuery p s (SearchSQL q lat lng now limit cat sub uni spec price op vec) = (Inr rows, s') \<longrightarrow>
     0 \<le> limit \<longrightarrow> int (length (rwRows rows)) \<le> limit)"

definition port_search :: "('s, 'row, 'e) pg \<times> 's \<Rightarrow> string \<Rightarrow> search_opts \<Rightarrow>
    ('e repo_error + candidate list) \<times> ('s, 'row, 'e) pg \<times> 's" where
  "port_search st q opts = (let (r, s) = Search_repo (fst st) (snd st) q opts in (r, fst st, s))"

definition port_exact :: "('s, 'row, 'e) pg \<times> 's \<Rightarrow> string \<Rightarrow>
    ('e repo_error + candidate option) \<times> ('s, 'row, 'e) pg \<times> 's" where
  "port_exact st q = (let (r, s) = ExactName (fst st) (snd st) q in (r, fst st, s))"

text \<open>The call a search makes.\<close>

definition search_call :: "('s, 'row, 'e) pg \<Rightarrow> string \<Rightarrow> search_opts \<Rightarrow> sql_call" where
  "search_call p q opts = (let ov = soOverlay opts in
     SearchSQL q (soLat opts) (soLng opts) (soNow opts) (soLimit opts)
       (case ovCategoryFilter ov of None \<Rightarrow> SqlNull | Some c \<Rightarrow> SqlText c)
       (nilToEmpty (ovSubcategoryFilter ov)) (nilToEmpty (ovUniversalTagFilter ov))
       (nilToEmpty (ovSpecificTagFilter ov)) (nilToEmpty (ovPriceFilter ov))
       (ovRequireOpenNow ov) (vectorParam (pgFmt p) (soQueryVec opts)))"

lemma Search_repo_call:
  "Search_repo p s q opts =
     (let (res, s) = pgQuery p s (search_call p q opts)
      in (case res of
            Inl e \<Rightarrow> Inl (SearchQuery e)
          | Inr rows \<Rightarrow> res_bind (scan_rows p (rwRows rows) [])
              (\<lambda>out. case rwErr rows of Some e \<Rightarrow> Inl (SearchRows e) | None \<Rightarrow> Inr out), s))"
  by (simp add: Search_repo_def search_call_def Let_def)

lemma Search_repo_limit:
  assumes "honors_limit p" "Search_repo p s q opts = (Inr cs, s')" "0 \<le> soLimit opts"
  shows "int (length cs) \<le> soLimit opts"
proof -
  from assms(2) obtain rows where "pgQuery p s (search_call p q opts) = (Inr rows, s')" "scan_rows p (rwRows rows) [] = Inr cs"
    unfolding Search_repo_call by (auto simp: res_bind_eq_Inr split: prod.splits sum.splits option.splits)
  with assms(1,3) show ?thesis
    unfolding honors_limit_def search_call_def Let_def by (metis scan_rows_length add.left_neutral list.size(3))
qed

interpretation postgres_port: business_repo port_search port_exact "\<lambda>st. honors_limit (fst st)"
proof
  fix st :: "('s, 'row, 'e) pg \<times> 's" and q opts r st'
  assume "honors_limit (fst st)" "port_search st q opts = (r, st')"
  then show "honors_limit (fst st')" by (auto simp: port_search_def split: prod.splits)
next
  fix st :: "('s, 'row, 'e) pg \<times> 's" and q x st'
  assume "honors_limit (fst st)" "port_exact st q = (x, st')"
  then show "honors_limit (fst st')" by (auto simp: port_exact_def split: prod.splits)
next
  fix st :: "('s, 'row, 'e) pg \<times> 's" and q opts cs st'
  assume "honors_limit (fst st)" "port_search st q opts = (Inr cs, st')" "0 \<le> soLimit opts"
  then show "int (length cs) \<le> soLimit opts"
    using Search_repo_limit by (auto simp: port_search_def split: prod.splits)
qed

section \<open>Vector literals\<close>

lemma vector_loop_join: "0 < i \<Longrightarrow> vector_loop fmt i vs buf = buf @ concat (map (\<lambda>v. '','' @ fmt v) vs)"
  by (induction fmt i vs buf rule: vector_loop.induct) auto

lemma join_comma: "join '','' (map fmt (v # vs)) = fmt v @ concat (map (\<lambda>v. '','' @ fmt v) vs)"
  by (induction vs arbitrary: v) auto

lemma vectorParam_eq: "vectorParam fmt vec = (case vec of None \<Rightarrow> SqlNull | Some [] \<Rightarrow> SqlNull
    | Some v \<Rightarrow> SqlText (''['' @ join '','' (map fmt v) @ '']''))"
  by (auto simp: vectorParam_def vector_loop_join join_comma[unfolded list.map] split: option.split list.split)

text \<open>A search sends the database no vector literal exactly when there is no query vector;
  otherwise the literal is the bracketed, comma-separated print of its entries, and every
  overlay list arrives as an array, never as NULL.\<close>

theorem search_parameters:
  "(vectorParam fmt vec = SqlNull \<longleftrightarrow> vec = None \<or> vec = Some []) \<and>
   vectorParam fmt (Some (v # vs)) = SqlText (''['' @ join '','' (map fmt (v # vs)) @ '']'') \<and>
   nilToEmpty xs = SqlArray xs"
  by (auto simp: vectorParam_eq nilToEmpty_def split: option.split list.split)

end
