(* ===== verification/Http_Api.thy ===== *)
theory Http_Api
  imports Search_Theorems Embedders Postgres_Repo
begin

text \<open>
  Package \<open>api\<close> (\<open>search.go\<close>, \<open>handlers.go\<close>, \<open>server.go\<close>): request parsing, the handlers and
  the middleware around the router. A request is its method, path and query values (\<open>Get\<close>
  of an absent key is the empty string); a response is status, headers and the body, absent
  when the JSON encoder refuses a value (it writes nothing then, after the status has been
  sent). \<open>strconv.ParseFloat\<close>, \<open>time.Parse\<close>, the clocks and the readiness ping are
  parameters. Path cleaning by \<open>ServeMux\<close> and request logging are left out.
\<close>

section \<open>Payloads\<close>

record search_result =
  rsID :: string
  rsName :: string
  rsCategory :: string
  rsSubcategory :: "string option"
  rsArchetype :: string
  rsNeighborhood :: "string option"
  rsDistanceKM :: f64
  rsRating :: "f64 option"
  rsReviewCount :: int
  rsPriceRange :: "string option"
  rsPhotoURL :: "string option"
  rsIsClaimed :: bool
  rsFriendCount :: int
  rsIsNew :: bool
  rsIsOpenNow :: "bool option"
  rsScore :: f64

record search_timings =
  stIntentMS :: int
  stEmbedMS :: int
  stSQLMS :: int
  stRerankMS :: int
  stTotalMS :: int

record search_response =
  spQuery :: string
  spResults :: "search_result list"
  spTimings :: search_timings

datatype param_error = InvalidFloat string string | OutOfRange string f64 | InvalidNow string

datatype body =
    NotConfigured
  | BadParam param_error
  | SearchFailed
  | SearchBody search_response
  | StatusBody string
  | VersionBody string string string string
  | NotFound
  | MethodNotAllowed

text \<open>JSON has no encoding for NaN and the infinities.\<close>

definition encodable_result :: "search_result \<Rightarrow> bool" where
  "encodable_result r \<longleftrightarrow> finite_f (rsDistanceKM r) \<and> finite_f (rsScore r) \<and>
     (case rsRating r of None \<Rightarrow> True | Some x \<Rightarrow> finite_f x)"

fun encodable :: "body \<Rightarrow> bool" where
  "encodable (SearchBody r) = list_all encodable_result (spResults r)"
| "encodable _ = True"

record response =
  rpStatus :: int
  rpHeaders :: "(string \<times> string) list"
  rpBody :: "body option"

definition writeJSON :: "int \<Rightarrow> body \<Rightarrow> response" where
  "writeJSON status b = \<lparr>rpStatus = status, rpHeaders = [(''Content-Type'', ''application/json'')],
     rpBody = (if encodable b then Some b else None)\<rparr>"

section \<open>Parameters\<close>

type_synonym query_values = "string \<Rightarrow> string"

record api_env =
  aeUnicode :: unicode
  aeUuid :: "uuid \<Rightarrow> string"
  aeParseFloat :: "string \<Rightarrow> f64 option"
  aeParseTime :: "string \<Rightarrow> instant option"
  aeClock :: "nat \<Rightarrow> int"
  aeWall :: "nat \<Rightarrow> instant"

definition defaultLat :: f64 where "defaultLat = f_const (257617 / 10000)"
definition defaultLng :: f64 where "defaultLng = f_const (- 801918 / 10000)"

definition floatParam :: "api_env \<Rightarrow> query_values \<Rightarrow> string \<Rightarrow> f64 \<Rightarrow> param_error + f64" where
  "floatParam env q key def =
     (let raw = trim_space (q key) in
      if raw = [] then Inr def
      else (case aeParseFloat env raw of None \<Rightarrow> Inl (InvalidFloat key raw) | Some v \<Rightarrow> Inr v))"

definition parseLatLng :: "api_env \<Rightarrow> query_values \<Rightarrow> param_error + f64 \<times> f64" where
  "parseLatLng env q =
     res_bind (floatParam env q ''lat'' defaultLat) (\<lambda>lat.
     res_bind (floatParam env q ''lng'' defaultLng) (\<lambda>lng.
       if f_lt lat (Fin (- 90)) \<or> f_lt (Fin 90) lat then Inl (OutOfRange ''lat'' lat)
       else if f_lt lng (Fin (- 180)) \<or> f_lt (Fin 180) lng then Inl (OutOfRange ''lng'' lng)
       else Inr (lat, lng)))"

definition parseNow :: "api_env \<Rightarrow> query_values \<Rightarrow> ('r, 'm) world \<Rightarrow> (param_error + instant) \<times> ('r, 'm) world" where
  "parseNow env q w =
     (let raw = trim_space (q ''now'') in
      if raw = [] then (Inr (aeWall env (wTick w)), w\<lparr>wTick := wTick w + 1\<rparr>)
      else (case aeParseTime env raw of None \<Rightarrow> (Inl (InvalidNow raw), w) | Some t \<Rightarrow> (Inr t, w)))"

section \<open>Handlers\<close>

definition toResult :: "api_env \<Rightarrow> scored \<Rightarrow> search_result" where
  "toResult env r =
     (let c = srCandidate r; score = (if is_pinf (srScore r) then Fin 1 else srScore r) in
      \<lparr>rsID = aeUuid env (cID c), rsName = cName c, rsCategory = cCategory c, rsSubcategory = cSubcategory c,
       rsArchetype = cArchetype c, rsNeighborhood = cNeighborhood c, rsDistanceKM = cDistanceKM c,
       rsRating = cGoogleRating c, rsReviewCount = cGoogleReviewCount c, rsPriceRange = cPriceRange c,
       rsPhotoURL = cPhotoURL c, rsIsClaimed = cIsClaimed c, rsFriendCount = cFriendCount c,
       rsIsNew = cIsNew c, rsIsOpenNow = cIsOpenNow c, rsScore = score\<rparr>)"

record build_info =
  biVersion :: string
  biCommit :: string
  biDate :: string

text \<open>The server: an optional search service, the readiness ping over the repository's state, and
  the values stamped at link time.\<close>

record ('r, 'm, 'e) server =
  seSvc :: "('r, 'm, 'e) service option"
  sePing :: "'r \<Rightarrow> bool"
  seBuild :: build_info
  seGoVersion :: string

definition New_server :: "('r \<Rightarrow> bool) \<Rightarrow> ('r, 'm, 'e) service option \<Rightarrow> build_info \<Rightarrow> string \<Rightarrow> ('r, 'm, 'e) server" where
  "New_server ping svc build go = \<lparr>seSvc = svc, sePing = ping, seBuild = build, seGoVersion = go\<rparr>"

definition zero_timings :: search_timings where
  "zero_timings = \<lparr>stIntentMS = 0, stEmbedMS = 0, stSQLMS = 0, stRerankMS = 0, stTotalMS = 0\<rparr>"

definition handleSearch :: "api_env \<Rightarrow> 'x option \<Rightarrow> ('r, 'm, 'e) server \<Rightarrow> query_values \<Rightarrow> ('r, 'm) world \<Rightarrow>
    response \<times> ('r, 'm) world" where
  "handleSearch env ctx_err se params w =
     (let (start, w) = time_now (aeClock env) w in
      case seSvc se of
        None \<Rightarrow> (writeJSON 503 NotConfigured, w)
      | Some svc \<Rightarrow>
          (let q = trim_space (params ''q'') in
           case parseLatLng env params of
             Inl e \<Rightarrow> (writeJSON 400 (BadParam e), w)
           | Inr (lat, lng) \<Rightarrow>
               (let (nw, w) = parseNow env params w in
                case nw of
                  Inl e \<Rightarrow> (writeJSON 400 (BadParam e), w)
                | Inr now \<Rightarrow>
                    if q = [] then
                      (let (total, w) = sinceMS (aeClock env) start w in
                       (writeJSON 200 (SearchBody \<lparr>spQuery = q, spResults = [],
                          spTimings = zero_timings\<lparr>stTotalMS := total\<rparr>\<rparr>), w))
                    else
                      (let (res, w) = Search (aeUnicode env) (aeUuid env) (aeClock env) ctx_err svc q
                             \<lparr>soLat = lat, soLng = lng, soLimit = 0, soNow = now, soOverlay = zero_overlay,
                              soQueryVec = None\<rparr> w in
                       case res of
                         Inl e \<Rightarrow> (writeJSON 500 SearchFailed, w)
                       | Inr (ranked, t) \<Rightarrow>
                           (let (total, w) = sinceMS (aeClock env) start w in
                            (writeJSON 200 (SearchBody \<lparr>spQuery = q, spResults = map (toResult env) ranked,
                               spTimings = \<lparr>stIntentMS = tIntentMS t, stEmbedMS = tEmbedMS t, stSQLMS = tSQLMS t,
                                 stRerankMS = tRerankMS t, stTotalMS = total\<rparr>\<rparr>), w))))))"

definition handleHealthz :: "response" where
  "handleHealthz = writeJSON 200 (StatusBody ''ok'')"

definition handleReadyz :: "('r, 'm, 'e) server \<Rightarrow> ('r, 'm) world \<Rightarrow> response" where
  "handleReadyz se w =
     (if sePing se (wRepo w) then writeJSON 200 (StatusBody ''ok'')
      else writeJSON 503 (StatusBody ''db_unavailable''))"

definition handleVersion :: "('r, 'm, 'e) server \<Rightarrow> response" where
  "handleVersion se = writeJSON 200
     (VersionBody (biVersion (seBuild se)) (biCommit (seBuild se)) (biDate (seBuild se)) (seGoVersion se))"

section \<open>Routing and middleware\<close>

record request =
  rqMethod :: string
  rqPath :: string
  rqQuery :: query_values

text \<open>A \<open>GET\<close> pattern of \<open>ServeMux\<close> also matches \<open>HEAD\<close>; a known path with another method is 405.\<close>

definition route :: "api_env \<Rightarrow> 'x option \<Rightarrow> ('r, 'm, 'e) server \<Rightarrow> request \<Rightarrow> ('r, 'm) world \<Rightarrow>
    response \<times> ('r, 'm) world" where
  "route env ctx_err se rq w =
     (if rqPath rq \<notin> {''/search'', ''/healthz'', ''/readyz'', ''/version''} then
        (\<lparr>rpStatus = 404, rpHeaders = [], rpBody = Some NotFound\<rparr>, w)
      else if rqMethod rq \<notin> {''GET'', ''HEAD''} then
        (\<lparr>rpStatus = 405, rpHeaders = [(''Allow'', ''GET, HEAD'')], rpBody = Some MethodNotAllowed\<rparr>, w)
      else if rqPath rq = ''/search'' then handleSearch env ctx_err se (rqQuery rq) w
      else if rqPath rq = ''/healthz'' then (handleHealthz, w)
      else if rqPath rq = ''/readyz'' then (handleReadyz se w, w)
      else (handleVersion se, w))"

definition withCORS :: "string \<Rightarrow> (request \<Rightarrow> ('r, 'm) world \<Rightarrow> response \<times> ('r, 'm) world) \<Rightarrow>
    request \<Rightarrow> ('r, 'm) world \<Rightarrow> response \<times> ('r, 'm) world" where
  "withCORS env_origin next_handler rq w =
     (let origin = (if env_origin = [] then ''*'' else env_origin);
          hs = [(''Access-Control-Allow-Origin'', origin), (''Vary'', ''Origin'')]
      in if rqMethod rq = ''OPTIONS'' then
           (\<lparr>rpStatus = 204, rpHeaders = hs @ [(''Access-Control-Allow-Methods'', ''GET, OPTIONS''),
               (''Access-Control-Allow-Headers'', ''Content-Type'')], rpBody = None\<rparr>, w)
         else
           (let (rp, w) = next_handler rq w in (rp\<lparr>rpHeaders := hs @ rpHeaders rp\<rparr>, w)))"

text \<open>The recorder of \<open>logRequests\<close> starts at 200 and takes the last status written.\<close>

definition recorded_status :: "int list \<Rightarrow> int" where
  "recorded_status written = fold (\<lambda>code st. code) written 200"

definition logRequests :: "(request \<Rightarrow> ('r, 'm) world \<Rightarrow> response \<times> ('r, 'm) world) \<Rightarrow>
    request \<Rightarrow> ('r, 'm) world \<Rightarrow> (response \<times> ('r, 'm) world) \<times> (string \<times> string \<times> int)" where
  "logRequests next_handler rq w =
     (let (rp, w) = next_handler rq w
      in ((rp, w), (rqMethod rq, rqPath rq, recorded_status [rpStatus rp])))"

definition Handler :: "string \<Rightarrow> api_env \<Rightarrow> 'x option \<Rightarrow> ('r, 'm, 'e) server \<Rightarrow> request \<Rightarrow> ('r, 'm) world \<Rightarrow>
    response \<times> ('r, 'm) world" where
  "Handler env_origin env ctx_err se =
     withCORS env_origin (\<lambda>rq w. fst (logRequests (route env ctx_err se) rq w))"

section \<open>Facts\<close>

lemma writeJSON_sel [simp]:
  "rpStatus (writeJSON st b) = st" "rpBody (writeJSON st b) = (if encodable b then Some b else None)"
  by (simp_all add: writeJSON_def)

definition bad_params :: "api_env \<Rightarrow> query_values \<Rightarrow> bool" where
  "bad_params env params \<longleftrightarrow> isl (parseLatLng env params) \<or>
     (trim_space (params ''now'') \<noteq> [] \<and> aeParseTime env (trim_space (params ''now'')) = None)"

definition request_opts :: "api_env \<Rightarrow> query_values \<Rightarrow> nat \<Rightarrow> search_opts" where
  "request_opts env params k =
     \<lparr>soLat = fst (projr (parseLatLng env params)), soLng = snd (projr (parseLatLng env params)), soLimit = 0,
      soNow = (if trim_space (params ''now'') = [] then aeWall env k else the (aeParseTime env (trim_space (params ''now'')))),
      soOverlay = zero_overlay, soQueryVec = None\<rparr>"

definition after_params :: "query_values \<Rightarrow> ('r, 'm) world \<Rightarrow> ('r, 'm) world" where
  "after_params params w = w\<lparr>wTick := wTick w + (if trim_space (params ''now'') = [] then 2 else 1)\<rparr>"


text \<open>A request without coordinates is placed at the default ones, which are in range.\<close>

lemma default_coordinates:
  assumes "trim_space (params ''lat'') = []" "trim_space (params ''lng'') = []"
  shows "parseLatLng env params = Inr (defaultLat, defaultLng)"
proof -
  have "f_le (fround (of_int (- 90))) defaultLat" "f_le defaultLat (fround (of_int 90))"
    "f_le (fround (of_int (- 180))) defaultLng" "f_le defaultLng (fround (of_int 180))"
    unfolding defaultLat_def defaultLng_def f_const_def by (rule fround_mono; simp)+
  then have "\<not> f_lt defaultLat (Fin (- 90))" "\<not> f_lt (Fin 90) defaultLat"
    "\<not> f_lt defaultLng (Fin (- 180))" "\<not> f_lt (Fin 180) defaultLng"
    using fround_of_int[of 90] fround_of_int[of "- 90"] fround_of_int[of 180] fround_of_int[of "- 180"]
    by (auto simp: f_le_def f_eq_iff dest: f_lt_asym)
  with assms show ?thesis by (simp add: parseLatLng_def floatParam_def)
qed

text \<open>What a search request is answered with once the service has succeeded.\<close>

lemma handleSearch_ok:
  assumes "seSvc se = Some sv" "\<not> bad_params env params" "trim_space (params ''q'') = q" "q \<noteq> []"
    and "drop_timings (fst (Search (aeUnicode env) (aeUuid env) (aeClock env) ctx_err sv q
           (request_opts env params (wTick w + 1)) (after_params params w))) = Inr ranked"
  shows "\<exists>t. fst (handleSearch env ctx_err se params w) =
    writeJSON 200 (SearchBody \<lparr>spQuery = q, spResults = map (toResult env) ranked, spTimings = t\<rparr>)"
  using assms unfolding handleSearch_def bad_params_def request_opts_def after_params_def parseNow_def time_now_def sinceMS_def
    drop_timings_def Let_def
  by (cases w; cases "trim_space (params ''now'') = []") (auto split: option.splits sum.splits prod.splits)

text \<open>And once it has failed.\<close>

lemma handleSearch_failed:
  assumes "seSvc se = Some sv" "\<not> bad_params env params" "trim_space (params ''q'') = q" "q \<noteq> []"
    and "drop_timings (fst (Search (aeUnicode env) (aeUuid env) (aeClock env) ctx_err sv q
           (request_opts env params (wTick w + 1)) (after_params params w))) = Inl e"
  shows "fst (handleSearch env ctx_err se params w) = writeJSON 500 SearchFailed"
  using assms unfolding handleSearch_def bad_params_def request_opts_def after_params_def parseNow_def time_now_def sinceMS_def
    drop_timings_def Let_def
  by (cases w; cases "trim_space (params ''now'') = []") (auto split: option.splits sum.splits prod.splits)

lemma after_params_sel [simp]: "wRepo (after_params params w) = wRepo w" "wEmb (after_params params w) = wEmb w"
  by (simp_all add: after_params_def)

text \<open>Coordinates that are accepted are in range or NaN, on each axis.\<close>

theorem parseLatLng_range:
  assumes "parseLatLng env q = Inr (lat, lng)"
  shows "(lat = NaN \<or> f_le (Fin (- 90)) lat \<and> f_le lat (Fin 90)) \<and>
    (lng = NaN \<or> f_le (Fin (- 180)) lng \<and> f_le lng (Fin 180))"
  using assms not_f_lt_iff[of lat] not_f_lt_iff[of _ lat] not_f_lt_iff[of lng] not_f_lt_iff[of _ lng]
  by (auto simp: parseLatLng_def res_bind_eq_Inr split: if_splits)

text \<open>An environment for the witnesses; its number parser knows two inputs.\<close>

definition demo_env :: api_env where
  "demo_env = \<lparr>aeUnicode = basic_unicode, aeUuid = unary_id,
     aeParseFloat = (\<lambda>s. if s = ''25.5'' then Some (Fin (51/2)) else if s = ''nan'' then Some NaN else None),
     aeParseTime = (\<lambda>_. None), aeClock = int, aeWall = int\<rparr>"

definition query_of :: "(string \<times> string) list \<Rightarrow> query_values" where
  "query_of kvs k = (case map_of kvs k of None \<Rightarrow> [] | Some v \<Rightarrow> v)"

theorem parseLatLng_range_witness:
  "\<exists>lat lng. parseLatLng demo_env (query_of [(''lat'', ''25.5''), (''lng'', ''25.5'')]) = Inr (lat, lng) \<and>
    f_le lat (Fin 90)"
proof -
  have "trim_space ''25.5'' = ''25.5''" by code_simp
  then have "parseLatLng demo_env (query_of [(''lat'', ''25.5''), (''lng'', ''25.5'')]) = Inr (Fin (51/2), Fin (51/2))"
    by (simp add: parseLatLng_def floatParam_def demo_env_def query_of_def)
  from parseLatLng_range[OF this] this show ?thesis by auto
qed

text \<open>The parser rejects no NaN: \<open>strconv.ParseFloat\<close> reads "nan" and both range comparisons of
  NaN are false, so a search runs at an undefined place.\<close>

theorem parseLatLng_accepts_NaN:
  "parseLatLng demo_env (query_of [(''lat'', ''nan''), (''lng'', ''nan'')]) = Inr (NaN, NaN)"
proof -
  have "trim_space ''nan'' = ''nan''" by code_simp
  then show ?thesis by (simp add: parseLatLng_def floatParam_def demo_env_def query_of_def)
qed

lemma toResult_sel [simp]:
  "rsDistanceKM (toResult env r) = cDistanceKM (srCandidate r)" "rsRating (toResult env r) = cGoogleRating (srCandidate r)"
  "rsScore (toResult env r) = (if srScore r = PInf then Fin 1 else srScore r)"
  by (simp_all add: toResult_def is_pinf_def Let_def)

text \<open>A result encodes exactly when its distance and rating are finite and its score is finite
  or the pin's +Inf, which leaves as 1.0.\<close>

theorem toResult_encodable:
  "encodable_result (toResult env r) \<longleftrightarrow>
     finite_f (cDistanceKM (srCandidate r)) \<and> (finite_f (srScore r) \<or> srScore r = PInf) \<and>
     (case cGoogleRating (srCandidate r) of None \<Rightarrow> True | Some x \<Rightarrow> finite_f x)"
  by (auto simp: encodable_result_def)

definition no_friends_svc :: "(unit, unit, string) service" where
  "no_friends_svc = New_service (\<lambda>s q opts. (Inr [cafe 2 ''Bakery''\<lparr>cFriendCount := 0\<rparr>], s))
     (\<lambda>s q. (Inr None, s)) no_friends_yaml False None"

lemma no_friends_search:
  "drop_timings (fst (Search U ustr now ctx_err' no_friends_svc q opts w)) =
     (case ctx_err' of Some e \<Rightarrow> Inl (Ranking e)
      | None \<Rightarrow> Inr [\<lparr>srCandidate = cafe 2 ''Bakery''\<lparr>cFriendCount := 0\<rparr>, srScore = NaN\<rparr>])"
proof -
  let ?c = "cafe 2 ''Bakery''\<lparr>cFriendCount := 0\<rparr>"
  have "pin_stage [?c] None no_friends_yaml = [\<lparr>srCandidate = ?c, srScore = NaN\<rparr>]"
    by (simp add: pin_stage_def applyPin_def hardFilter_filter scoreAll_def no_friends_NaN sortByScore_def
        slice_stable_short insertion_sort_def) (simp add: cafe_def dropped_def)
  then show ?thesis
    unfolding Search_spec_aux search_spec_def
    by (simp add: no_friends_svc_def New_service_def Run_eq tieBreak_def slice_stable_short insertion_sort_def
        dePin_def dePin_loop.simps movable_def truncate_results_def Run_def[of _ "Some _"] split: option.split)
qed

text \<open>Under an accepted configuration that omits the \<open>friends\<close> block, a search whose only
  result has no friends answers 200 with no body at all: its score is NaN, which \<open>toResult\<close>
  passes on and the encoder refuses after the status has been written.\<close>

theorem NaN_score_empty_body:
  "valid_ranking no_friends_yaml \<and>
   (let rp = fst (handleSearch demo_env no_err (New_server (\<lambda>_. True) (Some no_friends_svc)
       \<lparr>biVersion = [], biCommit = [], biDate = []\<rparr> ''go1.24'') (query_of [(''q'', ''bakery'')]) fresh_world)
    in rpStatus rp = 200 \<and> rpBody rp = None)"
proof
  show "valid_ranking no_friends_yaml"
    using valid_ranking_yaml by (simp add: valid_ranking_def no_friends_yaml_def ranking_yaml_def)
  have trim: "trim_space [] = []" "trim_space ''bakery'' = ''bakery''" by code_simp+
  have pll: "parseLatLng demo_env (query_of [(''q'', ''bakery'')]) = Inr (defaultLat, defaultLng)"
    by (rule default_coordinates) (simp_all add: query_of_def trim)
  have s: "\<exists>t. r = Inr ([\<lparr>srCandidate = cafe 2 ''Bakery''\<lparr>cFriendCount := 0\<rparr>, srScore = NaN\<rparr>], t)"
    if "Search U ustr now no_err no_friends_svc q opts w = (r, w')" for U ustr now q opts w r w'
    using no_friends_search[of U ustr now no_err q opts w] that
    by (auto simp: drop_timings_def no_err_def split: sum.splits)
  show "let rp = fst (handleSearch demo_env no_err (New_server (\<lambda>_. True) (Some no_friends_svc)
       \<lparr>biVersion = [], biCommit = [], biDate = []\<rparr> ''go1.24'') (query_of [(''q'', ''bakery'')]) fresh_world)
    in rpStatus rp = 200 \<and> rpBody rp = None"
    unfolding handleSearch_def Let_def time_now_def case_prod_conv pll New_server_def
    by (simp add: parseNow_def query_of_def trim sinceMS_def)
      (auto simp: encodable_result_def dest!: s split: prod.split sum.split)
qed

end
