(* ===== verification/Api_Boot.thy ===== *)
theory Api_Boot
  imports Http_Api
begin

text \<open>
  The composition root \<open>cmd/api/main.go\<close> with \<open>flags\<close> and \<open>observ\<close>: what the server is, for a
  process environment and the outcomes of opening the pool, loading the ranking and building the
  embedder. A failed part never stops the boot; the part is left out. \<open>pgxpool\<close>, the file
  system, YAML, the HTTP client and the ONNX runtime are parameters. The embedders' states are kept as
  a pair, of the HTTP client and of the pipeline pool.
\<close>

section \<open>The process environment\<close>

type_synonym getenv = "string \<Rightarrow> string"

record flags =
  flIntent :: bool
  flSemantic :: bool

definition truthy :: "unicode \<Rightarrow> string \<Rightarrow> bool" where
  "truthy U v = (let s = to_lower U (trim_space v) in s = ''1'' \<or> s = ''true'')"

definition FromEnv :: "unicode \<Rightarrow> getenv \<Rightarrow> flags" where
  "FromEnv U env = \<lparr>flIntent = truthy U (env ''LEMON_FF_INTENT''), flSemantic = truthy U (env ''LEMON_FF_SEMANTIC'')\<rparr>"

datatype log_level = LevelDebug | LevelInfo | LevelWarn | LevelError

definition parseLevel :: "unicode \<Rightarrow> string \<Rightarrow> log_level" where
  "parseLevel U level =
     (let s = to_lower U (trim_space level) in
      if s = ''debug'' then LevelDebug
      else if s = ''warn'' \<or> s = ''warning'' then LevelWarn
      else if s = ''error'' then LevelError
      else LevelInfo)"

text \<open>\<open>observ.New\<close>: a JSON handler on standard output with a least level; \<open>slog\<close> writes a line when its
  level reaches it.\<close>

fun level_value :: "log_level \<Rightarrow> int" where
  "level_value LevelDebug = - 4"
| "level_value LevelInfo = 0"
| "level_value LevelWarn = 4"
| "level_value LevelError = 8"

record logger =
  lgMin :: log_level
  lgJSON :: bool
  lgStdout :: bool

definition New_logger :: "unicode \<Rightarrow> string \<Rightarrow> logger" where
  "New_logger U level = \<lparr>lgMin = parseLevel U level, lgJSON = True, lgStdout = True\<rparr>"

definition logs :: "logger \<Rightarrow> log_level \<Rightarrow> bool" where
  "logs lg level \<longleftrightarrow> level_value (lgMin lg) \<le> level_value level"

text \<open>The line of a fatal error is written whatever \<open>LEMON_LOG_LEVEL\<close> says.\<close>

lemma fatal_logged: "logs (New_logger U level) LevelError"
  by (simp add: logs_def New_logger_def parseLevel_def Let_def)

section \<open>Constants\<close>

definition defaultPort :: string where [simp]: "defaultPort = ''8080''"
definition defaultRankingPath :: string where [simp]: "defaultRankingPath = ''config/ranking.yaml''"
definition statementTO :: string where [simp]: "statementTO = ''1000''"
definition defaultOllamaURL :: string where [simp]: "defaultOllamaURL = ''http://localhost:11434''"
definition defaultOllamaModel :: string where [simp]: "defaultOllamaModel = ''all-minilm''"
definition defaultEmbedBackend :: string where [simp]: "defaultEmbedBackend = ''ollama''"
definition defaultONNXModel :: string where [simp]: "defaultONNXModel = ''models/all-MiniLM-L6-v2''"

text \<open>The variables that the linker stamps, as the source has them.\<close>

definition unstamped_build :: build_info where [simp]:
  "unstamped_build = \<lparr>biVersion = ''dev'', biCommit = ''none'', biDate = ''unknown''\<rparr>"

text \<open>\<open>notReady\<close>: the pinger without a database.\<close>

definition notReady :: "'a \<Rightarrow> bool" where [simp]:
  "notReady = (\<lambda>_. False)"

section \<open>Settings\<close>

definition envOr :: "getenv \<Rightarrow> string \<Rightarrow> string \<Rightarrow> string" where
  "envOr env key def = (if env key \<noteq> [] then env key else def)"

text \<open>\<open>strconv.Atoi\<close> on a 64-bit machine: an optional sign, decimal digits, no overflow.\<close>

fun decimal :: "nat \<Rightarrow> string \<Rightarrow> nat option" where
  "decimal n [] = Some n"
| "decimal n (c # cs) = (if c \<in> set ''0123456789'' then decimal (10 * n + (of_char c - 48)) cs else None)"

definition Atoi :: "string \<Rightarrow> int option" where
  "Atoi s =
     (let (neg, ds) = (case s of [] \<Rightarrow> (False, [])
            | c # cs \<Rightarrow> if c = CHR ''-'' then (True, cs) else if c = CHR ''+'' then (False, cs) else (False, s))
      in if ds = [] then None
         else (case decimal 0 ds of
           None \<Rightarrow> None
         | Some n \<Rightarrow> (let v = (if neg then - int n else int n) in
             if - (2 ^ 63) \<le> v \<and> v < 2 ^ 63 then Some v else None)))"

text \<open>\<open>int32(v)\<close> keeps the low 32 bits; the value is read as signed.\<close>

definition maxConnsOverride :: "getenv \<Rightarrow> 32 word" where
  "maxConnsOverride env =
     (case Atoi (env ''LEMON_DB_MAX_CONNS'') of
        Some v \<Rightarrow> if 0 < v then word_of_int v else 0
      | None \<Rightarrow> 0)"

definition embedPoolSize :: "getenv \<Rightarrow> int" where
  "embedPoolSize env =
     (case Atoi (env ''LEMON_EMBED_POOL_SIZE'') of
        Some v \<Rightarrow> if 0 < v then v else 0
      | None \<Rightarrow> 0)"

text \<open>\<open>net.JoinHostPort\<close>: a host with a colon is an IPv6 literal.\<close>

definition addr :: "getenv \<Rightarrow> string" where
  "addr env =
     (let port = (if env ''LEMON_API_PORT'' = [] then defaultPort else env ''LEMON_API_PORT'');
          host = env ''LEMON_API_HOST''
      in if CHR '':'' \<in> set host then ''['' @ host @ '']:'' @ port else host @ '':'' @ port)"

section \<open>Parts\<close>

record pool_config =
  pcURL :: string
  pcStatementTimeout :: string
  pcMaxConns :: "32 word option"

datatype 'e port_error = RepoError "'e repo_error" | OllamaError "'e ollama_error" | OnnxError "'e onnx_error"

record ('s, 'row, 'h, 'b, 'o, 'f, 'e) host =
  hoEnv :: getenv
  hoUnicode :: unicode
  hoParsePool :: "string \<Rightarrow> 'e option"
  hoNewPool :: "pool_config \<Rightarrow> 'e + ('s, 'row, 'e) pg \<times> 's"
  hoPing :: "('s, 'row, 'e) pg \<times> 's \<Rightarrow> bool"
  hoOpen :: "string \<Rightarrow> 'e + 'f"
  hoDecode :: "'f \<Rightarrow> 'e + ranking"
  hoClient :: "('h, 'b, 'e) http_client"
  hoOrt :: "('o, 'e) ort"
  hoCancelled :: "'e option"
  hoEmb :: "'h \<times> nat \<times> 'o"
  hoGoVersion :: string

definition openPool :: "('s, 'row, 'h, 'b, 'o, 'f, 'e) host \<Rightarrow> string \<Rightarrow> (('s, 'row, 'e) pg \<times> 's) option" where
  "openPool ho url =
     (if url = [] then None
      else (case hoParsePool ho url of
        Some e \<Rightarrow> None
      | None \<Rightarrow>
          (let cfg = \<lparr>pcURL = url, pcStatementTimeout = statementTO, pcMaxConns = None\<rparr>;
               n = maxConnsOverride (hoEnv ho);
               cfg = (if 0 < sint n then cfg\<lparr>pcMaxConns := Some n\<rparr> else cfg)
           in case hoNewPool ho cfg of Inl e \<Rightarrow> None | Inr pool \<Rightarrow> Some pool)))"

definition loadRanking :: "('s, 'row, 'h, 'b, 'o, 'f, 'e) host \<Rightarrow> string \<Rightarrow> ranking option" where
  "loadRanking ho path =
     (let path = (if path = [] then defaultRankingPath else path) in
      case LoadFile (hoOpen ho) (hoDecode ho) path of Inl e \<Rightarrow> None | Inr cfg \<Rightarrow> Some cfg)"

type_synonym ('h, 'o, 'e) query_embedder = "'h \<times> nat \<times> 'o \<Rightarrow> string \<Rightarrow> ('e port_error + f32 list) \<times> 'h \<times> nat \<times> 'o"

definition ollama_query :: "('s, 'row, 'h, 'b, 'o, 'f, 'e) host \<Rightarrow> ollama \<Rightarrow> ('h, 'o, 'e) query_embedder" where
  "ollama_query ho emb m text =
     (let (r, s) = Embed_ollama emb (hoClient ho) (fst m) text in (map_err OllamaError r, s, snd m))"

definition onnx_query :: "('s, 'row, 'h, 'b, 'o, 'f, 'e) host \<Rightarrow> ('h, 'o, 'e) query_embedder" where
  "onnx_query ho m text =
     (let (r, st) = Embed_onnx (hoOrt ho) (hoCancelled ho) (snd m) text in (map_err OnnxError r, fst m, st))"

datatype resource = DatabasePool | OnnxSession

text \<open>The embedder, the state it starts in, and what is to be closed on shutdown.\<close>

definition buildEmbedder :: "('s, 'row, 'h, 'b, 'o, 'f, 'e) host \<Rightarrow> bool \<Rightarrow>
    ('h, 'o, 'e) query_embedder option \<times> ('h \<times> nat \<times> 'o) \<times> resource list" where
  "buildEmbedder ho enabled =
     (if \<not> enabled then (None, hoEmb ho, [])
      else if envOr (hoEnv ho) ''LEMON_EMBED_BACKEND'' defaultEmbedBackend = ''onnx'' then
        (case New_onnx (hoOrt ho) (envOr (hoEnv ho) ''LEMON_ONNX_MODEL_PATH'' defaultONNXModel)
                (hoEnv ho ''LEMON_ONNX_RUNTIME_DIR'') (embedPoolSize (hoEnv ho)) of
           Inl e \<Rightarrow> (None, hoEmb ho, [])
         | Inr st \<Rightarrow> (Some (onnx_query ho), (fst (hoEmb ho), st), [OnnxSession]))
      else
        (case (New_ollama (envOr (hoEnv ho) ''LEMON_OLLAMA_URL'' defaultOllamaURL)
                (envOr (hoEnv ho) ''LEMON_OLLAMA_MODEL'' defaultOllamaModel) :: 'e ollama_error + ollama) of
           Inl e \<Rightarrow> (None, hoEmb ho, [])
         | Inr emb \<Rightarrow> (Some (ollama_query ho emb), hoEmb ho, [])))"

section \<open>Boot\<close>

type_synonym ('s, 'row, 'h, 'o, 'e) api_server =
  "(('s, 'row, 'e) pg \<times> 's, 'h \<times> nat \<times> 'o, 'e port_error) server"

record ('s, 'row, 'h, 'o, 'e) booted =
  btServer :: "('s, 'row, 'h, 'o, 'e) api_server"
  btPool :: "(('s, 'row, 'e) pg \<times> 's) option"
  btEmb :: "'h \<times> nat \<times> 'o"
  btAddr :: string
  btClose :: "resource list"

definition repo_search :: "('s, 'row, 'e) pg \<times> 's \<Rightarrow> string \<Rightarrow> search_opts \<Rightarrow>
    ('e port_error + candidate list) \<times> ('s, 'row, 'e) pg \<times> 's" where
  "repo_search st q opts = (let (r, st) = port_search st q opts in (map_err RepoError r, st))"

definition repo_exact :: "('s, 'row, 'e) pg \<times> 's \<Rightarrow> string \<Rightarrow>
    ('e port_error + candidate option) \<times> ('s, 'row, 'e) pg \<times> 's" where
  "repo_exact st q = (let (r, st) = port_exact st q in (map_err RepoError r, st))"

text \<open>\<open>run\<close> up to \<open>serve\<close>; \<open>btClose\<close> lists the deferred closes in the order they will run.\<close>

definition boot :: "('s, 'row, 'h, 'b, 'o, 'f, 'e) host \<Rightarrow> ('s, 'row, 'h, 'o, 'e) booted" where
  "boot ho =
     (let pool = openPool ho (hoEnv ho ''LEMON_DATABASE_URL'');
          ping = (case pool of None \<Rightarrow> notReady | Some p \<Rightarrow> hoPing ho);
          repo = (case New_repo (map_option fst pool) of Inl e \<Rightarrow> None | Inr p \<Rightarrow> pool);
          cfg = loadRanking ho (hoEnv ho ''LEMON_RANKING_CONFIG'');
          ff = FromEnv (hoUnicode ho) (hoEnv ho);
          (svc, emb, toClose) =
            (case (repo, cfg) of
               (Some r, Some c) \<Rightarrow>
                 (let (emb, st, toClose) = buildEmbedder ho (flSemantic ff)
                  in (Some (New_service repo_search repo_exact c (flIntent ff) emb), st, toClose))
             | _ \<Rightarrow> (None, hoEmb ho, []));
          build = unstamped_build
      in \<lparr>btServer = New_server ping svc build (hoGoVersion ho), btPool = pool, btEmb = emb, btAddr = addr (hoEnv ho),
          btClose = toClose @ (case pool of None \<Rightarrow> [] | Some p \<Rightarrow> [DatabasePool])\<rparr>)"

section \<open>Serving\<close>

text \<open>What the select of \<open>serve\<close> takes: the listener's error, or the signal and then the result
  of \<open>Shutdown\<close>.\<close>

datatype 'e serve_event = ListenReturned 'e | Signalled "'e option"

datatype 'e serve_error = HttpServer 'e | GracefulShutdown 'e

definition serve :: "('e \<Rightarrow> bool) \<Rightarrow> 'e serve_event \<Rightarrow> 'e serve_error option" where
  "serve is_closed ev =
     (case ev of
        ListenReturned e \<Rightarrow> if is_closed e then None else Some (HttpServer e)
      | Signalled None \<Rightarrow> None
      | Signalled (Some e) \<Rightarrow> Some (GracefulShutdown e))"

definition exit_code :: "'e serve_error option \<Rightarrow> int" where
  "exit_code r = (case r of None \<Rightarrow> 0 | Some e \<Rightarrow> 1)"
section \<open>Facts\<close>

lemma openPool_None_iff:
  "openPool ho url = None \<longleftrightarrow> url = [] \<or> hoParsePool ho url \<noteq> None \<or>
     isl (hoNewPool ho \<lparr>pcURL = url, pcStatementTimeout = ''1000'',
       pcMaxConns = (if 0 < sint (maxConnsOverride (hoEnv ho)) then Some (maxConnsOverride (hoEnv ho)) else None)\<rparr>)"
  by (auto simp: openPool_def Let_def split: option.splits sum.splits)

text \<open>The number of connections a configured pool is given: none, or the low 32 bits of the
  setting when they are positive.\<close>

lemma maxConns_small: "Atoi (env ''LEMON_DB_MAX_CONNS'') = Some v \<Longrightarrow> 0 < v \<Longrightarrow> v < 2 ^ 31 \<Longrightarrow>
    sint (maxConnsOverride env) = v"
  by (simp add: maxConnsOverride_def sint_sbintrunc' signed_take_bit_int_eq_self)

lemma maxConns_wraps: "Atoi (env ''LEMON_DB_MAX_CONNS'') = Some (2 ^ 32 + 1) \<Longrightarrow> maxConnsOverride env = 1"
  by (simp add: maxConnsOverride_def)

lemma query_embedder_dim:
  "fst (buildEmbedder ho on) = Some emb \<Longrightarrow> emb m q = (Inr v, m') \<Longrightarrow> length v = EmbeddingDim"
  by (auto simp: buildEmbedder_def ollama_query_def onnx_query_def
      dest: ollama_port.embed_dim onnx_port.embed_dim split: if_splits sum.splits prod.splits)

lemma server_sel [simp]:
  "seSvc (New_server p s b g) = s" "sePing (New_server p s b g) = p"
  "seBuild (New_server p s b g) = b" "seGoVersion (New_server p s b g) = g"
  by (simp_all add: New_server_def)

lemma boot_svc:
  "seSvc (btServer (boot ho)) =
     (case (openPool ho (hoEnv ho ''LEMON_DATABASE_URL''), loadRanking ho (hoEnv ho ''LEMON_RANKING_CONFIG'')) of
        (Some p, Some c) \<Rightarrow> Some (New_service repo_search repo_exact c (flIntent (FromEnv (hoUnicode ho) (hoEnv ho)))
           (fst (buildEmbedder ho (flSemantic (FromEnv (hoUnicode ho) (hoEnv ho))))))
      | _ \<Rightarrow> None)"
  by (auto simp: boot_def New_repo_def Let_def split: option.splits prod.splits)

lemma boot_ping:
  "sePing (btServer (boot ho)) = (case btPool (boot ho) of None \<Rightarrow> (\<lambda>_. False) | Some p \<Rightarrow> hoPing ho)"
  "btPool (boot ho) = openPool ho (hoEnv ho ''LEMON_DATABASE_URL'')"
  by (auto simp: boot_def Let_def split: prod.splits option.split)

text \<open>A session of the ONNX runtime was opened for the embedder: the semantic flag is set, the backend is ONNX,
  and the runtime gave a session.\<close>

definition session_opened :: "('s, 'row, 'h, 'b, 'o, 'f, 'e) host \<Rightarrow> bool" where
  "session_opened ho \<longleftrightarrow> flSemantic (FromEnv (hoUnicode ho) (hoEnv ho)) \<and>
     envOr (hoEnv ho) ''LEMON_EMBED_BACKEND'' defaultEmbedBackend = ''onnx'' \<and>
     \<not> isl (New_onnx (hoOrt ho) (envOr (hoEnv ho) ''LEMON_ONNX_MODEL_PATH'' defaultONNXModel)
        (hoEnv ho ''LEMON_ONNX_RUNTIME_DIR'') (embedPoolSize (hoEnv ho)))"

lemma embedder_close:
  "snd (snd (buildEmbedder ho (flSemantic (FromEnv (hoUnicode ho) (hoEnv ho))))) = (if session_opened ho then [OnnxSession] else [])"
  by (auto simp: buildEmbedder_def session_opened_def split: sum.split)

lemma boot_close:
  "btClose (boot ho) =
     (if openPool ho (hoEnv ho ''LEMON_DATABASE_URL'') \<noteq> None \<and> loadRanking ho (hoEnv ho ''LEMON_RANKING_CONFIG'') \<noteq> None \<and> session_opened ho
      then [OnnxSession] else []) @
     (if openPool ho (hoEnv ho ''LEMON_DATABASE_URL'') = None then [] else [DatabasePool])"
  using embedder_close[of ho] by (auto simp: boot_def New_repo_def Let_def split: option.splits prod.splits)

definition get_status :: "string \<Rightarrow> api_env \<Rightarrow> 'x option \<Rightarrow> ('r, 'm, 'e) server \<Rightarrow> string \<Rightarrow> query_values \<Rightarrow>
    ('r, 'm) world \<Rightarrow> int" where
  "get_status origin env ctx_err se path q w =
     rpStatus (fst (Handler origin env ctx_err se \<lparr>rqMethod = ''GET'', rqPath = path, rqQuery = q\<rparr> w))"

lemma get_status_eq:
  "get_status origin env ctx_err se ''/healthz'' q w = 200"
  "get_status origin env ctx_err se ''/readyz'' q w = (if sePing se (wRepo w) then 200 else 503)"
  "get_status origin env ctx_err se ''/search'' q w = rpStatus (fst (handleSearch env ctx_err se q w))"
  by (simp_all add: get_status_def Handler_def withCORS_def logRequests_def route_def handleHealthz_def
      handleReadyz_def Let_def split: prod.split)

lemma handleSearch_503: "rpStatus (fst (handleSearch env ctx_err se q w)) = 503 \<longleftrightarrow> seSvc se = None"
  unfolding handleSearch_def Let_def
  by (auto split: option.split sum.split prod.split)

section \<open>Properties\<close>


text \<open>The booted service has an embedder only when the semantic flag is set, and what that embedder
  returns, from Ollama or ONNX, fits the database column.\<close>

theorem booted_embedder:
  assumes "seSvc (btServer (boot ho)) = Some sv" "svEmbedder sv = Some emb"
  shows "truthy (hoUnicode ho) (hoEnv ho ''LEMON_FF_SEMANTIC'') \<and>
    (case emb m q of (Inl e, m') \<Rightarrow> True | (Inr v, m') \<Rightarrow> length v = EmbeddingDim)"
proof -
  from assms have b: "fst (buildEmbedder ho (flSemantic (FromEnv (hoUnicode ho) (hoEnv ho)))) = Some emb"
    by (auto simp: boot_svc New_service_def split: option.splits)
  then have "flSemantic (FromEnv (hoUnicode ho) (hoEnv ho))" by (auto simp: buildEmbedder_def split: if_splits)
  then show ?thesis using query_embedder_dim[OF b, of m q]
    by (auto simp: FromEnv_def split: prod.split sum.split)
qed

text \<open>A host for the witness: the echo server behind Ollama, and a database that opens and then
  refuses every statement.\<close>

definition refusing_pg :: "(unit, wire \<times> int, string) pg" where
  "refusing_pg = \<lparr>pgQuery = (\<lambda>s call. (Inl ''canceling statement due to statement timeout'', s)),
     pgScan = (\<lambda>r. Inr (fst r)), pgScanMatch = Inr, pgFmt = (\<lambda>_. ''0'')\<rparr>"

definition demo_host :: "(unit, wire \<times> int, unit, string, unit, unit, string) host" where
  "demo_host = \<lparr>hoEnv = (\<lambda>k. if k = ''LEMON_DATABASE_URL'' then ''postgres://localhost/lemon''
       else if k = ''LEMON_FF_SEMANTIC'' then ''1'' else []),
     hoUnicode = basic_unicode, hoParsePool = (\<lambda>_. None), hoNewPool = (\<lambda>_. Inr (refusing_pg, ())),
     hoPing = (\<lambda>_. True), hoOpen = (\<lambda>_. Inr ()), hoDecode = (\<lambda>_. Inr ranking_yaml), hoClient = echo_client,
     hoOrt = \<lparr>ortSession = (\<lambda>_. Inl ''no runtime''), ortPipeline = (\<lambda>s n. (None, s)), ortDestroy = (\<lambda>s. s),
       ortRun = (\<lambda>s ts. (Inl ''no runtime'', s)), ortMaxProcs = 1\<rparr>,
     hoCancelled = None, hoEmb = ((), 0, ()), hoGoVersion = ''go1.24''\<rparr>"

theorem booted_embedder_witness:
  "\<exists>sv emb v. seSvc (btServer (boot demo_host)) = Some sv \<and> svEmbedder sv = Some emb \<and>
     fst (emb ((), 0, ()) ''pizza'') = Inr v \<and> length v = EmbeddingDim"
proof -
  have t: "truthy basic_unicode ''1''" by code_simp
  have l: "loadRanking demo_host [] = Some ranking_yaml"
    using Load_ok[of "hoDecode demo_host" "()" ranking_yaml] valid_ranking_yaml
    by (simp add: loadRanking_def LoadFile_def demo_host_def)
  have p: "openPool demo_host ''postgres://localhost/lemon'' = Some (refusing_pg, ())"
    by (simp add: openPool_def demo_host_def Let_def)
  have e: "fst (buildEmbedder demo_host True) =
      Some (ollama_query demo_host \<lparr>olBaseURL = ''http://localhost:11434'', olModel = ''all-minilm''\<rparr>)"
    by (simp add: buildEmbedder_def New_ollama_def envOr_def demo_host_def)
  define em where "em = ollama_query demo_host \<lparr>olBaseURL = ''http://localhost:11434'', olModel = ''all-minilm''\<rparr>"
  define sv where "sv = New_service (repo_search :: (unit, wire \<times> int, string) pg \<times> unit \<Rightarrow> _) repo_exact ranking_yaml
      (flIntent (FromEnv basic_unicode (hoEnv demo_host))) (Some em)"
  have s: "seSvc (btServer (boot demo_host)) = Some sv"
    unfolding boot_svc sv_def em_def using t l p e by (simp add: demo_host_def FromEnv_def)
  have emb: "svEmbedder sv = Some em" by (simp add: sv_def New_service_def)
  have v: "fst (em ((), 0, ()) ''pizza'') = Inr (replicate 384 (f_to_f32 (Fin 0)))"
    by (simp add: em_def ollama_query_def demo_host_def Embed_ollama_def post_def echo_client_def toVector_def EmbeddingDim_def)
  have "length (replicate 384 (f_to_f32 (Fin 0))) = EmbeddingDim"
    using booted_embedder[OF s emb, of "((), 0, ())" "''pizza''"] v
    by (cases "em ((), 0, ()) ''pizza''") simp
  with s emb v show ?thesis by blast
qed

end
