(* ===== verification/Go_Fmt.thy ===== *)
theory Go_Fmt
  imports Float64 Go_Strings
begin

text \<open>
  The verbs of package \<open>fmt\<close> the reports use: integers padded to a width, and floats in fixed
  notation, the exact value rounded half to even at the last place.
\<close>

fun digits :: "nat \<Rightarrow> string" where
  "digits n = (if n < 10 then [char_of (48 + n)] else digits (n div 10) @ [char_of (48 + n mod 10)])"

declare digits.simps [simp del]

definition pad_left :: "char \<Rightarrow> nat \<Rightarrow> string \<Rightarrow> string" where
  "pad_left c w s = replicate (w - length s) c @ s"

text \<open>\<open>%d\<close> and \<open>%6d\<close>.\<close>

definition format_int :: "int \<Rightarrow> string" where
  "format_int n = (if n < 0 then ''-'' @ digits (nat (- n)) else digits (nat n))"

text \<open>Padding to a width counts runes; \<open>-\<close> pads on the right.\<close>

definition width :: "nat \<Rightarrow> string \<Rightarrow> string" where
  "width w s = replicate (w - length (runes s)) (CHR '' '') @ s"

definition width_left :: "nat \<Rightarrow> string \<Rightarrow> string" where
  "width_left w s = s @ replicate (w - length (runes s)) (CHR '' '')"

definition format_int6 :: "int \<Rightarrow> string" where
  "format_int6 n = pad_left (CHR '' '') 6 (format_int n)"

definition nl :: string where "nl = [CHR 0x0A]"

text \<open>\<open>%.pf\<close>, and \<open>strconv.FormatFloat(x, 'f', p, 64)\<close>.\<close>

fun format_fixed :: "nat \<Rightarrow> f64 \<Rightarrow> string" where
  "format_fixed p (Fin x) =
     (let m = nat (rne (\<bar>x\<bar> * 10 ^ p)) in
      (if x < 0 then ''-'' else []) @ digits (m div 10 ^ p) @
      (if p = 0 then [] else ''.'' @ pad_left (CHR ''0'') p (digits (m mod 10 ^ p))))"
| "format_fixed p NaN = ''NaN''"
| "format_fixed p PInf = ''+Inf''"
| "format_fixed p NInf = ''-Inf''"

text \<open>\<open>%+d\<close>, \<open>%+.pf\<close>.\<close>

definition format_plus_int :: "int \<Rightarrow> string" where
  "format_plus_int n = (if n < 0 then format_int n else ''+'' @ format_int n)"

fun format_plus :: "nat \<Rightarrow> f64 \<Rightarrow> string" where
  "format_plus p (Fin x) = (if x < 0 then format_fixed p (Fin x) else ''+'' @ format_fixed p (Fin x))"
| "format_plus p NaN = ''+NaN''"
| "format_plus p PInf = ''+Inf''"
| "format_plus p NInf = ''-Inf''"

text \<open>\<open>%q\<close>: \<open>strconv.Quote\<close>. Which runes print is a table of package \<open>strconv\<close>, here a parameter.\<close>

definition lower_hex :: "nat \<Rightarrow> char" where
  "lower_hex n = ''0123456789abcdef'' ! n"

definition hex_text :: "nat \<Rightarrow> nat \<Rightarrow> string" where
  "hex_text k n = map (\<lambda>i. lower_hex (n div 16 ^ i mod 16)) (rev [0..<k])"

definition quote_rune :: "(nat \<Rightarrow> bool) \<Rightarrow> nat \<times> string \<Rightarrow> string" where
  "quote_rune is_print seg =
     (let (r, bs) = seg in
      if r = rune_error \<and> length bs = 1 then [CHR 0x5C] @ ''x'' @ hex_text 2 (byte_of (hd bs))
      else if r = 34 \<or> r = 92 then [CHR 0x5C, char_of r]
      else if is_print r then bs
      else if r = 7 then [CHR 0x5C] @ ''a''
      else if r = 8 then [CHR 0x5C] @ ''b''
      else if r = 12 then [CHR 0x5C] @ ''f''
      else if r = 10 then [CHR 0x5C] @ ''n''
      else if r = 13 then [CHR 0x5C] @ ''r''
      else if r = 9 then [CHR 0x5C] @ ''t''
      else if r = 11 then [CHR 0x5C] @ ''v''
      else if r < 32 \<or> r = 127 then [CHR 0x5C] @ ''x'' @ hex_text 2 r
      else if r < 65536 then [CHR 0x5C] @ ''u'' @ hex_text 4 r
      else [CHR 0x5C] @ ''U'' @ hex_text 8 r)"

definition quote :: "(nat \<Rightarrow> bool) \<Rightarrow> string \<Rightarrow> string" where
  "quote is_print s = [CHR 0x22] @ concat (map (quote_rune is_print) (segs s)) @ [CHR 0x22]"

text \<open>Runes of the reports that are not ASCII.\<close>

definition em_dash :: string where "em_dash = encode [0x2014]"
definition arrow :: string where "arrow = encode [0x2192]"
definition ellipsis :: string where "ellipsis = encode [0x2026]"
definition minus_sign :: string where "minus_sign = encode [0x2212]"
definition delta :: string where "delta = encode [0x0394]"
definition approx_sign :: string where "approx_sign = encode [0x2248]"
definition ge_sign :: string where "ge_sign = encode [0x2265]"
definition le_sign :: string where "le_sign = encode [0x2264]"
definition check_mark :: string where "check_mark = encode [0x2705]"
definition cross_mark :: string where "cross_mark = encode [0x274C]"
definition corner :: string where "corner = encode [0x2514]"
definition en_dash :: string where "en_dash = encode [0x2013]"

lemma digits_nonempty: "digits n \<noteq> []"
  by (subst digits.simps) simp

lemma digits_chars: "set (digits n) \<subseteq> set ''0123456789''"
proof (induction n rule: digits.induct)
  case (1 n)
  have "list_all (\<lambda>k. char_of (48 + k) \<in> set ''0123456789'') [0..<10]" by code_simp
  then have d: "char_of (48 + k) \<in> set ''0123456789''" if "k < 10" for k :: nat
    using that unfolding list_all_iff by (metis atLeastLessThan_iff set_upt zero_le)
  show ?case
    using 1 d[of n] d[of "n mod 10"] by (subst digits.simps) auto
qed


text \<open>The bars of a table row: nothing that \<open>%d\<close> and \<open>%f\<close> print adds one.\<close>

definition bars :: "string \<Rightarrow> nat" where
  "bars s = count_list s (CHR ''|'')"

lemma bars_append [simp]: "bars (s @ t) = bars s + bars t"
  by (simp add: bars_def)

lemma bars_Nil [simp]: "bars [] = 0"
  by (simp add: bars_def)

lemma bars_Cons [simp]: "bars (c # s) = (if c = CHR ''|'' then Suc (bars s) else bars s)"
  by (simp add: bars_def)

lemma bars_replicate: "c \<noteq> CHR ''|'' \<Longrightarrow> bars (replicate n c) = 0"
  by (induction n) auto

lemma bars_digits [simp]: "bars (digits n) = 0"
proof -
  have "CHR ''|'' \<notin> set (digits n)" using digits_chars[of n] by (auto simp: subset_iff)
  then show ?thesis by (simp add: bars_def count_notin)
qed

lemma bars_pad [simp]: "bars (pad_left (CHR ''0'') w s) = bars s"
  by (simp add: pad_left_def bars_replicate)

lemma bars_width [simp]: "bars (width w s) = bars s" "bars (width_left w s) = bars s"
  by (simp_all add: width_def width_left_def bars_replicate)

lemma bars_format_int [simp]: "bars (format_int n) = 0"
  by (simp add: format_int_def)

lemma bars_format_fixed [simp]: "bars (format_fixed p x) = 0"
  by (cases x) (simp_all add: Let_def)

lemma bars_format_plus [simp]: "bars (format_plus p x) = 0" "bars (format_plus_int n) = 0"
  by (cases x) (simp_all add: format_plus_int_def del: format_fixed.simps)

end
