(* ===== verification/Ingest_Main.thy ===== *)
theory Ingest_Main
  imports Ingest_Runs Embed_Pass Api_Boot Go_Fmt
begin

text \<open>
  The command \<open>cmd/ingest\<close> around its two modes (\<open>main.go\<close>, \<open>embed.go\<close>): the checks before anything
  runs, the pool, the mapping of a finished run to the command's error, the two reports and the
  exit code. The finished run is a state of theory \<open>Ingest_System\<close>; the file system, \<open>pgxpool\<close>,
  standard output and the text of a duration are parameters.
\<close>

section \<open>Checks\<close>

datatype 'e main_error =
    MissingInput
  | EmptyDatabaseURL
  | OpeningInput 'e
  | ParsingURL 'e
  | CreatingPool 'e
  | IngestFailed "'e run_error"
  | BuildingEmbedder "'e ollama_error"
  | PassFailed "'e pass_error backfill_error"
  | WritingReport 'e

record ('f, 'p, 'e) cli_host =
  chEnv :: getenv
  chOpen :: "string \<Rightarrow> 'e + 'f"
  chParseURL :: "string \<Rightarrow> 'e option"
  chNewPool :: "pool_config \<Rightarrow> 'e + 'p"
  chWrite :: "string \<Rightarrow> 'e option"
  chDuration :: "int \<Rightarrow> string"

definition openPool_ingest :: "('f, 'p, 'e) cli_host \<Rightarrow> string \<Rightarrow> 'e main_error + 'p" where
  "openPool_ingest h url =
     (case chParseURL h url of
        Some e \<Rightarrow> Inl (ParsingURL e)
      | None \<Rightarrow> map_err CreatingPool
          (chNewPool h \<lparr>pcURL = url, pcStatementTimeout = ''300000'', pcMaxConns = None\<rparr>))"

text \<open>\<open>run\<close> up to the pipeline: the opened file and the pool.\<close>

definition ingest_prepare :: "('f, 'p, 'e) cli_host \<Rightarrow> string \<Rightarrow> 'e main_error + 'f \<times> 'p" where
  "ingest_prepare h input =
     (if input = [] then Inl MissingInput
      else (let dbURL = chEnv h ''LEMON_DATABASE_URL'' in
        if dbURL = [] then Inl EmptyDatabaseURL
        else res_bind (map_err OpeningInput (chOpen h input)) (\<lambda>f.
          res_bind (openPool_ingest h dbURL) (\<lambda>pool. Inr (f, pool)))))"

section \<open>Reports\<close>

definition report_pct :: "ingest_stats \<Rightarrow> int \<Rightarrow> f64" where
  "report_pct s n =
     (if isRead s = 0 then Fin 0 else f_div (f_mul (Fin 100) (f_of_int n)) (f_of_int (isRead s)))"

definition ingest_report :: "('f, 'p, 'e) cli_host \<Rightarrow> ingest_stats \<Rightarrow> int \<Rightarrow> string" where
  "ingest_report h s elapsed_ns =
     ''ingest done in '' @ chDuration h elapsed_ns @ nl @
     ''  read:                '' @ format_int6 (isRead s) @ nl @
     ''  dropped (geo):       '' @ format_int6 (isDroppedGeo s) @ nl @
     ''  dropped (no addr):   '' @ format_int6 (isDroppedNoAddr s) @ nl @
     ''  dropped (cat empty): '' @ format_int6 (isDroppedCatEmpty s) @ nl @
     ''  bucketed (Other):    '' @ format_int6 (isBucketedOther s) @ nl @
     ''  loaded:              '' @ format_int6 (isLoaded s) @ nl @
     ''  is_claimed=true (synth):  '' @ format_int6 (isClaimedTrue s) @ '' ('' @
       format_fixed 2 (report_pct s (isClaimedTrue s)) @ ''%)'' @ nl @
     ''  friend_count > 0:    '' @ format_int6 (isFriendNonzero s) @ '' ('' @
       format_fixed 2 (report_pct s (isFriendNonzero s)) @ ''%)'' @ nl"

definition write_report :: "('f, 'p, 'e) cli_host \<Rightarrow> string \<Rightarrow> 'e main_error option" where
  "write_report h text = map_option WritingReport (chWrite h text)"

text \<open>\<open>run\<close> as a whole, for a finished state of the pipeline.\<close>

definition run_ingest :: "('f, 'p, 'e) cli_host \<Rightarrow> string \<Rightarrow> 'e ingest_sys \<Rightarrow> int \<Rightarrow> 'e main_error option" where
  "run_ingest h input s elapsed_ns =
     (case ingest_prepare h input of
        Inl e \<Rightarrow> Some e
      | Inr _ \<Rightarrow>
          (case run_result s of
             Inl e \<Rightarrow> Some (IngestFailed e)
           | Inr st \<Rightarrow> write_report h (ingest_report h st elapsed_ns)))"

section \<open>The embedding mode\<close>

definition ollamaURL :: "getenv \<Rightarrow> string" where
  "ollamaURL env = (if env ''LEMON_OLLAMA_URL'' \<noteq> [] then env ''LEMON_OLLAMA_URL'' else ''http://localhost:11434'')"

definition ollamaModel :: "getenv \<Rightarrow> string" where
  "ollamaModel env = (if env ''LEMON_OLLAMA_MODEL'' \<noteq> [] then env ''LEMON_OLLAMA_MODEL'' else ''all-minilm'')"

definition embedReport :: "('f, 'p, 'e) cli_host \<Rightarrow> embed_stats \<Rightarrow> int \<Rightarrow> string" where
  "embedReport h s elapsed_ns =
     (let perRow = (if 0 < esEmbedded s
            then format_fixed 1 (f_div (f_of_int (milliseconds elapsed_ns)) (f_of_int (esEmbedded s))) @ '' ms/row''
            else ''n/a'')
      in ''embedding pass done in '' @ chDuration h elapsed_ns @ nl @
         ''  scanned:   '' @ format_int6 (esScanned s) @ nl @
         ''  embedded:  '' @ format_int6 (esEmbedded s) @ nl @
         ''  skipped:   '' @ format_int6 (esSkipped s) @ '' (no embeddable text)'' @ nl @
         ''  throughput: '' @ perRow @ nl)"

text \<open>\<open>pass\<close> is the run of the backfiller for the constructed embedder and the opened pool.\<close>

definition run_embed_mode :: "('f, 'p, 'e) cli_host \<Rightarrow>
    (ollama \<Rightarrow> 'p \<Rightarrow> 'e pass_error backfill_error option \<times> embed_stats) \<Rightarrow> int \<Rightarrow> 'e main_error option" where
  "run_embed_mode h pass elapsed_ns =
     (let dbURL = chEnv h ''LEMON_DATABASE_URL'' in
      if dbURL = [] then Some EmptyDatabaseURL
      else (case New_ollama (ollamaURL (chEnv h)) (ollamaModel (chEnv h)) of
        Inl e \<Rightarrow> Some (BuildingEmbedder e)
      | Inr oll \<Rightarrow>
          (case openPool_ingest h dbURL of
             Inl e \<Rightarrow> Some e
           | Inr pool \<Rightarrow>
               (case pass oll pool of
                  (Some e, st) \<Rightarrow> Some (PassFailed e)
                | (None, st) \<Rightarrow> write_report h (embedReport h st elapsed_ns)))))"

definition ingest_exit :: "'e main_error option \<Rightarrow> int" where
  "ingest_exit r = (case r of None \<Rightarrow> 0 | Some e \<Rightarrow> 1)"

section \<open>Facts\<close>

lemma ollama_defaults: "New_ollama (ollamaURL env) (ollamaModel env) = Inr \<lparr>olBaseURL = ollamaURL env, olModel = ollamaModel env\<rparr>"
  by (simp add: New_ollama_def ollamaURL_def ollamaModel_def)

lemma report_pct_range:
  assumes "0 \<le> n" "n \<le> isRead s" "isRead s < 2 ^ 45"
  shows "f_le (Fin 0) (report_pct s n)" "f_le (report_pct s n) (Fin 100)"
proof -
  have f: "f_of_int n = Fin (of_int n)" "f_of_int (isRead s) = Fin (of_int (isRead s))"
    using assms by (simp_all add: f_of_int_small)
  have m: "fround (100 * of_int n) = Fin (of_int (100 * n))"
    using fround_of_int[of "100 * n"] assms by simp
  have r: "report_pct s n = (if isRead s = 0 then Fin 0 else fround (100 * of_int n / of_int (isRead s)))"
    using f m by (simp add: report_pct_def)
  have q: "0 \<le> 100 * of_int n / (of_int (isRead s) :: real)" "100 * of_int n / (of_int (isRead s) :: real) \<le> 100"
    if "isRead s \<noteq> 0"
    using assms that by (simp_all add: field_simps)
  show "f_le (Fin 0) (report_pct s n)" using fround_mono[OF q(1)] r by (auto split: if_splits)
  show "f_le (report_pct s n) (Fin 100)"
    using fround_mono[OF q(2)] r by (auto simp: fround_numeral split: if_splits)
qed

lemma write_report_Some: "write_report h text = Some e \<Longrightarrow> \<exists>x. e = WritingReport x"
  by (auto simp: write_report_def)

text \<open>What the operator may conclude from a load whose checks have passed: without an error, or with an
  unwritable report, the whole file was read and the table holds exactly its rows, upserted;
  with a load error the table is as it was, or, after a failed commit, holds a prefix; with a producer error it holds a prefix.\<close>

lemma ingest_exit_meaning:
  assumes "ingest_reach env (ingest_start p0 T0) s" "ingest_final s" "ingest_prepare h input = Inr fp"
  defines "loaded \<equiv> (\<lambda>raws bs. gsTable s = loaded_table (giDb env) bs T0 \<and> list_all (loadable (giDb env)) bs \<and>
    fst (produce (giStages env) raws no_stats) = bs)"
  shows "case run_ingest h input s elapsed_ns of
      None \<Rightarrow> (\<exists>raws bs. parse_all p0 = (raws, EndOfStream) \<and> loaded raws bs)
    | Some (WritingReport x) \<Rightarrow> (\<exists>raws bs. parse_all p0 = (raws, EndOfStream) \<and> loaded raws bs)
    | Some (IngestFailed (LoadFailed e)) \<Rightarrow> gsTable s = T0 \<or> (\<exists>x. e = Committing x) \<and> prefix_loaded env p0 T0 (gsTable s)
    | Some (IngestFailed (ProducingRows e)) \<Rightarrow> prefix_loaded env p0 T0 (gsTable s)
    | _ \<Rightarrow> False"
proof -
  have o: "outcome_ok env p0 T0 (run_result s) (gsTable s)"
    by (rule outcome_aux[OF reach_inv[OF assms(1)] assms(2)])
  show ?thesis
  proof (cases "run_result s")
    case (Inl e)
    note res = Inl
    have run: "run_ingest h input s elapsed_ns = Some (IngestFailed e)" using Inl assms(3) by (simp add: run_ingest_def)
    show ?thesis
    proof (cases e)
      case (ProducingRows x)
      with o res have "prefix_loaded env p0 T0 (gsTable s)" by (cases x) (auto simp: outcome_ok_def dest: broken_prefix)
      then show ?thesis by (simp add: run ProducingRows)
    qed (use o res in \<open>simp_all add: run outcome_ok_def\<close>)
  next
    case (Inr st)
    with o have ok: "\<exists>raws bs. parse_all p0 = (raws, EndOfStream) \<and> loaded raws bs" by (auto simp: outcome_ok_def loaded_def)
    show ?thesis
    proof (cases "write_report h (ingest_report h st elapsed_ns)")
      case None
      with Inr assms(3) ok show ?thesis by (simp add: run_ingest_def)
    next
      case (Some a)
      then obtain x where "a = WritingReport x" using write_report_Some by blast
      with Some Inr assms(3) ok show ?thesis by (simp add: run_ingest_def)
    qed
  qed
qed

end
