(* ===== verification/Sql_Hours.thy ===== *)
theory Sql_Hours
  imports Go_Strings
begin

text \<open>
  The hours functions of the database (\<open>supabase/migrations/0002_search_candidates.sql\<close>):
  \<open>lemon_parse_time\<close> reads one time of day, \<open>lemon_open_status\<close> evaluates the \<open>hours\<close> of a business at a
  local instant. A text is its list of characters, SQL NULL is \<open>None\<close> of an argument, a raised error
  \<open>None\<close> of a result. The locale's \<open>upper\<close> and \<open>lower\<close>, its white space and the cast of a text to a
  boolean are parameters. Each regular expression is the function that matches it.
\<close>

type_synonym pg_text = "nat list"

definition chars :: "string \<Rightarrow> pg_text" where
  "chars s = map byte_of s"

record pg_locale =
  lcUpper :: "pg_text \<Rightarrow> pg_text"
  lcLower :: "pg_text \<Rightarrow> pg_text"
  lcSpace :: "nat \<Rightarrow> bool"
  lcBoolean :: "pg_text \<Rightarrow> bool option"

section \<open>Text functions\<close>

text \<open>\<open>btrim\<close> removes spaces only.\<close>

definition btrim :: "pg_text \<Rightarrow> pg_text" where
  "btrim s = rev (dropWhile (\<lambda>r. r = 32) (rev (dropWhile (\<lambda>r. r = 32) s)))"

definition rstrip :: "(nat \<Rightarrow> bool) \<Rightarrow> pg_text \<Rightarrow> pg_text" where
  "rstrip sp s = rev (dropWhile sp (rev s))"

definition ends_in :: "pg_text \<Rightarrow> pg_text \<Rightarrow> bool" where
  "ends_in s w \<longleftrightarrow> length w \<le> length s \<and> drop (length s - length w) s = w"

text \<open>\<open>regexp_replace(s, '\s*\(NEXT DAY\)\s*$', '')\<close>\<close>

definition drop_next_day :: "(nat \<Rightarrow> bool) \<Rightarrow> pg_text \<Rightarrow> pg_text" where
  "drop_next_day sp s =
     (let t = rstrip sp s; w = chars ''(NEXT DAY)'' in
      if ends_in t w then rstrip sp (take (length t - length w) t) else s)"

text \<open>\<open>regexp_replace(s, 'A\s*M', 'AM', 'g')\<close>, for \<open>A\<close> and \<open>P\<close>.\<close>

function fold_meridiem :: "(nat \<Rightarrow> bool) \<Rightarrow> nat \<Rightarrow> pg_text \<Rightarrow> pg_text" where
  "fold_meridiem sp x [] = []"
| "fold_meridiem sp x (r # rs) =
     (if r = x then
        (case dropWhile sp rs of
           [] \<Rightarrow> r # fold_meridiem sp x rs
         | m # rest \<Rightarrow> if m = 77 then x # 77 # fold_meridiem sp x rest else r # fold_meridiem sp x rs)
      else r # fold_meridiem sp x rs)"
  by pat_completeness auto
termination
proof (relation "measure (\<lambda>(sp, x, rs). length rs)", goal_cases)
  case (3 sp x r rs m rest)
  then show ?case using length_dropWhile_le[of sp rs] by simp
qed simp_all

definition digit :: "nat \<Rightarrow> bool" where
  "digit r \<longleftrightarrow> 48 \<le> r \<and> r \<le> 57"

text \<open>The cast of a text of digits to an integer.\<close>

definition digits_value :: "pg_text \<Rightarrow> nat" where
  "digits_value ds = fold (\<lambda>r n. 10 * n + (r - 48)) ds 0"

text \<open>\<open>^([0-9]{1,2})(?::([0-9]{2}))?\s*(AM|PM)$\<close>: the hour, the minutes if any, and whether it is PM.\<close>

definition match12 :: "(nat \<Rightarrow> bool) \<Rightarrow> pg_text \<Rightarrow> (nat \<times> nat option \<times> bool) option" where
  "match12 sp s =
     (let ds = takeWhile digit s in
      if length ds \<noteq> 1 \<and> length ds \<noteq> 2 then None
      else
        (let (mi, rest) =
               (case dropWhile digit s of
                  c # a # b # rest \<Rightarrow> if c = 58 \<and> digit a \<and> digit b then (Some (digits_value [a, b]), rest)
                                      else (None, c # a # b # rest)
                | rest \<Rightarrow> (None, rest));
             suffix = dropWhile sp rest
         in if suffix = chars ''AM'' then Some (digits_value ds, mi, False)
            else if suffix = chars ''PM'' then Some (digits_value ds, mi, True)
            else None))"

text \<open>\<open>^([0-9]{1,2}):([0-9]{2})$\<close>\<close>

definition match24 :: "pg_text \<Rightarrow> (nat \<times> nat) option" where
  "match24 s =
     (let ds = takeWhile digit s in
      if length ds \<noteq> 1 \<and> length ds \<noteq> 2 then None
      else (case dropWhile digit s of
              [c, a, b] \<Rightarrow> if c = 58 \<and> digit a \<and> digit b then Some (digits_value ds, digits_value [a, b]) else None
            | _ \<Rightarrow> None))"

section \<open>Times of day\<close>

text \<open>A \<open>time\<close> is its microseconds since midnight.\<close>

definition make_time :: "nat \<Rightarrow> nat \<Rightarrow> int" where
  "make_time h mi = (int h * 60 + int mi) * 60000000"

definition day_end :: int where
  "day_end = 24 * 60 * 60000000"

definition clean_time :: "pg_locale \<Rightarrow> pg_text \<Rightarrow> pg_text" where
  "clean_time L raw =
     (let s = lcUpper L (btrim raw);
          s = drop_next_day (lcSpace L) s;
          s = filter (\<lambda>r. r \<noteq> 46) s;
          s = fold_meridiem (lcSpace L) 65 s;
          s = fold_meridiem (lcSpace L) 80 s
      in btrim s)"

definition lemon_parse_time :: "pg_locale \<Rightarrow> pg_text option \<Rightarrow> int option" where
  "lemon_parse_time L raw =
     (case raw of None \<Rightarrow> None
      | Some raw \<Rightarrow>
          (let s = clean_time L raw in
           case match12 (lcSpace L) s of
             Some (h, mi, pm) \<Rightarrow>
               (let mi = (case mi of None \<Rightarrow> 0 | Some m \<Rightarrow> m) in
                if h > 12 \<or> mi > 59 then None
                else
                  (let h = (if \<not> pm then (if h = 12 then 0 else h) else if h \<noteq> 12 then h + 12 else h) in
                   if h > 23 then None else Some (make_time h mi)))
           | None \<Rightarrow>
               (case match24 s of
                  Some (h, mi) \<Rightarrow> if h > 23 \<or> mi > 59 then None else Some (make_time h mi)
                | None \<Rightarrow> None)))"

section \<open>Opening hours\<close>

text \<open>A \<open>jsonb\<close> value; a number or an array is kept as its text.\<close>

datatype jsonb =
    JNull
  | JBool bool
  | JString pg_text
  | JObject pg_text "(pg_text \<times> jsonb) list"
  | JOther pg_text

fun jsonb_is_object :: "jsonb \<Rightarrow> bool" where
  "jsonb_is_object (JObject _ _) = True"
| "jsonb_is_object _ = False"

text \<open>The operators \<open>->\<close> and \<open>->>\<close>.\<close>

fun jsonb_field :: "jsonb \<Rightarrow> pg_text \<Rightarrow> jsonb option" where
  "jsonb_field (JObject _ kvs) k = map_of kvs k"
| "jsonb_field _ k = None"

fun jsonb_text :: "jsonb \<Rightarrow> pg_text option" where
  "jsonb_text JNull = None"
| "jsonb_text (JBool b) = Some (chars (if b then ''true'' else ''false''))"
| "jsonb_text (JString s) = Some s"
| "jsonb_text (JObject s _) = Some s"
| "jsonb_text (JOther s) = Some s"

definition jsonb_field_text :: "jsonb \<Rightarrow> pg_text \<Rightarrow> pg_text option" where
  "jsonb_field_text j k = Option.bind (jsonb_field j k) jsonb_text"

text \<open>A local timestamp: its day of the week, Monday first, and its time of day.\<close>

record local_ts =
  tsDay :: nat
  tsTime :: int

definition day_names :: "string list" where
  "day_names = [''monday'', ''tuesday'', ''wednesday'', ''thursday'', ''friday'', ''saturday'', ''sunday'']"

record open_status =
  osOpenNow :: "bool option"
  osOpensLater :: bool

text \<open>The interval arithmetic, once both times are parsed.\<close>

definition interval_status :: "int \<Rightarrow> int \<Rightarrow> int \<Rightarrow> open_status" where
  "interval_status op cl now_t =
     (if cl > op then
        (if now_t \<ge> op \<and> now_t < cl then \<lparr>osOpenNow = Some True, osOpensLater = False\<rparr>
         else \<lparr>osOpenNow = Some False, osOpensLater = now_t < op\<rparr>)
      else
        (if now_t \<ge> op then \<lparr>osOpenNow = Some True, osOpensLater = False\<rparr>
         else \<lparr>osOpenNow = Some False, osOpensLater = True\<rparr>))"

text \<open>The rest of the function, for the day's entry: \<open>coalesce((entry ->> 'closed')::boolean, false)\<close> may
  raise.\<close>

definition entry_status :: "pg_locale \<Rightarrow> jsonb \<Rightarrow> int \<Rightarrow> open_status option" where
  "entry_status L entry now_t =
     (case (case jsonb_field_text entry (chars ''closed'') of None \<Rightarrow> Some False | Some t \<Rightarrow> lcBoolean L t) of
        None \<Rightarrow> None
      | Some closed \<Rightarrow>
          if closed then Some \<lparr>osOpenNow = Some False, osOpensLater = False\<rparr>
          else (case lemon_parse_time L (jsonb_field_text entry (chars ''open'')) of
            None \<Rightarrow> Some \<lparr>osOpenNow = None, osOpensLater = False\<rparr>
          | Some op \<Rightarrow>
              (case lemon_parse_time L (jsonb_field_text entry (chars ''close'')) of
                 None \<Rightarrow> Some \<lparr>osOpenNow = None, osOpensLater = False\<rparr>
               | Some cl \<Rightarrow> Some (interval_status op cl now_t))))"

definition lemon_open_status :: "pg_locale \<Rightarrow> jsonb option \<Rightarrow> local_ts \<Rightarrow> open_status option" where
  "lemon_open_status L hours ts =
     (let unknown = \<lparr>osOpenNow = None, osOpensLater = False\<rparr> in
      case hours of None \<Rightarrow> Some unknown
      | Some h \<Rightarrow>
          if \<not> jsonb_is_object h then Some unknown
          else (case jsonb_field h (chars (day_names ! tsDay ts)) of
            None \<Rightarrow> Some unknown
          | Some entry \<Rightarrow> if \<not> jsonb_is_object entry then Some unknown else entry_status L entry (tsTime ts)))"

section \<open>Facts\<close>

lemma lemon_parse_time_range: "lemon_parse_time L raw = Some t \<Longrightarrow> 0 \<le> t \<and> t < day_end"
  by (auto simp: lemon_parse_time_def make_time_def day_end_def Let_def split: option.splits if_splits)

text \<open>The interval an entry announces for its own day.\<close>

definition open_today :: "int \<Rightarrow> int \<Rightarrow> int set" where
  "open_today op cl = (if op < cl then {op..<cl} else {op..<day_end})"

lemma open_today_later:
  assumes "0 \<le> op" "op < day_end" "cl < day_end" "t \<notin> open_today op cl" "0 \<le> t"
  shows "(\<exists>u \<in> open_today op cl. t < u) \<longleftrightarrow> t < op"
  using assms by (auto simp: open_today_def split: if_splits)

text \<open>What the locale does to ASCII text.\<close>

definition ascii_upper :: "nat \<Rightarrow> nat" where
  "ascii_upper r = (if 97 \<le> r \<and> r \<le> 122 then r - 32 else r)"

definition locale_ascii :: "pg_locale \<Rightarrow> bool" where
  "locale_ascii L \<longleftrightarrow> (\<forall>s. list_all (\<lambda>r. r < 128) s \<longrightarrow> lcUpper L s = map ascii_upper s) \<and>
     (\<forall>r < 128. lcSpace L r \<longleftrightarrow> 9 \<le> r \<and> r \<le> 13 \<or> r = 32)"

lemma locale_ascii_space: "locale_ascii L \<Longrightarrow> r < 128 \<Longrightarrow> lcSpace L r \<longleftrightarrow> 9 \<le> r \<and> r \<le> 13 \<or> r = 32"
  by (simp add: locale_ascii_def)

text \<open>Clock times as they are written: the hour with or without a leading zero.\<close>

definition decimal_digits :: "nat \<Rightarrow> pg_text" where
  "decimal_digits n = (if n < 10 then [48 + n] else [48 + n div 10, 48 + n mod 10])"

definition two_digits :: "nat \<Rightarrow> pg_text" where
  "two_digits n = [48 + n div 10, 48 + n mod 10]"

definition clock24 :: "nat \<Rightarrow> nat \<Rightarrow> pg_text" where
  "clock24 h m = two_digits h @ [58] @ two_digits m"

definition clock12 :: "nat \<Rightarrow> nat \<Rightarrow> pg_text" where
  "clock12 h m = decimal_digits (if h mod 12 = 0 then 12 else h mod 12) @ [58] @ two_digits m @ [32] @
     chars (if h < 12 then ''AM'' else ''PM'')"

lemma digit_cons: "n < 10 \<Longrightarrow> digit (48 + n)" "digit 58 = False" "digit 32 = False"
  by (simp_all add: digit_def)

lemma clean_clock24:
  assumes "locale_ascii L" "a < 10" "b < 10" "c < 10" "d < 10"
  shows "clean_time L [48 + a, 48 + b, 58, 48 + c, 48 + d] = [48 + a, 48 + b, 58, 48 + c, 48 + d]"
  using assms by (simp add: clean_time_def locale_ascii_def btrim_def drop_next_day_def rstrip_def ends_in_def
      chars_def ascii_upper_def Let_def)

lemma clean_clock12:
  assumes "locale_ascii L" "list_all (\<lambda>r. r < 10) ds" "ds \<noteq> []" "length ds \<le> 2" "c < 10" "d < 10" "x = 65 \<or> x = 80"
  shows "clean_time L (map ((+) 48) ds @ [58, 48 + c, 48 + d, 32, x, 77]) = map ((+) 48) ds @ [58, 48 + c, 48 + d, 32, x, 77]"
proof -
  consider a where "ds = [a]" "a < 10" | a b where "ds = [a, b]" "a < 10" "b < 10"
    using assms(2-4) by (cases ds; cases "tl ds"; cases "tl (tl ds)") auto
  then show ?thesis
    using assms(1,5-7) by cases (auto simp: clean_time_def locale_ascii_def btrim_def drop_next_day_def rstrip_def
        ends_in_def chars_def ascii_upper_def Let_def)
qed

lemma digits_value_two: "a < 10 \<Longrightarrow> b < 10 \<Longrightarrow> digits_value [48 + a, 48 + b] = 10 * a + b"
  by (simp add: digits_value_def)

lemma take_digits:
  assumes "list_all (\<lambda>r. r < 10) ds"
  shows "takeWhile digit (map ((+) 48) ds @ 58 # rest) = map ((+) 48) ds"
    "dropWhile digit (map ((+) 48) ds @ 58 # rest) = 58 # rest"
  using assms by (induction ds) (simp_all add: digit_def)

lemma match12_clock:
  assumes "locale_ascii L" "list_all (\<lambda>r. r < 10) ds" "length ds = 1 \<or> length ds = 2" "c < 10" "d < 10" "x = 65 \<or> x = 80"
  shows "match12 (lcSpace L) (map ((+) 48) ds @ [58, 48 + c, 48 + d, 32, x, 77]) =
    Some (digits_value (map ((+) 48) ds), Some (10 * c + d), x = 80)"
proof -
  have "digit (48 + c)" "digit (48 + d)" using assms(4,5) by (simp_all add: digit_def)
  moreover have "lcSpace L 32" "\<not> lcSpace L 65" "\<not> lcSpace L 80" using locale_ascii_space[OF assms(1)] by auto
  ultimately show ?thesis
    using assms(3-6) unfolding match12_def Let_def take_digits[OF assms(2)]
    by (auto simp: digits_value_two chars_def)
qed

lemma match24_clock:
  assumes "a < 10" "b < 10" "c < 10" "d < 10"
  shows "match12 sp [48 + a, 48 + b, 58, 48 + c, 48 + d] = None"
    "match24 [48 + a, 48 + b, 58, 48 + c, 48 + d] = Some (10 * a + b, 10 * c + d)"
proof -
  have "digit (48 + a)" "digit (48 + b)" "digit (48 + c)" "digit (48 + d)" using assms by (simp_all add: digit_def)
  with assms show "match12 sp [48 + a, 48 + b, 58, 48 + c, 48 + d] = None"
    "match24 [48 + a, 48 + b, 58, 48 + c, 48 + d] = Some (10 * a + b, 10 * c + d)"
    by (simp_all add: match12_def match24_def chars_def digits_value_two digit_def[of 58] Let_def)
qed

lemma parse_time_clocks:
  assumes "locale_ascii L" "h < 24" "m < 60"
  shows "lemon_parse_time L (Some (clock24 h m)) = Some (make_time h m) \<and>
    lemon_parse_time L (Some (clock12 h m)) = Some (make_time h m)"
proof
  have m: "m div 10 < 10" "m mod 10 < 10" "10 * (m div 10) + m mod 10 = m" using assms(3) by auto
  have h: "h div 10 < 10" "h mod 10 < 10" "10 * (h div 10) + h mod 10 = h" using assms(2) by auto
  have c24: "clock24 h m = [48 + h div 10, 48 + h mod 10, 58, 48 + m div 10, 48 + m mod 10]"
    by (simp add: clock24_def two_digits_def)
  note match = match24_clock[OF h(1,2) m(1,2)]
  show "lemon_parse_time L (Some (clock24 h m)) = Some (make_time h m)"
    using clean_clock24[OF assms(1) h(1,2) m(1,2)] assms(2,3) match(1) match(2)[unfolded h(3) m(3)]
    by (simp only: lemon_parse_time_def c24 Let_def option.case prod.case) simp
next
  have m: "m div 10 < 10" "m mod 10 < 10" "10 * (m div 10) + m mod 10 = m" using assms(3) by auto
  define k where "k = (if h mod 12 = 0 then 12 else h mod 12)"
  have k: "1 \<le> k" "k \<le> 12" unfolding k_def by (auto simp: less_eq_Suc_le[symmetric] le_simps(1) less_imp_le)
  define ds where "ds = (if k < 10 then [k] else [k div 10, k mod 10])"
  have ds: "list_all (\<lambda>r. r < 10) ds" "length ds = 1 \<or> length ds = 2" "ds \<noteq> []" "length ds \<le> 2"
    "map ((+) 48) ds = decimal_digits k" using k by (auto simp: ds_def decimal_digits_def)
  have v: "digits_value (map ((+) 48) ds) = k" using k by (auto simp: ds_def digits_value_def)
  define x where "x = (if h < 12 then 65 else (80::nat))"
  have c12: "clock12 h m = map ((+) 48) ds @ [58, 48 + m div 10, 48 + m mod 10, 32, x, 77]"
    by (simp add: clock12_def two_digits_def ds(5) k_def[symmetric] x_def chars_def)
  have x: "x = 65 \<or> x = 80" by (simp add: x_def)
  have h: "(if x \<noteq> 80 then (if k = 12 then 0 else k) else if k \<noteq> 12 then k + 12 else k) = h"
    using assms(2) by (auto simp: x_def k_def split: if_splits) presburger+
  show "lemon_parse_time L (Some (clock12 h m)) = Some (make_time h m)"
    using clean_clock12[OF assms(1) ds(1,3,4) m(1,2) x] match12_clock[OF assms(1) ds(1,2) m(1,2) x] k h assms(2,3) m(3)
    by (simp add: lemon_parse_time_def c12 v Let_def)
qed

text \<open>C40. Every minute of the day is read back, from the 24-hour clock and from the 12-hour clock with
  its \<open>AM\<close> and \<open>PM\<close>, noon and midnight included.\<close>

theorem parse_time_roundtrip:
  assumes "locale_ascii L" "h < 24" "m < 60"
  shows "lemon_parse_time L (Some (clock24 h m)) = Some (make_time h m) \<and>
    lemon_parse_time L (Some (clock12 h m)) = Some (make_time h m)"
  using assms by (rule parse_time_clocks)

theorem parse_time_roundtrip_witness:
  "\<exists>L. locale_ascii L \<and> lemon_parse_time L (Some (clock12 12 0)) = Some (make_time 12 0)"
proof -
  define L where "L = \<lparr>lcUpper = map ascii_upper, lcLower = id, lcSpace = is_space, lcBoolean = (\<lambda>_. None)\<rparr>"
  have "locale_ascii L" by (auto simp: L_def locale_ascii_def is_space_def)
  then show ?thesis using parse_time_roundtrip[of L 12 0] by auto
qed

section \<open>What the status means\<close>

text \<open>The hours of a day as a set of instants, \<open>None\<close> when they are not known; the error of the boolean
  cast is outside.\<close>

definition entry_hours :: "pg_locale \<Rightarrow> jsonb \<Rightarrow> int set option option" where
  "entry_hours L entry =
     map_option (\<lambda>closed. if closed then Some {}
       else Option.bind (lemon_parse_time L (jsonb_field_text entry (chars ''open''))) (\<lambda>op.
            Option.bind (lemon_parse_time L (jsonb_field_text entry (chars ''close''))) (\<lambda>cl. Some (open_today op cl))))
     (case jsonb_field_text entry (chars ''closed'') of None \<Rightarrow> Some False | Some t \<Rightarrow> lcBoolean L t)"

definition day_hours :: "pg_locale \<Rightarrow> jsonb option \<Rightarrow> nat \<Rightarrow> int set option option" where
  "day_hours L hours day =
     (case Option.bind hours (\<lambda>h. jsonb_field h (chars (day_names ! day))) of
        None \<Rightarrow> Some None
      | Some entry \<Rightarrow> if jsonb_is_object entry then entry_hours L entry else Some None)"

definition status_at :: "int \<Rightarrow> int set option \<Rightarrow> open_status" where
  "status_at t hours =
     (case hours of None \<Rightarrow> \<lparr>osOpenNow = None, osOpensLater = False\<rparr>
      | Some S \<Rightarrow> \<lparr>osOpenNow = Some (t \<in> S), osOpensLater = t \<notin> S \<and> (\<exists>u \<in> S. t < u)\<rparr>)"

lemma interval_status_at:
  assumes "0 \<le> op" "op < day_end" "0 \<le> t" "t < day_end" "cl < day_end"
  shows "interval_status op cl t = status_at t (Some (open_today op cl))"
proof (cases "t \<in> open_today op cl")
  case True
  with assms show ?thesis by (auto simp: interval_status_def status_at_def open_today_def split: if_splits)
next
  case False
  from open_today_later[OF assms(1,2,5) False assms(3)] False assms show ?thesis
    by (auto simp: interval_status_def status_at_def) (auto simp: open_today_def split: if_splits)
qed

lemma status_at_simps:
  "status_at t None = \<lparr>osOpenNow = None, osOpensLater = False\<rparr>"
  "status_at t (Some {}) = \<lparr>osOpenNow = Some False, osOpensLater = False\<rparr>"
  by (simp_all add: status_at_def)

lemma entry_status_hours:
  assumes "0 \<le> t" "t < day_end"
  shows "entry_status L entry t = map_option (status_at t) (entry_hours L entry)"
  using assms lemon_parse_time_range[of L "jsonb_field_text entry (chars ''open'')"]
    lemon_parse_time_range[of L "jsonb_field_text entry (chars ''close'')"]
  unfolding entry_status_def entry_hours_def
  by (auto simp: status_at_simps interval_status_at split: option.split)

lemma not_object_field: "\<not> jsonb_is_object h \<Longrightarrow> jsonb_field h k = None"
  by (cases h) simp_all


text \<open>A bar that is open from five in the afternoon until two at night: at one in the morning it is
  reported closed and opening later, since the interval of the day before is not looked at.\<close>

definition c_locale :: pg_locale where
  "c_locale = \<lparr>lcUpper = map ascii_upper, lcLower = map (\<lambda>r. if 65 \<le> r \<and> r \<le> 90 then r + 32 else r),
     lcSpace = is_space,
     lcBoolean = (\<lambda>t. if t = chars ''true'' then Some True else if t = chars ''false'' then Some False else None)\<rparr>"

definition bar_hours :: jsonb where
  "bar_hours = JObject [] [(chars ''friday'', JObject [] [(chars ''open'', JString (clock12 17 0)), (chars ''close'', JString (clock12 2 0))])]"

lemma c_locale_ascii: "locale_ascii c_locale"
  by (auto simp: c_locale_def locale_ascii_def is_space_def)


text \<open>A day whose \<open>closed\<close> is no boolean text is not "unknown": the cast raises.\<close>

theorem refused_cast_raises:
  assumes "jsonb_is_object h" "jsonb_field h (chars (day_names ! tsDay ts)) = Some entry" "jsonb_is_object entry"
    and "jsonb_field_text entry (chars ''closed'') = Some t" "lcBoolean L t = None"
  shows "lemon_open_status L (Some h) ts = None"
  using assms by (simp add: lemon_open_status_def entry_status_def)

text \<open>Otherwise the status is defined, on every day of the week.\<close>

definition casts_ok :: "pg_locale \<Rightarrow> jsonb option \<Rightarrow> bool" where
  "casts_ok L hours \<longleftrightarrow> list_all (\<lambda>day. case Option.bind hours (\<lambda>h. jsonb_field h (chars (day_names ! day))) of
     None \<Rightarrow> True | Some entry \<Rightarrow> (case jsonb_field_text entry (chars ''closed'') of
       None \<Rightarrow> True | Some t \<Rightarrow> lcBoolean L t \<noteq> None)) [0..<7]"

lemma casts_ok_status:
  assumes "casts_ok L hours" "tsDay ts < 7"
  shows "lemon_open_status L hours ts \<noteq> None"
proof -
  have "tsDay ts \<in> set [0..<7]" using assms(2) by simp
  with assms(1) have "case Option.bind hours (\<lambda>h. jsonb_field h (chars (day_names ! tsDay ts))) of
     None \<Rightarrow> True | Some entry \<Rightarrow> (case jsonb_field_text entry (chars ''closed'') of
       None \<Rightarrow> True | Some t \<Rightarrow> lcBoolean L t \<noteq> None)"
    unfolding casts_ok_def list_all_iff by blast
  then show ?thesis
    by (auto simp: lemon_open_status_def entry_status_def Let_def split: option.splits)
qed

end
