(* ===== verification/Edit_Distance.thy ===== *)
theory Edit_Distance
  imports Float64 Go_Strings
begin

text \<open>
  The fuzzy name match of the bench's search-engine adapter (\<open>cmd/bench-runner/meili.go\<close>):
  \<open>levenshtein\<close> with its two rolling rows, the tolerance by word length and the token
  coverage. The dynamic program is equal to a recursive distance, and that to the least number
  of single-rune edits; words are compared rune by rune.
\<close>

section \<open>The dynamic program\<close>

definition min3 :: "nat \<Rightarrow> nat \<Rightarrow> nat \<Rightarrow> nat" where
  "min3 a b c =
     (let m = a; m = (if b < m then b else m); m = (if c < m then c else m) in m)"

text \<open>The two loops over the indices \<open>j\<close> and \<open>i\<close>; \<open>cur\<close> is the fresh zero row.\<close>

function cell_loop :: "nat \<Rightarrow> nat list \<Rightarrow> nat list \<Rightarrow> nat \<Rightarrow> nat list \<Rightarrow> nat list" where
  "cell_loop r rb prev j cur =
     (if j \<le> length rb then
        (let cost = (if r = rb ! (j - 1) then 0 else 1) in
         cell_loop r rb prev (j + 1) (cur[j := min3 (prev ! j + 1) (cur ! (j - 1) + 1) (prev ! (j - 1) + cost)]))
      else cur)"
  by pat_completeness auto
termination
  by (relation "measure (\<lambda>(r, rb, prev, j, cur). Suc (length rb) - j)") auto

function row_loop :: "nat list \<Rightarrow> nat list \<Rightarrow> nat \<Rightarrow> nat list \<Rightarrow> nat list" where
  "row_loop ra rb i prev =
     (if i \<le> length ra then
        (let cur = (replicate (length rb + 1) 0)[0 := i] in
         row_loop ra rb (i + 1) (cell_loop (ra ! (i - 1)) rb prev 1 cur))
      else prev)"
  by pat_completeness auto
termination
  by (relation "measure (\<lambda>(ra, rb, i, prev). Suc (length ra) - i)") auto

declare cell_loop.simps [simp del] row_loop.simps [simp del]

definition levenshtein :: "string \<Rightarrow> string \<Rightarrow> nat" where
  "levenshtein a b =
     (let ra = runes a; rb = runes b in row_loop ra rb 1 [0..<length rb + 1] ! length rb)"

section \<open>Token coverage\<close>

definition editDivisor :: nat where "editDivisor = 4"
definition maxEditTol :: nat where "maxEditTol = 4"

definition tol :: "string \<Rightarrow> nat" where
  "tol w =
     (let t = (length (runes w) + editDivisor - 1) div editDivisor in
      if t < 1 then 1 else if t > maxEditTol then maxEditTol else t)"

fun min_loop :: "string \<Rightarrow> nat \<Rightarrow> string list \<Rightarrow> nat" where
  "min_loop w best [] = best"
| "min_loop w best (a # as) =
     (let d = levenshtein w a in min_loop w (if d < best then d else best) as)"

definition minLev :: "string \<Rightarrow> string list \<Rightarrow> nat" where
  "minLev w against = min_loop w (length w + 64) against"

text \<open>\<open>int(math.Ceil(x))\<close> of a finite value.\<close>

fun f_ceil :: "f64 \<Rightarrow> int" where
  "f_ceil (Fin x) = \<lceil>x\<rceil>"
| "f_ceil _ = 0"

definition coverageTokenFrac :: f64 where "coverageTokenFrac = f_const (8/10)"

fun count_matched :: "string list \<Rightarrow> string list \<Rightarrow> nat \<Rightarrow> nat" where
  "count_matched qt [] matched = matched"
| "count_matched qt (n # nt) matched =
     count_matched qt nt (if minLev n qt \<le> tol n then matched + 1 else matched)"

definition coverageMatch :: "unicode \<Rightarrow> string \<Rightarrow> string \<Rightarrow> f64" where
  "coverageMatch U q name =
     (let qt = fields (to_lower U q); nt = fields (to_lower U name) in
      if length qt = 0 \<or> length nt = 0 then Fin 0
      else if int (length qt) < f_ceil (f_mul coverageTokenFrac (f_of_int (int (length nt)))) then Fin 0
      else if \<not> list_all (\<lambda>qq. \<not> minLev qq nt > tol qq) qt then Fin 0
      else f_div (f_of_int (int (count_matched qt nt 0))) (f_of_int (int (length nt))))"

section \<open>The distance it computes\<close>

text \<open>The reference recursion, on the first runes.\<close>

fun lev :: "'a list \<Rightarrow> 'a list \<Rightarrow> nat" where
  "lev [] ys = length ys"
| "lev (x # xs) [] = Suc (length xs)"
| "lev (x # xs) (y # ys) =
     min3 (lev xs (y # ys) + 1) (lev (x # xs) ys + 1) (lev xs ys + (if x = y then 0 else 1))"

lemma lev_Nil [simp]: "lev xs [] = length xs"
  by (cases xs) simp_all

lemma min3_min: "min3 a b c = min a (min b c)"
  by (simp add: min3_def Let_def)

lemma min3_le: "min3 a b c \<le> a" "min3 a b c \<le> b" "min3 a b c \<le> c"
  by (simp_all add: min3_min)

lemma min3_cases: "min3 a b c = a \<or> min3 a b c = b \<or> min3 a b c = c"
  by (auto simp: min3_min min_def)

text \<open>Cell \<open>(i, j)\<close> holds the distance of the two prefixes, read backwards.\<close>

definition prefix_dist :: "'a list \<Rightarrow> 'a list \<Rightarrow> nat \<Rightarrow> nat \<Rightarrow> nat" where
  "prefix_dist ra rb i j = lev (rev (take i ra)) (rev (take j rb))"

lemma prefix_dist_0: "i \<le> length ra \<Longrightarrow> prefix_dist ra rb i 0 = i" "j \<le> length rb \<Longrightarrow> prefix_dist ra rb 0 j = j"
  by (simp_all add: prefix_dist_def)

lemma prefix_dist_Suc:
  assumes "i < length ra" "j < length rb"
  shows "prefix_dist ra rb (Suc i) (Suc j) =
    min3 (prefix_dist ra rb i (Suc j) + 1) (prefix_dist ra rb (Suc i) j + 1)
      (prefix_dist ra rb i j + (if ra ! i = rb ! j then 0 else 1))"
  using assms by (simp add: prefix_dist_def take_Suc_conv_app_nth)

definition dist_row :: "nat list \<Rightarrow> nat list \<Rightarrow> nat \<Rightarrow> nat list" where
  "dist_row ra rb i = map (prefix_dist ra rb i) [0..<Suc (length rb)]"

lemma dist_row_nth: "j \<le> length rb \<Longrightarrow> dist_row ra rb i ! j = prefix_dist ra rb i j"
  unfolding dist_row_def by (subst nth_map) (simp_all del: upt_Suc)

lemma cell_loop_row:
  assumes "i < length ra" "prev = dist_row ra rb i" "1 \<le> j" "length cur = Suc (length rb)"
    and "\<forall>k < j. k \<le> length rb \<longrightarrow> cur ! k = prefix_dist ra rb (Suc i) k"
  shows "cell_loop (ra ! i) rb prev j cur = dist_row ra rb (Suc i)"
  using assms
proof (induction "ra ! i" rb prev j cur rule: cell_loop.induct)
  case (1 rb prev j cur)
  show ?case
  proof (cases "j \<le> length rb")
    case True
    from "1.prems"(3) obtain k where j: "j = Suc k" by (cases j) auto
    let ?c = "min3 (prev ! j + 1) (cur ! (j - 1) + 1) (prev ! (j - 1) + (if ra ! i = rb ! (j - 1) then 0 else 1))"
    have "?c = prefix_dist ra rb (Suc i) j"
      using "1.prems" True j by (simp add: prefix_dist_Suc dist_row_nth)
    moreover have "j < length cur" using "1.prems"(4) True by simp
    ultimately have "cell_loop (ra ! i) rb prev (j + 1) (cur[j := ?c]) = dist_row ra rb (Suc i)"
      using "1.prems" True by (intro "1.hyps") (auto simp: nth_list_update less_Suc_eq)
    with True show ?thesis by (subst cell_loop.simps) (simp add: Let_def)
  next
    case False
    have "cur = dist_row ra rb (Suc i)"
    proof (rule nth_equalityI)
      show "length cur = length (dist_row ra rb (Suc i))" using "1.prems" by (simp add: dist_row_def del: upt_Suc)
    next
      fix k assume "k < length cur"
      with False "1.prems" show "cur ! k = dist_row ra rb (Suc i) ! k" by (simp add: dist_row_nth)
    qed
    with False show ?thesis by (subst cell_loop.simps) simp
  qed
qed

lemma row_loop_last:
  assumes "prev = dist_row ra rb (i - 1)" "1 \<le> i" "i \<le> Suc (length ra)"
  shows "row_loop ra rb i prev = dist_row ra rb (length ra)"
  using assms
proof (induction ra rb i prev rule: row_loop.induct)
  case (1 ra rb i prev)
  show ?case
  proof (cases "i \<le> length ra")
    case True
    then obtain k where i: "i = Suc k" "k < length ra" using "1.prems"(2) by (cases i) auto
    have "cell_loop (ra ! (i - 1)) rb prev 1 ((replicate (length rb + 1) 0)[0 := i]) = dist_row ra rb i"
      using cell_loop_row[of k ra prev rb 1 "(replicate (length rb + 1) 0)[0 := i]"] "1.prems" i
      by (simp add: prefix_dist_0)
    with 1 True show ?thesis by (subst row_loop.simps) (simp add: Let_def)
  next
    case False
    with "1.prems" have "i - 1 = length ra" by simp
    with False "1.prems"(1) show ?thesis by (subst row_loop.simps) simp
  qed
qed

lemma levenshtein_lev: "levenshtein a b = lev (rev (runes a)) (rev (runes b))"
proof -
  have "[0..<length (runes b) + 1] = dist_row (runes a) (runes b) 0"
    by (rule nth_equalityI) (simp_all add: dist_row_nth prefix_dist_0 dist_row_def[THEN arg_cong[of _ _ length]] del: upt_Suc)
  then have "row_loop (runes a) (runes b) 1 [0..<length (runes b) + 1] = dist_row (runes a) (runes b) (length (runes a))"
    by (intro row_loop_last) simp_all
  then show ?thesis by (simp add: levenshtein_def Let_def dist_row_nth prefix_dist_def)
qed


section \<open>Least number of edits\<close>

inductive edit1 :: "'a list \<Rightarrow> 'a list \<Rightarrow> bool" where
  insert: "edit1 (us @ vs) (us @ c # vs)"
| delete: "edit1 (us @ c # vs) (us @ vs)"
| substitute: "edit1 (us @ c # vs) (us @ d # vs)"

lemma edit1_Cons: "edit1 xs ys \<Longrightarrow> edit1 (z # xs) (z # ys)"
  by (induction rule: edit1.induct) (metis append_Cons edit1.intros)+

lemma edit1_rev: "edit1 xs ys \<Longrightarrow> edit1 (rev xs) (rev ys)"
proof (induction rule: edit1.induct)
  case (insert us vs c)
  show ?case using edit1.insert[of "rev vs" "rev us" c] by simp
next
  case (delete us c vs)
  show ?case using edit1.delete[of "rev vs" c "rev us"] by simp
next
  case (substitute us c vs d)
  show ?case using edit1.substitute[of "rev vs" c "rev us" d] by simp
qed

lemma edits_Cons: "(edit1 ^^ n) xs ys \<Longrightarrow> (edit1 ^^ n) (z # xs) (z # ys)"
  by (induction n arbitrary: ys) (auto intro: edit1_Cons)

lemma edits_rev: "(edit1 ^^ n) xs ys \<Longrightarrow> (edit1 ^^ n) (rev xs) (rev ys)"
  by (induction n arbitrary: ys) (auto intro: edit1_rev)

text \<open>As many edits as the recursion counts are enough.\<close>

lemma edits_from_Nil: "(edit1 ^^ length ys) [] ys"
proof (induction ys)
  case (Cons y ys)
  then have "(edit1 ^^ length ys) [y] (y # ys)" by (rule edits_Cons)
  moreover have "edit1 [] [y]" using edit1.insert[of "[]" "[]"] by simp
  ultimately have "(edit1 ^^ Suc (length ys)) [] (y # ys)" by (rule relpowp_Suc_I2[rotated])
  then show ?case by simp
qed simp

lemma edits_to_Nil: "(edit1 ^^ length xs) xs []"
proof (induction xs)
  case (Cons x xs)
  moreover have "edit1 (x # xs) xs" using edit1.delete[of "[]"] by simp
  ultimately have "(edit1 ^^ Suc (length xs)) (x # xs) []" by (rule relpowp_Suc_I2[rotated])
  then show ?case by simp
qed simp

lemma lev_edits: "(edit1 ^^ lev xs ys) xs ys"
proof (induction xs ys rule: lev.induct)
  case (1 ys)
  show ?case using edits_from_Nil by simp
next
  case (2 x xs)
  show ?case using edits_to_Nil[of "x # xs"] by simp
next
  case (3 x xs y ys)
  let ?a = "lev xs (y # ys) + 1" and ?b = "lev (x # xs) ys + 1" and ?c = "lev xs ys + (if x = y then 0 else 1)"
  have a: "(edit1 ^^ ?a) (x # xs) (y # ys)"
    using relpowp_Suc_I2[OF edit1.delete[of "[]" x xs, simplified] "3.IH"(1)] by simp
  have b: "(edit1 ^^ ?b) (x # xs) (y # ys)"
    using relpowp_Suc_I[OF "3.IH"(2) edit1.insert[of "[]" ys y, simplified]] by simp
  have c: "(edit1 ^^ ?c) (x # xs) (y # ys)"
  proof (cases "x = y")
    case False
    have "edit1 (x # xs) (y # xs)" using edit1.substitute[of "[]" x xs y] by simp
    from relpowp_Suc_I2[OF this edits_Cons[OF "3.IH"(3), of y]] False show ?thesis by simp
  qed (use edits_Cons[OF "3.IH"(3), of y] in simp)
  show ?case unfolding lev.simps using min3_cases[of ?a ?b ?c] a b c by auto
qed

text \<open>And no fewer: one edit moves the count by at most one.\<close>

lemma lev_drop: "lev xs (y # ys) \<le> lev xs ys + 1"
  by (cases xs) (simp_all add: min3_min)

lemma lev_tail: "lev xs ys \<le> lev xs (y # ys) + 1"
proof (induction xs)
  case (Cons x xs)
  have "lev (x # xs) ys \<le> lev xs ys + 1" by (cases ys) (simp_all add: min3_min)
  with Cons show ?case by (auto simp: min3_min min_def)
qed simp

lemma lev_head: "lev xs (d # ys) \<le> lev xs (c # ys) + 1"
  by (induction xs) (auto simp: min3_min min_def)

lemma lev_context:
  assumes "\<And>xs. lev xs ws' \<le> lev xs ws + 1"
  shows "lev xs (us @ ws') \<le> lev xs (us @ ws) + 1"
proof (induction us arbitrary: xs)
  case (Cons u us)
  note IH = this
  show ?case
  proof (induction xs)
    case Nil
    show ?case using assms[of "[]"] by simp
  next
    case (Cons x xs)
    from Cons IH[of "x # xs"] IH[of xs] show ?case by (auto simp: min3_min min_def)
  qed
qed (use assms in simp)

lemma lev_edit1: "edit1 ys zs \<Longrightarrow> lev xs zs \<le> lev xs ys + 1"
  by (induction rule: edit1.induct) (auto intro!: lev_context[simplified] lev_drop[simplified] lev_tail[simplified] lev_head[simplified])

lemma lev_same [simp]: "lev xs xs = 0"
  by (induction xs) (simp_all add: min3_min)

lemma lev_le_edits: "(edit1 ^^ n) xs ys \<Longrightarrow> lev xs ys \<le> n"
proof (induction n arbitrary: ys)
  case (Suc n)
  then obtain zs where "(edit1 ^^ n) xs zs" "edit1 zs ys" by auto
  with Suc.IH[of zs] lev_edit1[of zs ys xs] show ?case by simp
qed simp

lemma lev_one: "edit1 xs ys \<Longrightarrow> lev xs ys \<le> 1"
  using lev_edit1[of xs ys xs] by simp

lemma lev_two: "edit1 xs ys \<Longrightarrow> edit1 ys zs \<Longrightarrow> lev xs zs \<le> 2"
  using lev_edit1[of ys zs xs] lev_one[of xs ys] by simp

lemma lev_rev: "lev (rev xs) (rev ys) = lev xs ys"
proof (rule antisym)
  show "lev (rev xs) (rev ys) \<le> lev xs ys" by (rule lev_le_edits[OF edits_rev[OF lev_edits]])
  show "lev xs ys \<le> lev (rev xs) (rev ys)"
    using lev_le_edits[OF edits_rev[OF lev_edits, of "rev xs" "rev ys"]] by simp
qed

lemma levenshtein_eq: "levenshtein a b = lev (runes a) (runes b)"
  by (simp add: levenshtein_lev lev_rev)

text \<open>C17. The dynamic program over two rows computes the edit distance: the second
  string is reached from the first by that many insertions, deletions and replacements of one rune,
  and by no fewer.\<close>

theorem levenshtein_least:
  "(edit1 ^^ levenshtein a b) (runes a) (runes b) \<and>
   {n. (edit1 ^^ n) (runes a) (runes b)} \<subseteq> {levenshtein a b ..}"
  by (auto simp: levenshtein_eq lev_edits lev_le_edits)

lemma edit1_sym: "edit1 xs ys \<Longrightarrow> edit1 ys xs"
  by (induction rule: edit1.induct) (rule edit1.intros)+

lemma edits_sym: "(edit1 ^^ n) xs ys \<Longrightarrow> (edit1 ^^ n) ys xs"
proof (induction n arbitrary: ys)
  case (Suc n)
  then obtain zs where "(edit1 ^^ n) zs xs" "edit1 ys zs" by (auto dest: edit1_sym)
  then show ?case by (rule relpowp_Suc_I2[rotated])
qed simp

lemma lev_sym: "lev xs ys = lev ys xs"
  by (intro antisym lev_le_edits edits_sym[OF lev_edits])

lemma lev_triangle: "lev xs zs \<le> lev xs ys + lev ys zs"
  by (rule lev_le_edits) (metis lev_edits relpowp_add relcomppI)

lemma edit1_length: "edit1 xs ys \<Longrightarrow> length ys \<le> length xs + 1"
  by (induction rule: edit1.induct) simp_all

lemma edits_length: "(edit1 ^^ n) xs ys \<Longrightarrow> length ys \<le> length xs + n"
proof (induction n arbitrary: ys)
  case (Suc n)
  then obtain zs where "(edit1 ^^ n) xs zs" "edit1 zs ys" by auto
  with Suc.IH[of zs] edit1_length[of zs ys] show ?case by simp
qed simp


section \<open>Coverage\<close>

lemma tol_bounds: "1 \<le> tol w" "tol w \<le> 4"
  by (simp_all add: tol_def maxEditTol_def Let_def)

lemma min_loop_eq: "min_loop w best as = Min (insert best (set (map (levenshtein w) as)))"
proof (induction w best as rule: min_loop.induct)
  case (2 w best a as)
  have "Min (insert (min best (levenshtein w a)) (levenshtein w ` set as)) =
      Min (insert best (insert (levenshtein w a) (levenshtein w ` set as)))"
    by (cases "as = []") (simp_all add: Min_insert min.assoc)
  with 2 show ?case by (auto simp: Let_def min_def)
qed simp

lemma minLev_close: "minLev w as \<le> tol v \<longleftrightarrow> list_ex (\<lambda>a. levenshtein w a \<le> tol v) as"
proof -
  have "minLev w as \<le> tol v \<longleftrightarrow> (\<exists>m \<in> insert (length w + 64) (set (map (levenshtein w) as)). m \<le> tol v)"
    unfolding minLev_def min_loop_eq by (subst Min_le_iff) auto
  then show ?thesis using tol_bounds(2)[of v] by (auto simp: list_ex_iff)
qed

lemma count_matched_eq: "count_matched qt nt k = k + length (filter (\<lambda>n. minLev n qt \<le> tol n) nt)"
  by (induction qt nt k rule: count_matched.induct) auto

text \<open>What the match promises: a share of the name's words, each close to a word of the query, with every
  word of the query close to a word of the name.\<close>

definition close_to :: "string list \<Rightarrow> string \<Rightarrow> bool" where
  "close_to ws w \<longleftrightarrow> list_ex (\<lambda>v. levenshtein w v \<le> tol w) ws"

lemma minLev_close_to: "minLev w as \<le> tol w \<longleftrightarrow> close_to as w"
  by (simp add: minLev_close close_to_def)

lemma coverageMatch_eq:
  "coverageMatch U q name =
     (let qt = Go_Strings.fields (to_lower U q); nt = Go_Strings.fields (to_lower U name) in
      if qt = [] \<or> nt = [] \<or> int (length qt) < f_ceil (f_mul coverageTokenFrac (f_of_int (int (length nt)))) \<or>
         \<not> list_all (close_to nt) qt then Fin 0
      else f_div (f_of_int (int (length (filter (close_to qt) nt)))) (f_of_int (int (length nt))))"
  by (auto simp: coverageMatch_def Let_def count_matched_eq minLev_close_to not_less list_all_iff)

text \<open>A quotient of two counts.\<close>

lemma f_of_int_pos: "0 < n \<Longrightarrow> f_of_int n = PInf \<or> (\<exists>x \<ge> 1. f_of_int n = Fin x)"
proof -
  assume n: "0 < n"
  then have "f_le (Fin 1) (f_of_int n)" using f_of_int_mono[of 1 n] by (simp add: f_of_int_def)
  then show ?thesis by (cases "f_of_int n") auto
qed

lemma count_ratio_unit:
  assumes "0 \<le> m" "m \<le> n" "n < 2 ^ 53" "0 < n"
  shows "unit_f (f_div (f_of_int m) (f_of_int n))"
proof -
  have "f_of_int m = Fin (of_int m)" "f_of_int n = Fin (of_int n)" using assms by (simp_all add: f_of_int_small)
  with assms show ?thesis by (simp add: fround_unit)
qed

end
