(* ===== verification/Sql_Match.thy ===== *)
theory Sql_Match
  imports Sql_Hours Edit_Distance
begin

text \<open>
  The name match of the database: \<open>lemon_name_match\<close> (\<open>supabase/migrations/0003_name_match.sql\<close>) and
  \<open>lemon_prefix_match\<close> (\<open>0010_prefix_name_match.sql\<close>). \<open>levenshtein\<close> of the extension fuzzystrmatch is a
  parameter that may raise: it refuses arguments of more than 255 characters. The bench's
  \<open>coverageMatch\<close> calls itself a mirror of the first; that is proved, word splitting, tolerance and
  floating point included.
\<close>

type_synonym pg_lev = "pg_text \<Rightarrow> pg_text \<Rightarrow> nat option"

section \<open>The functions\<close>

text \<open>\<open>regexp_split_to_array(s, '\s+')\<close>: a separator at either end leaves an empty word there.\<close>

function split_ws :: "(nat \<Rightarrow> bool) \<Rightarrow> pg_text \<Rightarrow> pg_text \<Rightarrow> pg_text list" where
  "split_ws sp [] acc = [acc]"
| "split_ws sp (r # rs) acc =
     (if sp r then acc # split_ws sp (dropWhile sp rs) [] else split_ws sp rs (acc @ [r]))"
  by pat_completeness auto
termination
  by (relation "measure (\<lambda>(sp, rs, acc). length rs)") (auto simp: le_imp_less_Suc length_dropWhile_le)

definition pg_words :: "pg_locale \<Rightarrow> pg_text \<Rightarrow> pg_text list" where
  "pg_words L s = split_ws (lcSpace L) (btrim (lcLower L s)) []"

text \<open>\<open>greatest(1, least(4, ceil(char_length(w) / 4.0)::int))\<close>\<close>

definition pg_tol :: "pg_text \<Rightarrow> int" where
  "pg_tol w = max 1 (min 4 \<lceil>of_nat (length w) / (4 :: rat)\<rceil>)"

text \<open>The inner loop \<open>best := least(best, levenshtein(...))\<close>.\<close>

fun best_lev :: "pg_lev \<Rightarrow> pg_text \<Rightarrow> nat \<Rightarrow> pg_text list \<Rightarrow> nat option" where
  "best_lev fz w best [] = Some best"
| "best_lev fz w best (v # vs) =
     (case fz w v of None \<Rightarrow> None | Some d \<Rightarrow> best_lev fz w (min best d) vs)"

text \<open>The outer loop: how many of the words have one of the others within tolerance.\<close>

fun matched_words :: "pg_lev \<Rightarrow> pg_text list \<Rightarrow> pg_text list \<Rightarrow> nat \<Rightarrow> nat option" where
  "matched_words fz [] others matched = Some matched"
| "matched_words fz (w # ws) others matched =
     (case best_lev fz w 1000 others of None \<Rightarrow> None
      | Some best \<Rightarrow> matched_words fz ws others (if int best \<le> pg_tol w then matched + 1 else matched))"

definition lemon_name_match :: "pg_locale \<Rightarrow> pg_lev \<Rightarrow> pg_text \<Rightarrow> pg_text \<Rightarrow> f64 option" where
  "lemon_name_match L fz q nm =
     (let qt = pg_words L q; nt = pg_words L nm; nq = length qt; nn = length nt in
      if nq = 0 \<or> nn = 0 then Some (Fin 0)
      else if int nq < \<lceil>(8 / 10 :: rat) * of_nat nn\<rceil> then Some (Fin 0)
      else (case matched_words fz nt qt 0 of None \<Rightarrow> None
        | Some matched_n \<Rightarrow>
            (case matched_words fz qt nt 0 of None \<Rightarrow> None
             | Some matched_q \<Rightarrow>
                 if matched_q < nq then Some (Fin 0)
                 else Some (f_div (f_of_int (int matched_n)) (f_of_int (int nn))))))"

text \<open>The loop \<open>for i in 1 .. nq\<close> that returns 0 at the first word out of tolerance.\<close>

fun prefix_loop :: "pg_lev \<Rightarrow> pg_text list \<Rightarrow> pg_text list \<Rightarrow> bool option" where
  "prefix_loop fz (w # ws) (v # vs) =
     (case fz w v of None \<Rightarrow> None
      | Some d \<Rightarrow> if int d > pg_tol w then Some False else prefix_loop fz ws vs)"
| "prefix_loop fz _ _ = Some True"

definition lemon_prefix_match :: "pg_locale \<Rightarrow> pg_lev \<Rightarrow> pg_text \<Rightarrow> pg_text \<Rightarrow> f64 option" where
  "lemon_prefix_match L fz q nm =
     (let qt = pg_words L q; nt = pg_words L nm; nq = length qt; nn = length nt in
      if nq < 2 \<or> nn < nq then Some (Fin 0)
      else map_option (\<lambda>ok. if ok then f_div (f_of_int (int nq)) (f_of_int (int nn)) else Fin 0) (prefix_loop fz qt nt))"

section \<open>Facts\<close>

text \<open>What fuzzystrmatch documents: up to 255 characters, the edit distance.\<close>

definition lev_documented :: "pg_lev \<Rightarrow> bool" where
  "lev_documented f \<longleftrightarrow> (\<forall>a b. length a \<le> 255 \<longrightarrow> length b \<le> 255 \<longrightarrow> f a b = Some (lev a b))"

definition short_words :: "pg_text list \<Rightarrow> bool" where
  "short_words ws \<longleftrightarrow> list_all (\<lambda>w. length w \<le> 255) ws"

lemma split_ws_nonempty [simp]: "split_ws sp rs acc \<noteq> []"
  by (induction sp rs acc rule: split_ws.induct) auto

lemma pg_words_nonempty [simp]: "pg_words L s \<noteq> []"
  by (simp add: pg_words_def)

lemma pg_tol_eq: "pg_tol w = (let t = (length w + 3) div 4 in if t < 1 then 1 else if 4 < t then 4 else int t)"
proof -
  have "\<lceil>of_nat n / (4 :: rat)\<rceil> = int ((n + 3) div 4)" for n :: nat
  proof -
    have "\<lceil>of_nat n / (4 :: rat)\<rceil> = - (- int n div 4)"
      using ceiling_divide_eq_div[where 'a = rat, of "int n" 4] by simp
    also have "\<dots> = int ((n + 3) div 4)" by presburger
    finally show ?thesis .
  qed
  then show ?thesis by (auto simp: pg_tol_def Let_def)
qed

lemma pg_tol_bounds: "1 \<le> pg_tol w" "pg_tol w \<le> 4"
  by (simp_all add: pg_tol_def)

section \<open>The word threshold\<close>

text \<open>0.8 as a double is a little more than 0.8; the product with a count is rounded back.\<close>

lemma fround_value: "rnd x = r \<Longrightarrow> r < overflow64 \<Longrightarrow> - overflow64 < r \<Longrightarrow> fround x = Fin r"
  by (simp add: fround_def Let_def)

lemma frac_value: "coverageTokenFrac = Fin (7205759403792794 / 2 ^ 53)"
proof -
  have "rnd ((8 / 10 * 2 ^ 53) / 2 ^ 53) = of_int (rne (8 / 10 * 2 ^ 53)) / 2 ^ 53"
    by (rule rnd_normal) simp_all
  moreover have "rne (8 / 10 * 2 ^ 53) = 7205759403792794"
  proof -
    have "\<lfloor>8 / 10 * 2 ^ 53 :: real\<rfloor> = 7205759403792793" by (simp add: floor_eq_iff)
    then show ?thesis by (simp add: rne_def Let_def)
  qed
  ultimately have r: "rnd (8 / 10) = 7205759403792794 / 2 ^ 53" by simp
  have "(7205759403792794 / 2 ^ 53 :: real) < overflow64" by (rule overflow64_gt) simp
  moreover have "0 < (7205759403792794 / 2 ^ 53 :: real)" by simp
  then have "- overflow64 < (7205759403792794 / 2 ^ 53 :: real)" using overflow64_pos by (meson less_trans neg_less_0_iff_less)
  ultimately show ?thesis unfolding coverageTokenFrac_def f_const_def by (intro fround_value r)
qed

lemma product_exact:
  assumes "0 < m" "m < 2 ^ 45"
  shows "rnd (7205759403792794 / 2 ^ 53 * real (5 * m)) = real (4 * m)"
proof -
  obtain e where e: "2 ^ e \<le> 4 * m" "4 * m < 2 ^ (e + 1)" using ex_power_ivl1[of 2 "4 * m"] assms(1) by auto
  have "(2::nat) ^ e < 2 ^ 47" using e(1) assms(2) by simp
  then have "e < 47" by (rule power_less_imp_less_exp[rotated]) simp
  define j where "j = 52 - e"
  have j: "j + e = 52" "j \<le> 1074" using \<open>e < 47\<close> by (simp_all add: j_def)
  define K where "K = 4 * m * 2 ^ j"
  have K: "2 ^ 52 \<le> K" "K < 2 ^ 53"
  proof -
    have "2 ^ e * 2 ^ j \<le> K" unfolding K_def using e(1) by (intro mult_right_mono) auto
    then show "2 ^ 52 \<le> K" using j(1) by (simp add: power_add[symmetric] add.commute)
    have "K < 2 ^ (e + 1) * 2 ^ j" unfolding K_def using e(2) by (intro mult_strict_right_mono) auto
    also have "(2::nat) ^ (e + 1) * 2 ^ j = 2 ^ 53" unfolding power_add[symmetric] using j(1) by (intro arg_cong[of _ _ "(^) 2"]) simp
    finally show "K < 2 ^ 53" .
  qed
  define t where "t = real K * (1 + 1 / 2 ^ 54)"
  have x: "7205759403792794 / 2 ^ 53 * real (5 * m) = t / 2 ^ j" by (simp add: t_def K_def)
  have Kr: "real K < 2 ^ 53" "2 ^ 52 \<le> real K" using K by (metis of_nat_less_iff of_nat_numeral of_nat_power, metis of_nat_le_iff of_nat_numeral of_nat_power)
  have "real K + 1 \<le> 2 ^ 53" using K(2) by (metis Suc_leI of_nat_Suc of_nat_le_iff of_nat_numeral of_nat_power add.commute)
  then have tb: "2 ^ 52 \<le> t" "t < 2 ^ 53" using Kr by (simp_all add: t_def field_simps)
  have "\<lfloor>t\<rfloor> = int K" using Kr by (simp add: t_def floor_eq_iff field_simps)
  moreover have "t - real K < 1 / 2" using Kr by (simp add: t_def field_simps)
  ultimately have "rne t = int K" by (simp add: rne_def Let_def)
  then show ?thesis unfolding x rnd_normal[OF tb j(2)] by (simp add: K_def)
qed

text \<open>So \<open>int(math.Ceil(0.8 * float64(n)))\<close> is the exact ceiling.\<close>

lemma threshold_exact:
  assumes "0 < n" "n < 2 ^ 45"
  shows "f_ceil (f_mul coverageTokenFrac (f_of_int (int n))) = \<lceil>(8 / 10 :: rat) * of_nat n\<rceil>"
proof -
  let ?x = "7205759403792794 / 2 ^ 53 * real n"
  define k where "k = \<lceil>(8 / 10 :: rat) * of_nat n\<rceil>"
  have k: "k = - (- (4 * int n) div 5)"
    unfolding k_def using ceiling_divide_eq_div[where 'a = rat, of "4 * int n" 5] by (simp add: field_simps)
  have kb: "4 * int n \<le> 5 * k" "5 * k \<le> 4 * int n + 4" "0 < k" unfolding k using assms(1) by linarith+
  have "int n < 2 ^ 45" using assms(2) by (metis of_nat_less_iff of_nat_numeral of_nat_power)
  then have kb4: "k < 2 ^ 46" using kb(2) by simp
  have nr: "real n < 2 ^ 45" using assms(2) by (metis of_nat_less_iff of_nat_numeral of_nat_power)
  have upper: "rnd ?x \<le> of_int k"
  proof (cases "5 * k = 4 * int n")
    case True
    then have "\<exists>m. int n = 5 * m" by presburger
    then obtain m where m: "int n = 5 * m" ..
    then have n: "n = 5 * nat m" "0 < nat m" "nat m < 2 ^ 45" using assms by auto
    have "rnd ?x = real (4 * nat m)" unfolding n(1) by (rule product_exact[OF n(2,3)])
    moreover have "k = 4 * m" using True m by simp
    ultimately show ?thesis using n(2) by simp
  next
    case False
    then have "4 * int n + 1 \<le> 5 * k" using kb(1) by linarith
    then have "real_of_int (4 * int n + 1) \<le> of_int (5 * k)" by (simp only: of_int_le_iff)
    then have "4 * real n + 1 \<le> 5 * of_int k" by simp
    then have "?x \<le> of_int k" using nr by (simp add: field_simps)
    from rnd_mono[OF this] show ?thesis using kb kb4 by (simp add: rnd_of_int)
  qed
  have "real_of_int (5 * k) \<le> of_int (4 * int n + 4)" using kb(2) by (simp only: of_int_le_iff)
  then have "4 * real n \<ge> 5 * of_int k - 4" by simp
  then have "of_int (8 * (k - 1) + 1) / 2 ^ 3 \<le> ?x" by (simp add: field_simps)
  from rnd_mono[OF this] have "of_int (8 * (k - 1) + 1) / 2 ^ 3 \<le> rnd ?x" using kb kb4 by (subst (asm) rnd_dyadic) simp_all
  then have lower: "of_int k - 1 < rnd ?x" by (simp add: field_simps)
  have "real_of_int k < of_int (2 ^ 46)" using kb4 by (simp only: of_int_less_iff)
  then have "rnd ?x \<le> 2 ^ 53" using upper by simp
  then have b: "rnd ?x < overflow64" by (rule overflow64_gt)
  have "0 < real_of_int k" using kb(3) by simp
  then have "- overflow64 < rnd ?x" using lower overflow64_gt[of 1] kb(3) by (simp add: int_one_le_iff_zero_less)
  note b = b this
  from b have "f_mul coverageTokenFrac (f_of_int (int n)) = Fin (rnd ?x)"
    using assms(2) by (simp add: frac_value f_of_int_small fround_value[OF refl b, simplified])
  moreover have "\<lceil>rnd ?x\<rceil> = k" using upper lower by (simp add: ceiling_eq_iff)
  ultimately show ?thesis by (simp add: k_def)
qed

section \<open>Words\<close>

lemma split_ws_cong:
  "list_all (\<lambda>r. sp r = sp' r) rs \<Longrightarrow> split_ws sp rs acc = split_ws sp' rs acc"
proof (induction sp rs acc rule: split_ws.induct)
  case (2 sp r rs acc)
  have "dropWhile sp rs = dropWhile sp' rs" using "2.prems" by (induction rs) auto
  moreover have "list_all (\<lambda>r. sp r = sp' r) (dropWhile sp rs)"
    using "2.prems" by (auto simp: list_all_iff dest: set_dropWhileD)
  ultimately show ?case using 2 by auto
qed simp

text \<open>Empty words come from separators at the ends only.\<close>

lemma split_ws_drop:
  "filter (\<lambda>w. w \<noteq> []) (split_ws sp (dropWhile sp rs) []) = filter (\<lambda>w. w \<noteq> []) (split_ws sp rs [])"
  by (cases rs) auto

lemma split_ws_inner:
  assumes "acc \<noteq> [] \<or> rs \<noteq> [] \<and> \<not> sp (hd rs)" "rs = [] \<or> \<not> sp (last rs)"
  shows "[] \<notin> set (split_ws sp rs acc)"
  using assms
proof (induction sp rs acc rule: split_ws.induct)
  case (2 sp r rs acc)
  show ?case
  proof (cases "sp r")
    case True
    with "2.prems" have "rs \<noteq> []" "\<not> sp (last rs)" "acc \<noteq> []" by (auto split: if_splits)
    then obtain a b where ab: "rs = a @ b" "b = dropWhile sp rs" "b \<noteq> []" "\<not> sp (hd b)"
      by (metis dropWhile_eq_Nil_conv hd_dropWhile last_in_set takeWhile_dropWhile_id)
    then have "\<not> sp (last b)" using \<open>\<not> sp (last rs)\<close> by (metis last_appendR)
    with True ab "2.IH"(1) \<open>acc \<noteq> []\<close> show ?thesis by simp
  next
    case False
    with "2.prems" "2.IH"(2) show ?thesis by (cases "rs = []") auto
  qed
qed simp

text \<open>\<open>strings.Fields\<close> on the runes: the nonempty words.\<close>

lemma fields_words_aux:
  assumes "segs s = pre @ a @ ss" "list_all (\<lambda>x. \<not> is_space (fst x)) a"
  shows "map runes (split_fields ss (concat (map snd a))) =
    filter (\<lambda>w. w \<noteq> []) (split_ws is_space (map fst ss) (map fst a))"
  using assms
proof (induction ss arbitrary: pre a)
  case Nil
  have "segs (concat (map snd a)) = a" using segs_suffix[of s pre a] Nil.prems(1) by simp
  moreover then have "concat (map snd a) = [] \<longleftrightarrow> a = []" by (metis concat.simps(1) list.simps(8) segs.simps(1))
  ultimately show ?case by (simp add: runes_def)
next
  case (Cons x ss)
  obtain r bs where x: "x = (r, bs)" by force
  have "segs (concat (map snd (a @ x # ss))) = a @ x # ss" using segs_suffix[of s pre "a @ x # ss"] Cons.prems(1) by simp
  then have seg: "segs (concat (map snd a)) = a" by (rule segs_prefix)
  then have ne: "concat (map snd a) = [] \<longleftrightarrow> a = []" by (metis concat.simps(1) list.simps(8) segs.simps(1))
  show ?case
  proof (cases "is_space r")
    case True
    have "map runes (split_fields ss []) = filter (\<lambda>w. w \<noteq> []) (split_ws is_space (map fst ss) [])"
      using Cons.IH[of "pre @ a @ [x]" "[]"] Cons.prems(1) by simp
    moreover have "runes (concat (map snd a)) = map fst a" by (simp add: runes_def seg)
    ultimately show ?thesis
      using True ne by (simp add: x split_ws_drop)
  next
    case False
    then show ?thesis using Cons.IH[of pre "a @ [x]"] Cons.prems by (simp add: x)
  qed
qed

lemma fields_words: "map runes (Go_Strings.fields s) = filter (\<lambda>w. w \<noteq> []) (split_ws is_space (runes s) [])"
  using fields_words_aux[of s "[]" "[]" "segs s"] by (simp add: Go_Strings.fields_def runes_def)

text \<open>Where the database and Go read a text alike: they lower it to the same characters, of which they see
  the same ones as white space, and the text is not blank and has none at its ends.\<close>

definition read_alike :: "pg_locale \<Rightarrow> unicode \<Rightarrow> string \<Rightarrow> bool" where
  "read_alike L U s \<longleftrightarrow> (let rs = runes (to_lower U s) in
     lcLower L (runes s) = rs \<and> list_all (\<lambda>r. lcSpace L r = is_space r) rs \<and>
     rs \<noteq> [] \<and> \<not> is_space (hd rs) \<and> \<not> is_space (last rs))"

lemma btrim_id: "rs \<noteq> [] \<Longrightarrow> hd rs \<noteq> 32 \<Longrightarrow> last rs \<noteq> 32 \<Longrightarrow> btrim rs = rs"
proof -
  have drop: "xs \<noteq> [] \<Longrightarrow> hd xs \<noteq> 32 \<Longrightarrow> dropWhile (\<lambda>r. r = 32) xs = xs" for xs :: pg_text by (cases xs) auto
  show "rs \<noteq> [] \<Longrightarrow> hd rs \<noteq> 32 \<Longrightarrow> last rs \<noteq> 32 \<Longrightarrow> btrim rs = rs"
    by (simp add: btrim_def drop hd_rev)
qed

lemma pg_words_fields:
  assumes "read_alike L U s"
  shows "pg_words L (runes s) = map runes (Go_Strings.fields (to_lower U s))"
proof -
  define rs where "rs = runes (to_lower U s)"
  have rs: "lcLower L (runes s) = rs" "list_all (\<lambda>r. lcSpace L r = is_space r) rs" "rs \<noteq> []" "\<not> is_space (hd rs)" "\<not> is_space (last rs)"
    using assms by (auto simp: read_alike_def rs_def Let_def)
  then have "hd rs \<noteq> 32" "last rs \<noteq> 32" by (auto simp: is_space_def)
  then have "pg_words L (runes s) = split_ws is_space rs []"
    using rs split_ws_cong[OF rs(2)] by (simp add: pg_words_def btrim_id)
  moreover have "[] \<notin> set (split_ws is_space rs [])" using rs by (intro split_ws_inner) auto
  then have "filter (\<lambda>w. w \<noteq> []) (split_ws is_space rs []) = split_ws is_space rs []"
    by (auto simp: filter_id_conv)
  ultimately show ?thesis by (simp add: fields_words rs_def)
qed

section \<open>The mirror\<close>

text \<open>Only whether the best distance is within tolerance matters, not the start value of the search.\<close>

lemma best_lev_le:
  assumes "lev_documented fz" "length w \<le> 255" "short_words vs"
  shows "\<exists>b. best_lev fz w best vs = Some b \<and> (int b \<le> t \<longleftrightarrow> int best \<le> t \<or> list_ex (\<lambda>v. int (lev w v) \<le> t) vs)"
  using assms(3)
proof (induction vs arbitrary: best)
  case (Cons v vs)
  then have "fz w v = Some (lev w v)" using assms(1,2) by (simp add: lev_documented_def short_words_def)
  moreover obtain b where "best_lev fz w (min best (lev w v)) vs = Some b"
    "int b \<le> t \<longleftrightarrow> int (min best (lev w v)) \<le> t \<or> list_ex (\<lambda>v. int (lev w v) \<le> t) vs"
    using Cons.IH[of "min best (lev w v)"] Cons.prems by (auto simp: short_words_def)
  ultimately show ?case by (auto simp: min_def)
qed simp

definition pg_close :: "pg_text list \<Rightarrow> pg_text \<Rightarrow> bool" where
  "pg_close ws w \<longleftrightarrow> list_ex (\<lambda>v. int (lev w v) \<le> pg_tol w) ws"

lemma matched_words_eq:
  assumes "lev_documented fz" "short_words ws" "short_words others"
  shows "matched_words fz ws others k = Some (k + length (filter (pg_close others) ws))"
  using assms(2)
proof (induction ws arbitrary: k)
  case (Cons w ws)
  obtain b where "best_lev fz w 1000 others = Some b" "int b \<le> pg_tol w \<longleftrightarrow> pg_close others w"
    using best_lev_le[OF assms(1) _ assms(3), of w 1000 "pg_tol w"] Cons.prems pg_tol_bounds(2)[of w]
    by (auto simp: short_words_def pg_close_def)
  with Cons show ?case by (simp add: short_words_def)
qed simp

lemma filter_length_less: "length (filter P xs) < length xs \<longleftrightarrow> \<not> list_all P xs"
  by (metis filter_True length_filter_le length_filter_less list_all_iff order_less_irrefl)

lemma name_match_eq:
  assumes "lev_documented fz" "short_words (pg_words L q)" "short_words (pg_words L nm)"
  shows "lemon_name_match L fz q nm =
    (let qt = pg_words L q; nt = pg_words L nm in
     if int (length qt) < \<lceil>(8 / 10 :: rat) * of_nat (length nt)\<rceil> \<or> \<not> list_all (pg_close nt) qt then Some (Fin 0)
     else Some (f_div (f_of_int (int (length (filter (pg_close qt) nt)))) (f_of_int (int (length nt)))))"
  using matched_words_eq[OF assms(1,2,3), of 0] matched_words_eq[OF assms(1,3,2), of 0]
  by (simp add: lemon_name_match_def Let_def filter_length_less)

lemma pg_tol_runes: "pg_tol (runes w) = int (tol w)"
  by (simp add: pg_tol_eq tol_def editDivisor_def maxEditTol_def Let_def add.commute[of _ 3])

lemma pg_close_runes: "pg_close (map runes ws) (runes w) \<longleftrightarrow> close_to ws w"
  by (simp add: pg_close_def close_to_def pg_tol_runes levenshtein_eq list_ex_iff)

text \<open>C5. The bench's fuzzy match is the mirror of the database's that it claims to be: on texts both
  read alike, of words up to 255 characters, \<open>coverageMatch\<close> returns the very double that
  \<open>lemon_name_match\<close> returns.\<close>

theorem name_match_mirror:
  assumes "lev_documented fz" "read_alike L U q" "read_alike L U nm"
    and "short_words (pg_words L (runes q))" "short_words (pg_words L (runes nm))"
    and "length (Go_Strings.fields (to_lower U nm)) < 2 ^ 45"
  shows "lemon_name_match L fz (runes q) (runes nm) = Some (coverageMatch U q nm)"
proof -
  define qt where "qt = Go_Strings.fields (to_lower U q)"
  define nt where "nt = Go_Strings.fields (to_lower U nm)"
  have w: "pg_words L (runes q) = map runes qt" "pg_words L (runes nm) = map runes nt"
    using pg_words_fields assms(2,3) by (simp_all add: qt_def nt_def)
  have ne: "qt \<noteq> []" "nt \<noteq> []" using w pg_words_nonempty by (metis list.simps(8))+
  have n: "f_ceil (f_mul coverageTokenFrac (f_of_int (int (length nt)))) = \<lceil>(8 / 10 :: rat) * of_nat (length nt)\<rceil>"
    using ne assms(6) by (intro threshold_exact) (auto simp: nt_def)
  have "filter (pg_close (map runes qt)) (map runes nt) = map runes (filter (close_to qt) nt)"
    by (simp add: filter_map comp_def pg_close_runes)
  then show ?thesis
    using ne unfolding name_match_eq[OF assms(1,4,5)] coverageMatch_eq w Let_def n qt_def[symmetric] nt_def[symmetric]
    by (simp add: list_all_iff pg_close_runes)
qed

text \<open>A text in one case, of two words, for the witness.\<close>

lemma lev_documented_exists: "lev_documented (\<lambda>a b. Some (lev a b))"
  by (simp add: lev_documented_def)

lemma read_alike_ascii:
  assumes "is_ascii s" "s \<noteq> []" "\<not> is_space (byte_of (hd s))" "\<not> is_space (byte_of (last s))" "map ascii_lower s = s"
  shows "read_alike \<lparr>lcUpper = id, lcLower = id, lcSpace = is_space, lcBoolean = f\<rparr> U s"
  using assms by (simp add: read_alike_def to_lower_ascii runes_ascii hd_map last_map Let_def list_all_iff)

theorem name_match_mirror_witness:
  "lemon_name_match \<lparr>lcUpper = id, lcLower = id, lcSpace = is_space, lcBoolean = \<lambda>_. None\<rparr> (\<lambda>a b. Some (lev a b))
     (runes ''taco stnd'') (runes ''taco stand'') = Some (coverageMatch basic_unicode ''taco stnd'' ''taco stand'')"
proof -
  let ?L = "\<lparr>lcUpper = id, lcLower = id, lcSpace = is_space, lcBoolean = \<lambda>_. None\<rparr>"
  have a: "is_ascii ''taco stnd''" "is_ascii ''taco stand''" by code_simp+
  have r: "read_alike ?L basic_unicode ''taco stnd''" "read_alike ?L basic_unicode ''taco stand''"
    by (rule read_alike_ascii; code_simp)+
  have p: "pg_words ?L (runes ''taco stnd'') = [chars ''taco'', chars ''stnd'']"
    "pg_words ?L (runes ''taco stand'') = [chars ''taco'', chars ''stand'']"
    unfolding runes_ascii[OF a(1)] runes_ascii[OF a(2)] by (simp_all add: pg_words_def btrim_def is_space_def chars_def)
  then have w: "short_words (pg_words ?L (runes ''taco stnd''))" "short_words (pg_words ?L (runes ''taco stand''))"
    by (simp_all add: short_words_def chars_def)
  have "length (Go_Strings.fields (to_lower basic_unicode ''taco stand'')) = length (pg_words ?L (runes ''taco stand''))"
    unfolding pg_words_fields[OF r(2)] by simp
  also have "\<dots> = 2" by (simp add: p)
  finally show ?thesis using name_match_mirror[OF lev_documented_exists r w] by simp
qed

section \<open>What matches\<close>

lemma count_ratio_one: "0 < n \<Longrightarrow> n < 2 ^ 53 \<Longrightarrow> f_div (f_of_int (int n)) (f_of_int (int n)) = Fin 1"
  by (simp add: f_of_int_small)

lemma pg_close_self: "list_all (pg_close ws) ws"
proof -
  have "int (lev w w) \<le> pg_tol w" for w using pg_tol_bounds(1)[of w] by simp
  then show ?thesis by (force simp: pg_close_def list_all_iff list_ex_iff)
qed

lemma ceiling_frac_le: "\<lceil>(8 / 10 :: rat) * of_nat n\<rceil> \<le> int n"
  by (simp add: ceiling_le_iff)

lemma name_match_self:
  assumes "lev_documented fz" "short_words (pg_words L nm)" "length (pg_words L nm) < 2 ^ 53"
  shows "lemon_name_match L fz nm nm = Some (Fin 1)"
  using assms(3) pg_close_self[of "pg_words L nm"] ceiling_frac_le[of "length (pg_words L nm)"]
  unfolding name_match_eq[OF assms(1,2,2)]
  by (simp add: Let_def list_all_iff count_ratio_one not_less filter_id_conv[THEN iffD2])

lemma prefix_loop_self:
  assumes "lev_documented fz" "short_words ws"
  shows "prefix_loop fz (take k ws) ws = Some True"
  using assms(2)
proof (induction ws arbitrary: k)
  case (Cons w ws)
  have "fz w w = Some 0" using Cons.prems assms(1) by (simp add: lev_documented_def short_words_def)
  with Cons pg_tol_bounds(1)[of w] show ?case by (cases k) (simp_all add: short_words_def)
qed simp

text \<open>On short words neither function raises, and both return a share.\<close>

lemma count_share_unit: "m \<le> n \<Longrightarrow> n < 2 ^ 53 \<Longrightarrow> 0 < n \<Longrightarrow> unit_f (f_div (f_of_int (int m)) (f_of_int (int n)))"
  by (rule count_ratio_unit) auto

lemma name_match_total:
  assumes "lev_documented fz" "short_words (pg_words L q)" "short_words (pg_words L nm)" "length (pg_words L nm) < 2 ^ 53"
  shows "\<exists>c. lemon_name_match L fz q nm = Some c \<and> unit_f c"
  using assms(4) count_share_unit[of "length (filter (pg_close (pg_words L q)) (pg_words L nm))" "length (pg_words L nm)"]
  by (auto simp: name_match_eq[OF assms(1-3)] Let_def simp del: f_div.simps)

lemma prefix_loop_total:
  assumes "lev_documented fz" "short_words ws" "short_words vs"
  shows "prefix_loop fz ws vs \<noteq> None"
  using assms(2,3)
proof (induction ws arbitrary: vs)
  case (Cons w ws)
  note IH = this
  show ?case
  proof (cases vs)
    case (Cons v vs')
    then have "fz w v = Some (lev w v)" using IH(2,3) assms(1) by (simp add: lev_documented_def short_words_def)
    with IH Cons show ?thesis by (simp add: short_words_def del: not_None_eq)
  qed simp
qed simp

lemma prefix_match_total:
  assumes "lev_documented fz" "short_words (pg_words L q)" "short_words (pg_words L nm)" "length (pg_words L nm) < 2 ^ 53"
  shows "\<exists>c. lemon_prefix_match L fz q nm = Some c \<and> unit_f c"
proof -
  obtain ok where ok: "prefix_loop fz (pg_words L q) (pg_words L nm) = Some ok" using prefix_loop_total[OF assms(1-3)] by blast
  show ?thesis
    using count_share_unit[of "length (pg_words L q)" "length (pg_words L nm)"] assms(4)
    by (cases ok) (simp_all add: lemon_prefix_match_def ok Let_def del: f_div.simps)
qed

text \<open>A word of more than 255 characters makes the match raise as soon as it is compared.\<close>

theorem long_word_raises:
  assumes "pg_words L q = [w]" "pg_words L nm = [v]" "fz v w = None"
  shows "lemon_name_match L fz q nm = None"
  using assms by (simp add: lemon_name_match_def)

text \<open>C39. What is matched by name: a name by itself, with coverage 1; its first two or more words, with
  the share of the name they are; and never a name of several words by a single word, so that a bare
  category such as "taco" finds no "Taco Taco".\<close>

theorem name_queries:
  assumes "lev_documented fz" "short_words (pg_words L nm)" "length (pg_words L nm) < 2 ^ 53"
  shows "lemon_name_match L fz nm nm = Some (Fin 1) \<and>
    (\<forall>k \<in> {2 .. length (pg_words L nm)}. pg_words L q = take k (pg_words L nm) \<longrightarrow>
       lemon_prefix_match L fz q nm = Some (f_div (f_of_int (int k)) (f_of_int (int (length (pg_words L nm)))))) \<and>
    (length (pg_words L q) = 1 \<and> 1 < length (pg_words L nm) \<longrightarrow>
       lemon_name_match L fz q nm = Some (Fin 0) \<and> lemon_prefix_match L fz q nm = Some (Fin 0))"
proof (intro conjI ballI impI)
  show "lemon_name_match L fz nm nm = Some (Fin 1)" by (rule name_match_self[OF assms])
next
  fix k assume "k \<in> {2 .. length (pg_words L nm)}" "pg_words L q = take k (pg_words L nm)"
  with prefix_loop_self[OF assms(1,2), of k]
  show "lemon_prefix_match L fz q nm = Some (f_div (f_of_int (int k)) (f_of_int (int (length (pg_words L nm)))))"
    by (simp add: lemon_prefix_match_def min.absorb2 Let_def)
next
  assume q: "length (pg_words L q) = 1 \<and> 1 < length (pg_words L nm)"
  then have "(2 :: rat) \<le> of_nat (length (pg_words L nm))" by (metis Suc_1 Suc_leI of_nat_le_iff of_nat_numeral)
  then have "1 < (8 / 10 :: rat) * of_nat (length (pg_words L nm))" by simp
  then have "1 < \<lceil>(8 / 10 :: rat) * of_nat (length (pg_words L nm))\<rceil>" by (simp add: less_ceiling_iff)
  with q show "lemon_name_match L fz q nm = Some (Fin 0)" "lemon_prefix_match L fz q nm = Some (Fin 0)"
    by (auto simp: lemon_name_match_def lemon_prefix_match_def Let_def)
qed

theorem name_queries_witness:
  "lemon_name_match c_locale (\<lambda>a b. Some (lev a b)) (chars ''Taco Taco'') (chars ''Taco Taco'') = Some (Fin 1) \<and>
   lemon_name_match c_locale (\<lambda>a b. Some (lev a b)) (chars ''taco'') (chars ''Taco Taco'') = Some (Fin 0)"
proof -
  have "pg_words c_locale (chars ''Taco Taco'') = [chars ''taco'', chars ''taco'']" "pg_words c_locale (chars ''taco'') = [chars ''taco'']"
    by (simp_all add: pg_words_def btrim_def is_space_def chars_def c_locale_def)
  then have w: "short_words (pg_words c_locale (chars ''Taco Taco''))" "length (pg_words c_locale (chars ''Taco Taco'')) = 2"
    "length (pg_words c_locale (chars ''taco'')) = 1" by (simp_all add: short_words_def chars_def)
  then show ?thesis using name_queries[OF lev_documented_exists w(1), of "chars ''taco''"] by simp
qed

end
