(* ===== verification/Sql_Database.thy ===== *)
theory Sql_Database
  imports Sql_Match Postgres_Repo Ingest_Loader
begin

text \<open>
  The database behind the port: \<open>search_candidates\<close>
  (\<open>supabase/migrations/0009_search_candidates_short_query_gate.sql\<close>) and the exact-name statement of
  \<open>repo.go\<close>, as queries over the table that the ingest writes. Parameters are the locale, pg_trgm, the
  full-text search, the earth distance, the vector index, the time zone, the \<open>jsonb\<close> input and the clock;
  an error is its message. A WHERE clause keeps a row when it is true, so a NULL comparison drops it.
\<close>

record db_row =
  drRow :: biz_row
  drEmbedding :: "f32 list option"

record pg_fun =
  pfLocale :: pg_locale
  pfLev :: pg_lev
  pfSimilar :: "pg_text \<Rightarrow> pg_text \<Rightarrow> bool"
  pfSimilarity :: "pg_text \<Rightarrow> pg_text \<Rightarrow> f32"
  pfIlike :: "pg_text \<Rightarrow> pg_text \<Rightarrow> bool"
  pfTsMatch :: "(char \<times> string) list \<Rightarrow> string \<Rightarrow> bool"
  pfTsRank :: "(char \<times> string) list \<Rightarrow> string \<Rightarrow> f32"
  pfEarth :: "f64 \<Rightarrow> f64 \<Rightarrow> bool"
  pfDistance :: "f64 \<times> f64 \<Rightarrow> f64 \<times> f64 \<Rightarrow> f64"
  pfNearest :: "db_row list \<Rightarrow> string \<Rightarrow> int \<Rightarrow> uuid list option"
  pfLocal :: "instant \<Rightarrow> local_ts"
  pfJson :: "string \<Rightarrow> jsonb"
  pfNow :: instant

definition err_earth :: string where "err_earth = ''value for domain earth violates check constraint''"
definition err_vector :: string where "err_vector = ''invalid input syntax for type vector''"
definition err_limit :: string where "err_limit = ''LIMIT must not be negative''"
definition err_boolean :: string where "err_boolean = ''invalid input syntax for type boolean''"
definition err_levenshtein :: string where "err_levenshtein = ''levenshtein argument exceeds maximum length of 255 characters''"

section \<open>Rows\<close>

abbreviation dr_biz :: "db_row \<Rightarrow> business" where
  "dr_biz r \<equiv> brBusiness (drRow r)"

definition review_count :: "business \<Rightarrow> int" where
  "review_count b = (case bzGoogleReviewCount b of None \<Rightarrow> 0 | Some n \<Rightarrow> n)"

definition photo_list :: "business \<Rightarrow> string list" where
  "photo_list b = (case bzPhotos b of None \<Rightarrow> [] | Some ps \<Rightarrow> ps)"

text \<open>Floating-point order: NaN last, equal to itself.\<close>

fun pg_key :: "f64 \<Rightarrow> int \<times> real" where
  "pg_key NInf = (0, 0)"
| "pg_key (Fin x) = (1, x)"
| "pg_key PInf = (2, 0)"
| "pg_key NaN = (3, 0)"

definition desc :: "int \<times> real \<Rightarrow> int \<times> real" where
  "desc k = (- fst k, - snd k)"

definition real4_add :: "f32 \<Rightarrow> f32 \<Rightarrow> f32" where
  "real4_add a b = f_to_f32 (f_add a b)"

text \<open>The columns of \<open>candidateColumns\<close>; \<open>lemon_score\<close> and \<open>google_rating\<close> are stored as \<open>real\<close>,
  \<open>photo_count\<close> and \<open>is_new\<close> are generated columns.\<close>

definition project :: "db_row \<Rightarrow> f64 \<Rightarrow> open_status \<Rightarrow> wire" where
  "project r km os =
     (let b = dr_biz r in
      \<lparr>w_id = bzID b, w_name = bzName b, w_category = bzCategory b, w_subcategory = bzSubcategory b,
       w_archetype = bzArchetype b, w_neighborhood = bzNeighborhood b, w_distance_km = km,
       w_lemon_score = map_option f_to_f32 (bzLemonScore b), w_google_rating = map_option f_to_f32 (bzGoogleRating b),
       w_google_review_count = review_count b, w_price_range = bzPriceRange b,
       w_photo_count = int (length (photo_list b)),
       w_photo_url = (if 1 \<le> length (photo_list b) then Some (hd (photo_list b)) else None),
       w_is_claimed = bzIsClaimed b, w_friend_count = bzFriendCount b, w_is_new = review_count b < 10,
       w_is_open_now = osOpenNow os, w_opens_later = osOpensLater os, w_hours = bzHours b\<rparr>)"

definition row_status :: "pg_fun \<Rightarrow> instant \<Rightarrow> db_row \<Rightarrow> open_status option" where
  "row_status pf now r = lemon_open_status (pfLocale pf) (map_option (pfJson pf) (bzHours (dr_biz r))) (pfLocal pf now)"

section \<open>The search function\<close>

definition q_clean :: "string \<Rightarrow> pg_text option" where
  "q_clean q = (let t = btrim (runes q) in if t = [] then None else Some t)"

definition q_fuzzy :: "string \<Rightarrow> bool" where
  "q_fuzzy q = (case q_clean q of None \<Rightarrow> False | Some t \<Rightarrow> 3 \<le> length t)"

text \<open>\<open>cardinality(p) = 0 or column matches\<close>: of a NULL array both sides are NULL.\<close>

definition array_clause :: "sql_arg \<Rightarrow> (string list \<Rightarrow> bool) \<Rightarrow> bool" where
  "array_clause arg P = (case arg of SqlArray xs \<Rightarrow> xs = [] \<or> P xs | _ \<Rightarrow> False)"

definition one_of :: "string option \<Rightarrow> string list \<Rightarrow> bool" where
  "one_of v xs = (case v of None \<Rightarrow> False | Some s \<Rightarrow> s \<in> set xs)"

definition overlaps :: "string list option \<Rightarrow> string list \<Rightarrow> bool" where
  "overlaps v xs = (case v of None \<Rightarrow> False | Some ys \<Rightarrow> list_ex (\<lambda>y. y \<in> set xs) ys)"

definition recall_clause :: "pg_fun \<Rightarrow> string \<Rightarrow> uuid list \<Rightarrow> db_row \<Rightarrow> bool" where
  "recall_clause pf q ids r =
     (case q_clean q of
        None \<Rightarrow> True
      | Some t \<Rightarrow>
          pfTsMatch pf (brVector (drRow r)) q \<or>
          q_fuzzy q \<and> pfSimilar pf (runes (bzName (dr_biz r))) t \<or>
          pfIlike pf (runes (bzName (dr_biz r))) (t @ [37]) \<or>
          bzID (dr_biz r) \<in> set ids)"

definition filter_clause :: "sql_arg \<Rightarrow> sql_arg \<Rightarrow> sql_arg \<Rightarrow> sql_arg \<Rightarrow> sql_arg \<Rightarrow> db_row \<Rightarrow> bool" where
  "filter_clause cat subs unis specs prices r \<longleftrightarrow>
     (case cat of SqlNull \<Rightarrow> True | SqlText c \<Rightarrow> bzCategory (dr_biz r) = c | SqlArray _ \<Rightarrow> False) \<and>
     array_clause subs (one_of (bzSubcategory (dr_biz r))) \<and>
     array_clause unis (overlaps (bzUniversalTags (dr_biz r))) \<and>
     array_clause specs (overlaps (bzSpecificTags (dr_biz r))) \<and>
     array_clause prices (one_of (bzPriceRange (dr_biz r)))"

definition distance_km :: "pg_fun \<Rightarrow> f64 \<Rightarrow> f64 \<Rightarrow> db_row \<Rightarrow> f64" where
  "distance_km pf lat lng r =
     (case brLoc (drRow r) of None \<Rightarrow> Fin 1000000000 | Some loc \<Rightarrow> f_div (pfDistance pf loc (lat, lng)) (Fin 1000))"

definition txt_score :: "pg_fun \<Rightarrow> string \<Rightarrow> db_row \<Rightarrow> f32" where
  "txt_score pf q r =
     real4_add (case q_clean q of None \<Rightarrow> Fin 0 | Some t \<Rightarrow> pfTsRank pf (brVector (drRow r)) q)
       (if q_fuzzy q then (case q_clean q of None \<Rightarrow> Fin 0 | Some t \<Rightarrow> pfSimilarity pf (runes (bzName (dr_biz r))) t) else Fin 0)"

definition has_q :: "string \<Rightarrow> int" where
  "has_q q = (case q_clean q of None \<Rightarrow> 0 | Some t \<Rightarrow> 1)"

definition recall_key :: "pg_fun \<Rightarrow> string \<Rightarrow> f64 \<Rightarrow> f64 \<Rightarrow> db_row \<Rightarrow> int \<times> (int \<times> real) \<times> int \<times> (int \<times> real) \<times> int" where
  "recall_key pf q lat lng r =
     (- has_q q, desc (pg_key (txt_score pf q r)), - review_count (dr_biz r), pg_key (distance_km pf lat lng r), uint (bzID (dr_biz r)))"

definition semantic_ids :: "pg_fun \<Rightarrow> db_row list \<Rightarrow> sql_arg \<Rightarrow> int \<Rightarrow> uuid list option" where
  "semantic_ids pf table vec n_rows =
     (case vec of SqlNull \<Rightarrow> Some [] | SqlText v \<Rightarrow> pfNearest pf table v n_rows | SqlArray _ \<Rightarrow> None)"

text \<open>The lateral join: a raised cast fails the statement.\<close>

definition with_status :: "pg_fun \<Rightarrow> instant \<Rightarrow> db_row list \<Rightarrow> (db_row \<times> open_status) list option" where
  "with_status pf now rs = those (map (\<lambda>r. map_option (\<lambda>os. (r, os)) (row_status pf now r)) rs)"

definition search_candidates :: "pg_fun \<Rightarrow> db_row list \<Rightarrow> string \<Rightarrow> f64 \<Rightarrow> f64 \<Rightarrow> instant \<Rightarrow> int \<Rightarrow>
    sql_arg \<Rightarrow> sql_arg \<Rightarrow> sql_arg \<Rightarrow> sql_arg \<Rightarrow> sql_arg \<Rightarrow> bool \<Rightarrow> sql_arg \<Rightarrow> string + wire list" where
  "search_candidates pf table q lat lng now n_rows cat subs unis specs prices require_open vec =
     (if \<not> pfEarth pf lat lng then Inl err_earth
      else if n_rows < 0 then Inl err_limit
      else (case semantic_ids pf table vec n_rows of
        None \<Rightarrow> Inl err_vector
      | Some ids \<Rightarrow>
          (let key = recall_key pf q lat lng;
               recalled = take (nat (if require_open then n_rows * 5 else n_rows)) (sort_key key
                 (filter (\<lambda>r. recall_clause pf q ids r \<and> filter_clause cat subs unis specs prices r) table))
           in case with_status pf now recalled of
                None \<Rightarrow> Inl err_boolean
              | Some rows \<Rightarrow>
                  Inr (map (\<lambda>(r, os). project r (distance_km pf lat lng r) os)
                    (take (nat n_rows) (sort_key (key \<circ> fst)
                      (filter (\<lambda>(r, os). \<not> require_open \<or> osOpenNow os \<noteq> Some False) rows)))))))"

section \<open>The exact-name statement\<close>

text \<open>\<open>lemon_name_match(...) >= $2 or lemon_prefix_match(...) >= $3\<close>\<close>

definition name_hit :: "pg_fun \<Rightarrow> string \<Rightarrow> f64 \<Rightarrow> f64 \<Rightarrow> db_row \<Rightarrow> bool option" where
  "name_hit pf q cov pcov r =
     (case lemon_name_match (pfLocale pf) (pfLev pf) (runes q) (runes (bzName (dr_biz r))) of
        None \<Rightarrow> None
      | Some c \<Rightarrow>
          if f_le cov c then Some True
          else map_option (f_le pcov) (lemon_prefix_match (pfLocale pf) (pfLev pf) (runes q) (runes (bzName (dr_biz r)))))"

text \<open>\<open>greatest(lemon_name_match(...), lemon_prefix_match(...))\<close>\<close>

definition coverage :: "pg_fun \<Rightarrow> string \<Rightarrow> db_row \<Rightarrow> f64 option" where
  "coverage pf q r =
     Option.bind (lemon_name_match (pfLocale pf) (pfLev pf) (runes q) (runes (bzName (dr_biz r)))) (\<lambda>a.
     map_option (\<lambda>b. if pg_key a < pg_key b then b else a)
       (lemon_prefix_match (pfLocale pf) (pfLev pf) (runes q) (runes (bzName (dr_biz r)))))"

definition name_prefilter :: "pg_fun \<Rightarrow> string \<Rightarrow> db_row \<Rightarrow> bool" where
  "name_prefilter pf q r \<longleftrightarrow> pfSimilar pf (runes (bzName (dr_biz r))) (runes q) \<or>
     pfIlike pf (runes (bzName (dr_biz r))) (runes q @ [37])"

text \<open>The rows that pass the prefilter and match, with their coverage; the index serves the prefilter.\<close>

definition name_hits :: "pg_fun \<Rightarrow> db_row list \<Rightarrow> string \<Rightarrow> f64 \<Rightarrow> f64 \<Rightarrow> (db_row \<times> f64) list option" where
  "name_hits pf table q cov pcov =
     Option.bind (those (map (\<lambda>r. map_option (\<lambda>h. (r, h)) (name_hit pf q cov pcov r)) (filter (name_prefilter pf q) table)))
       (\<lambda>tested. those (map (\<lambda>r. map_option (\<lambda>c. (r, c)) (coverage pf q r)) (map fst (filter snd tested))))"

definition exact_name :: "pg_fun \<Rightarrow> db_row list \<Rightarrow> string \<Rightarrow> f64 \<Rightarrow> f64 \<Rightarrow> string + (wire \<times> int) list" where
  "exact_name pf table q cov pcov =
     (case name_hits pf table q cov pcov of
        None \<Rightarrow> Inl err_levenshtein
      | Some hits \<Rightarrow>
          (case with_status pf (pfNow pf) (map fst hits) of
             None \<Rightarrow> Inl err_boolean
           | Some rows \<Rightarrow>
               Inr (take 1 (map (\<lambda>((r, c), os). (project r (Fin 1000000000) os, int (length hits)))
                 (sort_key (\<lambda>((r, c), os). (desc (pg_key c), uint (bzID (dr_biz r)))) (zip hits (map snd rows)))))))"

section \<open>The pool\<close>

definition sql_pg :: "(f32 \<Rightarrow> string) \<Rightarrow> pg_fun \<Rightarrow> db_row list \<Rightarrow> (unit, wire \<times> int, string) pg" where
  "sql_pg fmt pf table = \<lparr>
     pgQuery = (\<lambda>s call. (case call of
         SearchSQL q lat lng now n_rows cat subs unis specs prices op vec \<Rightarrow>
           map_sum id (\<lambda>ws. \<lparr>rwRows = map (\<lambda>w. (w, 0)) ws, rwErr = None\<rparr>)
             (search_candidates pf table q lat lng now n_rows cat subs unis specs prices op vec)
       | ExactNameSQL q cov pcov \<Rightarrow>
           map_sum id (\<lambda>rows. \<lparr>rwRows = rows, rwErr = None\<rparr>) (exact_name pf table q cov pcov), s)),
     pgScan = (\<lambda>row. Inr (fst row)), pgScanMatch = Inr, pgFmt = fmt\<rparr>"

section \<open>Lists of checked values\<close>

lemma those_Some_map: "those (map (\<lambda>x. map_option (\<lambda>y. (x, y)) (f x)) xs) = Some ps \<Longrightarrow>
    map fst ps = xs \<and> list_all (\<lambda>(x, y). f x = Some y) ps"
proof (induction xs arbitrary: ps)
  case (Cons x xs)
  then show ?case by (auto split: option.splits)
qed simp

lemma those_total: "list_all (\<lambda>x. f x \<noteq> None) xs \<Longrightarrow> \<exists>ps. those (map (\<lambda>x. map_option (\<lambda>y. (x, y)) (f x)) xs) = Some ps"
  by (induction xs) auto

lemma with_status_rows:
  assumes "with_status pf now rs = Some ps"
  shows "map fst ps = rs" "list_all (\<lambda>(r, os). row_status pf now r = Some os) ps"
  using those_Some_map assms unfolding with_status_def by blast+

lemma with_status_total: "list_all (\<lambda>r. row_status pf now r \<noteq> None) rs \<Longrightarrow> \<exists>ps. with_status pf now rs = Some ps"
  unfolding with_status_def by (rule those_total)

section \<open>The contract of the search\<close>

lemma sorted_map_take: "sorted (map f xs) \<Longrightarrow> sorted (map f (take n xs))"
  unfolding take_map[symmetric] by (rule sorted_wrt_take)

lemma search_candidates_rows:
  assumes "search_candidates pf table q lat lng now n_rows cat subs unis specs prices op vec = Inr ws"
  obtains rows ids where "semantic_ids pf table vec n_rows = Some ids"
    "ws = map (\<lambda>(r, os). project r (distance_km pf lat lng r) os) rows" "length rows \<le> nat n_rows"
    "sorted (map (recall_key pf q lat lng \<circ> fst) rows)"
    "list_all (\<lambda>(r, os). r \<in> set table \<and> recall_clause pf q ids r \<and> filter_clause cat subs unis specs prices r \<and>
       row_status pf now r = Some os \<and> (op \<longrightarrow> osOpenNow os \<noteq> Some False)) rows"
    "distinct table \<Longrightarrow> distinct (map fst rows)"
proof -
  let ?key = "recall_key pf q lat lng"
  obtain ids where ids: "semantic_ids pf table vec n_rows = Some ids"
    using assms by (auto simp: search_candidates_def split: if_splits option.splits)
  define recalled where "recalled = take (nat (if op then n_rows * 5 else n_rows))
    (sort_key ?key (filter (\<lambda>r. recall_clause pf q ids r \<and> filter_clause cat subs unis specs prices r) table))"
  obtain ps where ps: "with_status pf now recalled = Some ps"
    using assms ids by (auto simp: search_candidates_def recalled_def Let_def split: if_splits option.splits)
  define rows where "rows = take (nat n_rows) (sort_key (?key \<circ> fst) (filter (\<lambda>(r, os). \<not> op \<or> osOpenNow os \<noteq> Some False) ps))"
  have ws: "ws = map (\<lambda>(r, os). project r (distance_km pf lat lng r) os) rows"
    using assms ids ps unfolding search_candidates_def rows_def recalled_def Let_def by (auto split: if_splits)
  have sub: "set rows \<subseteq> set (filter (\<lambda>(r, os). \<not> op \<or> osOpenNow os \<noteq> Some False) ps)"
    unfolding rows_def using set_take_subset[of "nat n_rows" "sort_key (?key \<circ> fst) (filter (\<lambda>(r, os). \<not> op \<or> osOpenNow os \<noteq> Some False) ps)"] by simp
  have rec: "set recalled \<subseteq> set (filter (\<lambda>r. recall_clause pf q ids r \<and> filter_clause cat subs unis specs prices r) table)"
    unfolding recalled_def using set_take_subset by fastforce
  have "list_all (\<lambda>(r, os). r \<in> set table \<and> recall_clause pf q ids r \<and> filter_clause cat subs unis specs prices r \<and>
       row_status pf now r = Some os \<and> (op \<longrightarrow> osOpenNow os \<noteq> Some False)) rows"
    unfolding list_all_iff
  proof clarify
    fix r os assume "(r, os) \<in> set rows"
    with sub have m: "(r, os) \<in> set ps" "op \<longrightarrow> osOpenNow os \<noteq> Some False" by auto
    then have "r \<in> set recalled" using with_status_rows(1)[OF ps] by (metis fst_conv image_eqI list.set_map)
    with rec m with_status_rows(2)[OF ps]
    show "r \<in> set table \<and> recall_clause pf q ids r \<and> filter_clause cat subs unis specs prices r \<and>
       row_status pf now r = Some os \<and> (op \<longrightarrow> osOpenNow os \<noteq> Some False)" by (auto simp: list_all_iff)
  qed
  moreover have "sorted (map (?key \<circ> fst) rows)" unfolding rows_def by (rule sorted_map_take[OF sorted_sort_key])
  moreover have "distinct (map fst rows)" if "distinct table"
  proof -
    have "distinct (map fst ps)" using that unfolding with_status_rows(1)[OF ps] by (simp add: recalled_def)
    then have inj: "inj_on fst (set ps)" "distinct ps" by (simp_all add: distinct_map)
    then have "distinct rows" unfolding rows_def by simp
    moreover have "set rows \<subseteq> set ps" using sub by auto
    ultimately show ?thesis using inj(1) by (auto simp: distinct_map intro: inj_on_subset)
  qed
  moreover have "length rows \<le> nat n_rows" by (simp add: rows_def)
  ultimately show thesis using that ids ws by blast
qed

lemma sql_pg_sel [simp]:
  "pgScan (sql_pg fmt pf table) row = Inr (fst row)" "pgScanMatch (sql_pg fmt pf table) x = Inr x" "pgFmt (sql_pg fmt pf table) = fmt"
  by (simp_all add: sql_pg_def)

text \<open>C6. What \<open>search_candidates\<close> answers: at most as many rows as it is asked for, in the order of text
  score, reviews, distance and identifier, each a stored business that the query recalls and every
  overlay filter keeps, with its own status, none closed when open ones are required; and no business
  twice. This is the limit the repository port promises.\<close>

theorem search_contract:
  "(case search_candidates pf table q lat lng now n_rows cat subs unis specs prices op vec of
      Inl e \<Rightarrow> True
    | Inr ws \<Rightarrow> \<exists>rows ids. semantic_ids pf table vec n_rows = Some ids \<and>
        ws = map (\<lambda>(r, os). project r (distance_km pf lat lng r) os) rows \<and> length rows \<le> nat n_rows \<and>
        sorted (map (recall_key pf q lat lng \<circ> fst) rows) \<and> (\<not> distinct table \<or> distinct (map fst rows)) \<and>
        list_all (\<lambda>(r, os). r \<in> set table \<and> recall_clause pf q ids r \<and> filter_clause cat subs unis specs prices r \<and>
          row_status pf now r = Some os \<and> (\<not> op \<or> osOpenNow os \<noteq> Some False)) rows) \<and>
   honors_limit (sql_pg fmt pf table)"
proof
  show "case search_candidates pf table q lat lng now n_rows cat subs unis specs prices op vec of
      Inl e \<Rightarrow> True
    | Inr ws \<Rightarrow> \<exists>rows ids. semantic_ids pf table vec n_rows = Some ids \<and>
        ws = map (\<lambda>(r, os). project r (distance_km pf lat lng r) os) rows \<and> length rows \<le> nat n_rows \<and>
        sorted (map (recall_key pf q lat lng \<circ> fst) rows) \<and> (\<not> distinct table \<or> distinct (map fst rows)) \<and>
        list_all (\<lambda>(r, os). r \<in> set table \<and> recall_clause pf q ids r \<and> filter_clause cat subs unis specs prices r \<and>
          row_status pf now r = Some os \<and> (\<not> op \<or> osOpenNow os \<noteq> Some False)) rows"
  proof (cases "search_candidates pf table q lat lng now n_rows cat subs unis specs prices op vec")
    case (Inr ws)
    then show ?thesis by (rule search_candidates_rows) (force simp: Inr)
  qed simp
  have "int (length ws) \<le> n" if "search_candidates pf table q lat lng now n cat subs unis specs prices op vec = Inr ws" "0 \<le> n"
    for q lat lng now n cat subs unis specs prices op vec ws
    using that by (elim search_candidates_rows) auto
  then show "honors_limit (sql_pg fmt pf table)"
    by (auto simp: honors_limit_def sql_pg_def map_sum_def split: sum.splits)
qed

section \<open>The contract of the exact-name lookup\<close>

lemma name_hits_rows:
  assumes "name_hits pf table q cov pcov = Some hits"
  shows "map fst hits = filter (\<lambda>r. name_prefilter pf q r \<and> name_hit pf q cov pcov r = Some True) table"
    "list_all (\<lambda>(r, c). coverage pf q r = Some c) hits"
proof -
  obtain tested where tested: "those (map (\<lambda>r. map_option (\<lambda>h. (r, h)) (name_hit pf q cov pcov r)) (filter (name_prefilter pf q) table)) = Some tested"
    and hits: "those (map (\<lambda>r. map_option (\<lambda>c. (r, c)) (coverage pf q r)) (map fst (filter snd tested))) = Some hits"
    using assms by (auto simp: name_hits_def bind_eq_Some_conv)
  from those_Some_map[OF tested] have t: "map fst tested = filter (name_prefilter pf q) table"
    "list_all (\<lambda>(r, h). name_hit pf q cov pcov r = Some h) tested" by auto
  have "map fst (filter snd tested) = filter (\<lambda>r. name_hit pf q cov pcov r = Some True) (map fst tested)"
    using t(2) by (induction tested) auto
  with those_Some_map[OF hits] t(1) show "map fst hits = filter (\<lambda>r. name_prefilter pf q r \<and> name_hit pf q cov pcov r = Some True) table"
    "list_all (\<lambda>(r, c). coverage pf q r = Some c) hits" by (auto intro: filter_cong)
qed

lemma ExactName_sql:
  "fst (ExactName (sql_pg fmt pf table) () q) =
    (case exact_name pf table q nameMatchCoverage prefixMatchCoverage of
       Inl e \<Rightarrow> Inl (ExactQuery e)
     | Inr [] \<Rightarrow> Inr None
     | Inr ((w, n) # _) \<Rightarrow> if 5 < n then Inr None else Inr (Some (of_wire w)))"
  by (auto simp: ExactName_def sql_pg_def maxNameMatches_def of_wire_def split: sum.split list.split)

lemma sort_key_zip_head:
  assumes "hits \<noteq> []" "length rows = length hits"
  obtains r c os rest where "sort_key key (zip hits rows) = ((r, c), os) # rest" "((r, c), os) \<in> set (zip hits rows)"
    "list_all (\<lambda>x. key ((r, c), os) \<le> key x) (zip hits rows)"
proof (cases "sort_key key (zip hits rows)")
  case Nil
  then have "zip hits rows = []" by (metis length_0_conv length_sort)
  with assms show ?thesis by (cases hits; cases rows) auto
next
  case (Cons x rest)
  have "sorted (map key (x # rest))" using Cons by (metis sorted_sort_key)
  moreover have "set (x # rest) = set (zip hits rows)" using Cons by (metis set_sort)
  ultimately have "x \<in> set (zip hits rows)" "list_all (\<lambda>y. key x \<le> key y) (zip hits rows)"
    by (auto simp: list_all_iff)
  moreover obtain r c os where "x = ((r, c), os)" by (metis prod.collapse)
  ultimately show ?thesis using that[of r c os rest] Cons by simp
qed

definition beats :: "db_row \<times> f64 \<Rightarrow> db_row \<times> f64 \<Rightarrow> bool" where
  "beats a b \<longleftrightarrow> pg_key (snd b) < pg_key (snd a) \<or>
     pg_key (snd b) = pg_key (snd a) \<and> bzID (dr_biz (fst a)) \<le> bzID (dr_biz (fst b))"

lemma desc_le: "(desc a, m) \<le> (desc b, n) \<longleftrightarrow> b < a \<or> a = b \<and> (m :: int) \<le> n"
  by (cases a; cases b) (auto simp: desc_def less_eq_prod_def less_prod_def)

lemma ExactName_best_match_aux:
  "(case name_hits pf table q nameMatchCoverage prefixMatchCoverage of
      None \<Rightarrow> fst (ExactName (sql_pg fmt pf table) () q) = Inl (ExactQuery err_levenshtein)
    | Some hits \<Rightarrow>
        (case with_status pf (pfNow pf) (map fst hits) of
           None \<Rightarrow> fst (ExactName (sql_pg fmt pf table) () q) = Inl (ExactQuery err_boolean)
         | Some rows \<Rightarrow>
             if hits = [] \<or> 5 < length hits then fst (ExactName (sql_pg fmt pf table) () q) = Inr None
             else \<exists>r c os. (r, c) \<in> set hits \<and> row_status pf (pfNow pf) r = Some os \<and>
               fst (ExactName (sql_pg fmt pf table) () q) = Inr (Some (of_wire (project r (Fin 1000000000) os))) \<and>
               list_all (beats (r, c)) hits))"
proof (cases "name_hits pf table q nameMatchCoverage prefixMatchCoverage")
  case None
  then show ?thesis by (simp add: ExactName_sql exact_name_def)
next
  case (Some hits)
  note hits = Some
  show ?thesis
  proof (cases "with_status pf (pfNow pf) (map fst hits)")
    case None
    with hits show ?thesis by (simp add: ExactName_sql exact_name_def)
  next
    case (Some rows)
    let ?key = "\<lambda>((r, c), os). (desc (pg_key c), uint (bzID (dr_biz r)))"
    have fst_rows: "map fst rows = map fst hits" using with_status_rows(1)[OF Some] .
    then have len: "length (map snd rows) = length hits" by (metis length_map)
    have zip: "((r, c), os) \<in> set (zip hits (map snd rows)) \<Longrightarrow> (r, c) \<in> set hits \<and> (r, os) \<in> set rows" for r c os
    proof -
      assume "((r, c), os) \<in> set (zip hits (map snd rows))"
      then obtain i where i: "i < length hits" "hits ! i = (r, c)" "map snd rows ! i = os" using len by (auto simp: set_zip)
      then have "i < length rows" using len by simp
      moreover have "fst (rows ! i) = r" using fst_rows i \<open>i < length rows\<close> by (metis fst_conv nth_map)
      moreover have "snd (rows ! i) = os" using i \<open>i < length rows\<close> by simp
      ultimately show ?thesis using i by (metis nth_mem prod.collapse)
    qed
    show ?thesis
    proof (cases "hits = []")
      case True
      with hits Some show ?thesis by (simp add: ExactName_sql exact_name_def)
    next
      case False
      obtain r c os rest where s: "sort_key ?key (zip hits (map snd rows)) = ((r, c), os) # rest"
        "((r, c), os) \<in> set (zip hits (map snd rows))" "list_all (\<lambda>x. ?key ((r, c), os) \<le> ?key x) (zip hits (map snd rows))"
        using sort_key_zip_head[OF False len, of ?key] by metis
      have "fst (ExactName (sql_pg fmt pf table) () q) =
          (if 5 < length hits then Inr None else Inr (Some (of_wire (project r (Fin 1000000000) os))))"
        using hits Some s(1) by (simp add: ExactName_sql exact_name_def)
      moreover have "row_status pf (pfNow pf) r = Some os"
        using zip[OF s(2)] with_status_rows(2)[OF Some] by (auto simp: list_all_iff)
      moreover have "list_all (beats (r, c)) hits"
        unfolding list_all_iff
      proof
        fix h assume "h \<in> set hits"
        then have "h \<in> fst ` set (zip hits (map snd rows))" using len by (metis list.set_map map_fst_zip)
        then obtain r' c' os' where h: "h = (r', c')" "((r', c'), os') \<in> set (zip hits (map snd rows))" by force
        with s(3) have "(desc (pg_key c), uint (bzID (dr_biz r))) \<le> (desc (pg_key c'), uint (bzID (dr_biz r')))"
          by (force simp: list_all_iff)
        then show "beats (r, c) h" unfolding desc_le by (auto simp: beats_def h word_le_def)
      qed
      ultimately show ?thesis using hits Some False zip[OF s(2)] by auto
    qed
  qed
qed


text \<open>C7. The exact-name lookup fails only with an error of the statement. Otherwise it finds a pin exactly
  when between one and five businesses pass the prefilter and the coverage thresholds; the pin is one of them,
  none of them covers the query better, among equals its identifier is least, and it comes with its
  status and without a distance.\<close>

theorem ExactName_best_match:
  "(case name_hits pf table q nameMatchCoverage prefixMatchCoverage of
      None \<Rightarrow> fst (ExactName (sql_pg fmt pf table) () q) = Inl (ExactQuery err_levenshtein)
    | Some hits \<Rightarrow>
        (case with_status pf (pfNow pf) (map fst hits) of
           None \<Rightarrow> fst (ExactName (sql_pg fmt pf table) () q) = Inl (ExactQuery err_boolean)
         | Some rows \<Rightarrow>
             if hits = [] \<or> 5 < length hits then fst (ExactName (sql_pg fmt pf table) () q) = Inr None
             else \<exists>r c os. (r, c) \<in> set hits \<and> row_status pf (pfNow pf) r = Some os \<and>
               fst (ExactName (sql_pg fmt pf table) () q) = Inr (Some (of_wire (project r (Fin 1000000000) os))) \<and>
               list_all (beats (r, c)) hits))"
  by (rule ExactName_best_match_aux)

end
