(* ===== verification/Server_Theorems.thy ===== *)
theory Server_Theorems
  imports Api_Boot Sql_Database
begin

text \<open>
  The server end to end: from the process environment through boot, routing, the search service and
  the Postgres adapter to the bytes of a response. What is asked of the database is stated on the
  rows it returns; everything between those rows and the response is the code of the other theories.
\<close>

section \<open>What the database returns\<close>

text \<open>A row in the ranges of the schema's columns and of the projection: a distance, a score of at
  most 10, counts of 64 bits, and nothing JSON cannot encode.\<close>

definition json_safe :: "candidate \<Rightarrow> bool" where
  "json_safe c \<longleftrightarrow> finite_f (cDistanceKM c) \<and> (case cGoogleRating c of None \<Rightarrow> True | Some x \<Rightarrow> finite_f x)"

definition sound_rows :: "('s, 'row, 'e) pg \<Rightarrow> ('row, 'e) pg_rows \<Rightarrow> bool" where
  "sound_rows p rows \<longleftrightarrow> rwErr rows = None \<and>
     list_all (\<lambda>row. case pgScan p row of Inl e \<Rightarrow> False | Inr w \<Rightarrow> cand_ranges (of_wire w) \<and> json_safe (of_wire w)) (rwRows rows)"

text \<open>A query vector as the database's input conversion takes it: of the column's dimension, of numbers.\<close>

definition vector_fits :: "f32 list option \<Rightarrow> bool" where
  "vector_fits vec = (case vec of None \<Rightarrow> True | Some v \<Rightarrow> length v = EmbeddingDim \<and> list_all finite_f v)"

lemma scan_sound_rows:
  assumes "list_all (\<lambda>row. case pgScan p row of Inl e \<Rightarrow> False | Inr w \<Rightarrow> P (of_wire w)) rows"
  shows "\<exists>cs. scan_rows p rows out = Inr (out @ cs) \<and> list_all P cs"
  using assms
proof (induction rows arbitrary: out)
  case (Cons row rows)
  then obtain w where "pgScan p row = Inr w" "P (of_wire w)" by (auto split: sum.splits)
  moreover from Cons obtain cs where "scan_rows p rows (out @ [of_wire w]) = Inr ((out @ [of_wire w]) @ cs)" "list_all P cs"
    by fastforce
  ultimately show ?case
    by (intro exI[of _ "of_wire w # cs"]) (simp add: scanCandidate_def of_wire_def)
qed simp

lemma repo_search_answers:
  assumes "case fst (pgQuery (fst st) (snd st) (search_call (fst st) q opts)) of Inl e \<Rightarrow> False | Inr rows \<Rightarrow> sound_rows (fst st) rows"
  obtains cs st' where "repo_search st q opts = (Inr cs, st')" "list_all (\<lambda>c. cand_ranges c \<and> json_safe c) cs"
    "fst st' = fst st"
proof -
  let ?p = "fst st" and ?call = "search_call (fst st) q opts"
  obtain rows s' where q: "pgQuery ?p (snd st) ?call = (Inr rows, s')" "sound_rows ?p rows"
    using assms by (cases "pgQuery ?p (snd st) ?call") (auto split: sum.splits)
  from q(2) obtain cs where cs: "scan_rows ?p (rwRows rows) [] = Inr cs" "list_all (\<lambda>c. cand_ranges c \<and> json_safe c) cs"
    using scan_sound_rows[where P = "\<lambda>c. cand_ranges c \<and> json_safe c" and out = "[]"]
    unfolding sound_rows_def by fastforce
  from q cs(1) have "repo_search st q opts = (Inr cs, ?p, s')"
    by (simp add: repo_search_def port_search_def Search_repo_call sound_rows_def)
  with cs(2) that show thesis by force
qed

section \<open>The response\<close>

lemma Handler_search:
  "rpStatus (fst (Handler origin env ctx_err se \<lparr>rqMethod = ''GET'', rqPath = ''/search'', rqQuery = params\<rparr> w)) =
     rpStatus (fst (handleSearch env ctx_err se params w))"
  "rpBody (fst (Handler origin env ctx_err se \<lparr>rqMethod = ''GET'', rqPath = ''/search'', rqQuery = params\<rparr> w)) =
     rpBody (fst (handleSearch env ctx_err se params w))"
  by (simp_all add: Handler_def withCORS_def logRequests_def route_def Let_def split: prod.split)

lemma yaml_scores_clean:
  assumes "list_all (\<lambda>c. cand_ranges c \<and> json_safe c) cs"
  shows "list_all (\<lambda>c. scoreCandidate c ranking_yaml \<noteq> NaN \<and> scoreCandidate c ranking_yaml \<noteq> PInf) (hardFilter cs ranking_yaml)"
proof -
  have "scoreCandidate c ranking_yaml \<noteq> NaN \<and> scoreCandidate c ranking_yaml \<noteq> PInf" if "c \<in> set cs" for c
    using assms that yaml_score_aux[of c] by (auto simp: list_all_iff)
  then show ?thesis by (auto simp: list_all_iff hardFilter_filter)
qed

text \<open>The score a client sees: the weighted sum, or 1 for the pin.\<close>

definition score_shown :: "search_result \<Rightarrow> bool" where
  "score_shown r \<longleftrightarrow> (case rsScore r of Fin x \<Rightarrow> 0 \<le> x \<and> x \<le> 129 / 128 | _ \<Rightarrow> False)"

lemma toResult_shown:
  assumes "(\<exists>c. cand_ranges c \<and> json_safe c \<and> srCandidate r = c \<and> srScore r = scoreCandidate c ranking_yaml) \<or>
    json_safe (srCandidate r) \<and> srScore r = PInf"
  shows "score_shown (toResult env r) \<and> encodable_result (toResult env r)"
  using assms yaml_score_aux[of "srCandidate r"]
  by (auto simp: score_shown_def encodable_result_def json_safe_def)

lemma toResult_id: "rsID (toResult env r) = aeUuid env (cID (srCandidate r))"
  by (simp add: toResult_def Let_def)

lemma toResult_name [simp]: "rsName (toResult env r) = cName (srCandidate r)"
  by (simp add: toResult_def Let_def)

text \<open>The service of a server that was booted with the shipped configuration, and the options of the search
  statement it makes for a query.\<close>

definition booted_service :: "('s, 'row, 'h, 'b, 'o, 'f, 'e) host \<Rightarrow> (('s, 'row, 'e) pg \<times> 's, 'h \<times> nat \<times> 'o, 'e port_error) service" where
  "booted_service ho = New_service repo_search repo_exact ranking_yaml (flIntent (FromEnv (hoUnicode ho) (hoEnv ho)))
     (fst (buildEmbedder ho (flSemantic (FromEnv (hoUnicode ho) (hoEnv ho)))))"

lemma booted_service_sel:
  "svSearch (booted_service ho) = repo_search" "svExact (booted_service ho) = repo_exact" "svCfg (booted_service ho) = ranking_yaml"
  "svIntentEnabled (booted_service ho) = flIntent (FromEnv (hoUnicode ho) (hoEnv ho))"
  by (simp_all add: booted_service_def New_service_def)

definition statement_opts :: "unicode \<Rightarrow> ('r, 'm, 'e) service \<Rightarrow> string \<Rightarrow> search_opts \<Rightarrow> 'm \<Rightarrow> search_opts" where
  "statement_opts U sv q opts m = opts\<lparr>soLimit := 150, soOverlay := query_overlay U sv q, soQueryVec := query_vec sv q m\<rparr>"

lemma booted_vector_fits:
  "pred_option (list_all finite_f) (query_vec (booted_service ho) q m) \<Longrightarrow> vector_fits (query_vec (booted_service ho) q m)"
  using query_embedder_dim[of ho "flSemantic (FromEnv (hoUnicode ho) (hoEnv ho))" _ m q]
  by (auto simp: vector_fits_def query_vec_def booted_service_def New_service_def split: option.split sum.split) (metis prod.collapse)

lemma booted_search_aux:
  fixes ho :: "('s, 'row, 'h, 'b, 'o, 'f, 'e) host" and w :: "(('s, 'row, 'e) pg \<times> 's, 'h \<times> nat \<times> 'o) world"
  assumes boot: "openPool ho (hoEnv ho ''LEMON_DATABASE_URL'') = Some pool"
      "loadRanking ho (hoEnv ho ''LEMON_RANKING_CONFIG'') = Some ranking_yaml"
    and request: "\<not> bad_params env params" "trim_space (params ''q'') = q" "q \<noteq> []"
    and search: "repo_search (wRepo w) q (statement_opts (aeUnicode env) (booted_service ho) q
        (request_opts env params (wTick w + 1)) (wEmb w)) = (found, st')"
  shows "let rp = fst (Handler origin env (None :: 'x option) (btServer (boot ho))
             \<lparr>rqMethod = ''GET'', rqPath = ''/search'', rqQuery = params\<rparr> w) in
    case (found, fst (repo_exact st' q)) of
      (Inr cs, Inr pin) \<Rightarrow>
        list_all (\<lambda>c. cand_ranges c \<and> json_safe c) cs \<and> pred_option json_safe pin \<longrightarrow>
        rpStatus rp = 200 \<and>
        (\<exists>rs t. rpBody rp = Some (SearchBody \<lparr>spQuery = q, spResults = rs, spTimings = t\<rparr>) \<and>
          length rs \<le> 15 \<and> distinct (map (\<lambda>r. name_key (aeUnicode env) (rsName r)) rs) \<and> list_all score_shown rs \<and>
          list_all (\<lambda>r. \<exists>c \<in> set cs \<union> set_option pin. rsID r = aeUuid env (cID c) \<and> rsName r = cName c) rs \<and>
          (case pin of None \<Rightarrow> True | Some p \<Rightarrow>
             (flIntent (FromEnv (hoUnicode ho) (hoEnv ho)) \<and> IsCategorical (aeUnicode env) q) \<or>
             (\<exists>rest. rs = toResult env \<lparr>srCandidate = p, srScore = PInf\<rparr> # rest)))
    | _ \<Rightarrow> rpStatus rp = 500 \<and> rpBody rp = Some SearchFailed"
proof -
  define sv where "sv = booted_service ho"
  have se: "seSvc (btServer (boot ho)) = Some sv" using boot by (simp add: boot_svc sv_def booted_service_def)
  note sel = booted_service_sel[of ho, folded sv_def]
  let ?U = "aeUnicode env" and ?opts = "request_opts env params (wTick w + 1)"
  note search = search[unfolded statement_opts_def, folded sv_def]
  have fail: "rpStatus rp = 500 \<and> rpBody rp = Some SearchFailed"
    if "search_spec ?U (aeUuid env) (None :: 'x option) sv q ?opts (wRepo w) (wEmb w) = Inl e"
      "rp = fst (Handler origin env (None :: 'x option) (btServer (boot ho))
             \<lparr>rqMethod = ''GET'', rqPath = ''/search'', rqQuery = params\<rparr> w)" for e rp
  proof -
    have "fst (handleSearch env (None :: 'x option) (btServer (boot ho)) params w) = writeJSON 500 SearchFailed"
      by (rule handleSearch_failed[OF se request]) (simp only: Search_spec_aux after_params_sel that(1))
    then show ?thesis by (simp add: that(2) Handler_search)
  qed
  show ?thesis
  proof (cases found)
    case (Inl e)
    have "search_spec ?U (aeUuid env) (None :: 'x option) sv q ?opts (wRepo w) (wEmb w) = Inl (Retrieval e)"
      using search by (simp add: search_spec_def sel Inl)
    from fail[OF this refl] show ?thesis by (simp add: Inl Let_def)
  next
    case (Inr cs)
    note found = Inr
    show ?thesis
    proof (cases "fst (repo_exact st' q)")
      case (Inl e)
      have "search_spec ?U (aeUuid env) (None :: 'x option) sv q ?opts (wRepo w) (wEmb w) = Inl (ExactNameLookup e)"
        using search by (simp add: search_spec_def sel Inl found)
      from fail[OF this refl] show ?thesis by (simp add: Inl found Let_def)
    next
      case (Inr pin)
      show ?thesis
      proof (cases "list_all (\<lambda>c. cand_ranges c \<and> json_safe c) cs \<and> pred_option json_safe pin")
        case True
        then have sound: "list_all (\<lambda>c. cand_ranges c \<and> json_safe c) cs" "\<forall>c \<in> set_option pin. json_safe c"
          by (auto simp: option.pred_set)
        obtain ranked where ranked: "search_spec ?U (aeUuid env) (None :: 'x option) sv q ?opts (wRepo w) (wEmb w) = Inr ranked"
          "length ranked \<le> 15" "distinct (map (\<lambda>r. name_key ?U (cName (srCandidate r))) ranked)"
          "list_all (\<lambda>r. srCandidate r \<in> set cs \<and> srScore r = scoreCandidate (srCandidate r) ranking_yaml \<or>
             pin = Some (srCandidate r) \<and> srScore r = PInf) ranked"
          "\<And>p. \<lbrakk>\<not> suppress_pin ?U sv q; pin = Some p\<rbrakk> \<Longrightarrow> \<exists>rest. ranked = \<lparr>srCandidate = p, srScore = PInf\<rparr> # rest"
          by (rule search_spec_outcome[where sv = sv and r = "wRepo w" and q = q and opts = ?opts and U = ?U and m = "wEmb w"
              and ustr = "aeUuid env", unfolded sel, OF search[unfolded found] Inr yaml_scores_clean[OF sound(1)]]) (rule that)
        obtain t where rp: "fst (handleSearch env (None :: 'x option) (btServer (boot ho)) params w) =
            writeJSON 200 (SearchBody \<lparr>spQuery = q, spResults = map (toResult env) ranked, spTimings = t\<rparr>)"
          using handleSearch_ok[OF se request] ranked(1) unfolding Search_spec_aux after_params_sel by metis
        have "list_all (\<lambda>r. score_shown (toResult env r) \<and> encodable_result (toResult env r)) ranked"
          using ranked(4) sound by (fastforce simp: list_all_iff intro!: toResult_shown)
        then have "list_all encodable_result (map (toResult env) ranked)" "list_all score_shown (map (toResult env) ranked)"
          by (auto simp: list_all_iff)
        moreover have "list_all (\<lambda>r. \<exists>c \<in> set cs \<union> set_option pin. rsID r = aeUuid env (cID c) \<and> rsName r = cName c)
            (map (toResult env) ranked)"
          using ranked(4) by (fastforce simp: list_all_iff toResult_id)
        moreover have "case pin of None \<Rightarrow> True | Some p \<Rightarrow>
            (flIntent (FromEnv (hoUnicode ho) (hoEnv ho)) \<and> IsCategorical ?U q) \<or>
            (\<exists>rest. map (toResult env) ranked = toResult env \<lparr>srCandidate = p, srScore = PInf\<rparr> # rest)"
        proof (cases pin)
          case (Some p)
          then show ?thesis using ranked(5)[OF _ Some] by (cases "suppress_pin ?U sv q") (auto simp: suppress_pin_def sel)
        qed simp
        ultimately show ?thesis
          using ranked(2,3) unfolding Let_def Handler_search rp found Inr by (simp add: comp_def)
      next
        case False
        then show ?thesis by (auto simp: found Inr Let_def)
      qed
    qed
  qed
qed


end
