(* ===== verification/System_Theorems.thy ===== *)
theory System_Theorems
  imports Server_Theorems
begin

text \<open>
  The server over its database: the booted server of \<open>Server_Theorems\<close> on the queries of
  \<open>Sql_Database\<close>, so that what remains assumed is what the extensions of Postgres document and that
  the stored rows are in range.
\<close>

section \<open>Sound tables\<close>

text \<open>What is relied on: the edit distance, great-circle distances of less than \<open>2 ^ 30\<close> metres between places on
  earth, days of a week, that a text without a backslash is like itself followed by a wildcard, and that the vector input
  accepts a literal of numbers of the column's dimension.\<close>

definition pg_laws :: "(f32 \<Rightarrow> string) \<Rightarrow> pg_fun \<Rightarrow> db_row list \<Rightarrow> bool" where
  "pg_laws fmt pf table \<longleftrightarrow> lev_documented (pfLev pf) \<and>
     (\<forall>a b. pfEarth pf (fst a) (snd a) \<and> pfEarth pf (fst b) (snd b) \<longrightarrow>
        (case pfDistance pf a b of Fin d \<Rightarrow> 0 \<le> d \<and> d \<le> 2 ^ 30 | _ \<Rightarrow> False)) \<and>
     (\<forall>i. tsDay (pfLocal pf i) < 7) \<and>
     (\<forall>s. 92 \<notin> set s \<longrightarrow> pfIlike pf s (s @ [37])) \<and>
     (\<forall>v n. length v = EmbeddingDim \<and> list_all finite_f v \<longrightarrow>
        (case vectorParam fmt (Some v) of SqlText t \<Rightarrow> pfNearest pf table t n \<noteq> None | _ \<Rightarrow> False))"

text \<open>A place that \<open>ll_to_earth\<close> takes.\<close>

definition on_earth :: "pg_fun \<Rightarrow> (f64 \<times> f64) option \<Rightarrow> bool" where
  "on_earth pf loc = (case loc of None \<Rightarrow> True | Some a \<Rightarrow> pfEarth pf (fst a) (snd a))"

text \<open>A business whose numbers are in range, whose place is on earth, whose hours carry only boolean \<open>closed\<close> marks, and whose name
  is of words that fuzzystrmatch compares; and a stored row of such a business.\<close>

definition searchable :: "pg_fun \<Rightarrow> business \<Rightarrow> bool" where
  "searchable pf b \<longleftrightarrow> review_count b < 2 ^ 63 \<and>
     (case map_option f_to_f32 (bzLemonScore b) of None \<Rightarrow> True | Some x \<Rightarrow> f_le (Fin 0) x \<and> f_le x (Fin 10)) \<and>
     (case map_option f_to_f32 (bzGoogleRating b) of None \<Rightarrow> True | Some x \<Rightarrow> finite_f x) \<and>
     on_earth pf (loc_of b) \<and> casts_ok (pfLocale pf) (map_option (pfJson pf) (bzHours b)) \<and>
     short_words (pg_words (pfLocale pf) (runes (bzName b))) \<and>
     length (pg_words (pfLocale pf) (runes (bzName b))) < 2 ^ 53"

definition stored_ok :: "pg_fun \<Rightarrow> db_row \<Rightarrow> bool" where
  "stored_ok pf r \<longleftrightarrow> searchable pf (dr_biz r) \<and> on_earth pf (brLoc (drRow r)) \<and> 0 \<le> bzFriendCount (dr_biz r) \<and> bzFriendCount (dr_biz r) < 2 ^ 63"

lemmas stored_ok_defs = stored_ok_def searchable_def

lemma project_ok:
  assumes "stored_ok pf r" "nonneg_f km" "finite_f km"
  shows "cand_ranges (of_wire (project r km os)) \<and> json_safe (of_wire (project r km os))"
  using assms by (auto simp: of_wire_eq project_def stored_ok_defs cand_ranges_def json_safe_def Let_def split: option.splits)

lemma row_status_total: "pg_laws fmt pf table \<Longrightarrow> stored_ok pf r \<Longrightarrow> row_status pf now r \<noteq> None"
  unfolding row_status_def by (rule casts_ok_status) (auto simp: pg_laws_def stored_ok_defs Let_def)

lemma distance_km_ok:
  assumes "pg_laws fmt pf table" "stored_ok pf r" "pfEarth pf lat lng"
  shows "nonneg_f (distance_km pf lat lng r) \<and> finite_f (distance_km pf lat lng r)"
proof (cases "brLoc (drRow r)")
  case (Some loc)
  obtain d where d: "pfDistance pf loc (lat, lng) = Fin d" "0 \<le> d" "d \<le> 2 ^ 30"
  proof -
    have "pfEarth pf (fst loc) (snd loc)" using assms(2) by (simp add: stored_ok_def on_earth_def Some)
    then have "case pfDistance pf loc (lat, lng) of Fin d \<Rightarrow> 0 \<le> d \<and> d \<le> 2 ^ 30 | _ \<Rightarrow> False"
      using assms(1,3) unfolding pg_laws_def by (metis fst_conv snd_conv)
    with that show thesis by (cases "pfDistance pf loc (lat, lng)") auto
  qed
  then obtain x where "fround (d / 1000) = Fin x" "0 \<le> x" using fround_bounded[of "d / 1000" 30] by auto
  then show ?thesis by (simp add: distance_km_def Some d)
qed (simp add: distance_km_def)

lemma semantic_ids_total:
  assumes "pg_laws fmt pf table" "vector_fits vec"
  shows "semantic_ids pf table (vectorParam fmt vec) n \<noteq> None"
proof (cases vec)
  case (Some v)
  then have "length v = EmbeddingDim \<and> list_all finite_f v" using assms(2) by (simp add: vector_fits_def)
  then have "case vectorParam fmt (Some v) of SqlText t \<Rightarrow> pfNearest pf table t n \<noteq> None | _ \<Rightarrow> False"
    using assms(1) unfolding pg_laws_def by blast
  then show ?thesis by (auto simp: Some semantic_ids_def split: sql_arg.splits)
qed (simp add: semantic_ids_def vectorParam_def)

lemma search_candidates_total:
  assumes "pg_laws fmt pf table" "list_all (stored_ok pf) table" "pfEarth pf lat lng" "0 \<le> n" "vector_fits vec"
  shows "\<exists>ws. search_candidates pf table q lat lng now n cat subs unis specs prices op (vectorParam fmt vec) = Inr ws"
proof -
  obtain ids where ids: "semantic_ids pf table (vectorParam fmt vec) n = Some ids" using semantic_ids_total assms(1,5) by blast
  define recalled where "recalled = take (nat (if op then n * 5 else n)) (sort_key (recall_key pf q lat lng)
    (filter (\<lambda>r. recall_clause pf q ids r \<and> filter_clause cat subs unis specs prices r) table))"
  have "set recalled \<subseteq> set table" unfolding recalled_def using set_take_subset by fastforce
  then have "list_all (\<lambda>r. row_status pf now r \<noteq> None) recalled"
    using row_status_total[OF assms(1)] assms(2) by (auto simp: list_all_iff)
  then obtain ps where "with_status pf now recalled = Some ps" using with_status_total by blast
  with ids assms(3,4) show ?thesis by (simp add: search_candidates_def recalled_def Let_def)
qed

text \<open>Over a sound table a search from a place on earth is answered with sound rows.\<close>

lemma sql_answers:
  assumes laws: "pg_laws fmt pf table" and rows: "list_all (stored_ok pf) table" and earth: "pfEarth pf (soLat opts) (soLng opts)"
    and opts: "0 \<le> soLimit opts" "vector_fits (soQueryVec opts)"
  shows "case fst (pgQuery (sql_pg fmt pf table) s (search_call (sql_pg fmt pf table) q opts)) of
    Inl e \<Rightarrow> False | Inr rows \<Rightarrow> sound_rows (sql_pg fmt pf table) rows"
proof -
  define ov where "ov = soOverlay opts"
  obtain ws where ws: "search_candidates pf table q (soLat opts) (soLng opts) (soNow opts) (soLimit opts)
      (case ovCategoryFilter ov of None \<Rightarrow> SqlNull | Some c \<Rightarrow> SqlText c) (nilToEmpty (ovSubcategoryFilter ov))
      (nilToEmpty (ovUniversalTagFilter ov)) (nilToEmpty (ovSpecificTagFilter ov)) (nilToEmpty (ovPriceFilter ov))
      (ovRequireOpenNow ov) (vectorParam fmt (soQueryVec opts)) = Inr ws"
    using search_candidates_total[OF laws rows] earth opts by blast
  have "list_all (\<lambda>w. cand_ranges (of_wire w) \<and> json_safe (of_wire w)) ws"
    using ws
  proof (rule search_candidates_rows)
    fix checked ids assume "ws = map (\<lambda>(r, os). project r (distance_km pf (soLat opts) (soLng opts) r) os) checked"
      and "list_all (\<lambda>(r, os). r \<in> set table \<and> recall_clause pf q ids r \<and>
        filter_clause (case ovCategoryFilter ov of None \<Rightarrow> SqlNull | Some c \<Rightarrow> SqlText c) (nilToEmpty (ovSubcategoryFilter ov))
          (nilToEmpty (ovUniversalTagFilter ov)) (nilToEmpty (ovSpecificTagFilter ov)) (nilToEmpty (ovPriceFilter ov)) r \<and>
        row_status pf (soNow opts) r = Some os \<and> (ovRequireOpenNow ov \<longrightarrow> osOpenNow os \<noteq> Some False)) checked"
    then show ?thesis
      using rows project_ok distance_km_ok[OF laws _ earth] by (fastforce simp: list_all_iff)
  qed
  with ws show ?thesis
    by (simp add: search_call_def Let_def ov_def[symmetric] sql_pg_def sound_rows_def list_all_iff)
qed

section \<open>Finding a business by its name\<close>

lemma at_most_one: "x \<le> 1 \<Longrightarrow> f_le (f_const x) (Fin 1)"
  using fround_mono[of x 1] by (simp add: f_const_def)

definition stored_name :: "db_row \<Rightarrow> string" where
  "stored_name r = bzName (dr_biz r)"

text \<open>The stored businesses whose name a query matches.\<close>

definition matching :: "pg_fun \<Rightarrow> db_row list \<Rightarrow> string \<Rightarrow> db_row list" where
  "matching pf table q =
     filter (\<lambda>r. name_prefilter pf q r \<and> name_hit pf q nameMatchCoverage prefixMatchCoverage r = Some True) table"

lemma match_total:
  assumes "pg_laws fmt pf table" "stored_ok pf b" "stored_ok pf r"
  shows "\<exists>c. lemon_name_match (pfLocale pf) (pfLev pf) (runes (stored_name b)) (runes (bzName (dr_biz r))) = Some c \<and> unit_f c"
    "\<exists>c. lemon_prefix_match (pfLocale pf) (pfLev pf) (runes (stored_name b)) (runes (bzName (dr_biz r))) = Some c \<and> unit_f c"
  using assms by (auto intro!: name_match_total prefix_match_total simp: pg_laws_def stored_ok_defs stored_name_def Let_def)

lemma coverage_unit:
  assumes "pg_laws fmt pf table" "stored_ok pf b" "stored_ok pf r" "coverage pf (stored_name b) r = Some c"
  shows "unit_f c"
  using match_total[OF assms(1-3)] assms(4) by (auto simp: coverage_def split: if_splits)

lemma coverage_self:
  assumes "pg_laws fmt pf table" "stored_ok pf b"
  shows "coverage pf (stored_name b) b = Some (Fin 1)"
    "name_hit pf (stored_name b) nameMatchCoverage prefixMatchCoverage b = Some True"
proof -
  have n: "lemon_name_match (pfLocale pf) (pfLev pf) (runes (stored_name b)) (runes (stored_name b)) = Some (Fin 1)"
    using assms by (intro name_match_self) (auto simp: pg_laws_def stored_ok_defs stored_name_def Let_def)
  obtain c where c: "lemon_prefix_match (pfLocale pf) (pfLev pf) (runes (stored_name b)) (runes (stored_name b)) = Some c" "unit_f c"
    using match_total(2)[OF assms(1,2,2)] by (auto simp: stored_name_def)
  have "\<not> pg_key (Fin 1) < pg_key c" using c(2) by (auto simp: unit_f_iff less_prod_def)
  then show "coverage pf (stored_name b) b = Some (Fin 1)" using n c by (simp add: coverage_def stored_name_def)
  have "f_le nameMatchCoverage (Fin 1)" by (simp add: nameMatchCoverage_def at_most_one)
  then show "name_hit pf (stored_name b) nameMatchCoverage prefixMatchCoverage b = Some True"
    using n by (simp add: name_hit_def stored_name_def)
qed

lemma name_hits_total:
  assumes "pg_laws fmt pf table" "stored_ok pf b" "list_all (stored_ok pf) table"
  shows "\<exists>hits. name_hits pf table (stored_name b) cov pcov = Some hits"
proof -
  have "name_hit pf (stored_name b) cov pcov r \<noteq> None \<and> coverage pf (stored_name b) r \<noteq> None" if "r \<in> set table" for r
    using match_total[OF assms(1,2), of r] assms(3) that by (auto simp: name_hit_def coverage_def list_all_iff)
  note total = this
  obtain tested where tested: "those (map (\<lambda>r. map_option (\<lambda>h. (r, h)) (name_hit pf (stored_name b) cov pcov r))
      (filter (name_prefilter pf (stored_name b)) table)) = Some tested"
    using those_total[of "name_hit pf (stored_name b) cov pcov" "filter (name_prefilter pf (stored_name b)) table"] total
    by (auto simp: list_all_iff)
  have "set (map fst (filter snd tested)) \<subseteq> set table" 
  proof -
    have "set (map fst (filter snd tested)) \<subseteq> set (map fst tested)" by auto
    also have "\<dots> \<subseteq> set table" using those_Some_map[OF tested] by auto
    finally show ?thesis .
  qed
  then obtain hits where "those (map (\<lambda>r. map_option (\<lambda>c. (r, c)) (coverage pf (stored_name b) r)) (map fst (filter snd tested))) = Some hits"
    using those_total[of "coverage pf (stored_name b)" "map fst (filter snd tested)"] total by (force simp: list_all_iff)
  with tested show ?thesis by (simp add: name_hits_def)
qed

text \<open>The exact-name lookup of a stored name: the least business that the name covers entirely.\<close>

lemma stored_name_pin:
  assumes laws: "pg_laws fmt pf table" and rows: "list_all (stored_ok pf) table" and b: "b \<in> set table"
    and few: "length (matching pf table (stored_name b)) \<le> 5" and plain: "92 \<notin> set (runes (stored_name b))"
  obtains r os where "r \<in> set table" "coverage pf (stored_name b) r = Some (Fin 1)" "bzID (dr_biz r) \<le> bzID (dr_biz b)"
    "row_status pf (pfNow pf) r = Some os"
    "fst (ExactName (sql_pg fmt pf table) () (stored_name b)) = Inr (Some (of_wire (project r (Fin 1000000000) os)))"
proof -
  have ok: "stored_ok pf b" using rows b by (auto simp: list_all_iff)
  obtain hits where hits: "name_hits pf table (stored_name b) nameMatchCoverage prefixMatchCoverage = Some hits"
    using name_hits_total[OF laws ok rows] by blast
  note h = name_hits_rows[OF hits]
  have "pfIlike pf (runes (stored_name b)) (runes (stored_name b) @ [37])" using laws plain by (simp add: pg_laws_def)
  then have "b \<in> set (map fst hits)" unfolding h(1) using b coverage_self[OF laws ok] by (simp add: name_prefilter_def stored_name_def)
  then have bh: "(b, Fin 1) \<in> set hits" using h(2) coverage_self(1)[OF laws ok] by (auto simp: list_all_iff)
  have len: "length hits \<le> 5" using few h(1) by (metis length_map matching_def)
  have sub: "set (map fst hits) \<subseteq> set table" unfolding h(1) by auto
  then have "list_all (\<lambda>r. row_status pf (pfNow pf) r \<noteq> None) (map fst hits)"
    using row_status_total[OF laws] rows by (auto simp: list_all_iff)
  then obtain checked where "with_status pf (pfNow pf) (map fst hits) = Some checked" using with_status_total by blast
  with ExactName_best_match_aux[where pf = pf and table = table and q = "stored_name b" and fmt = fmt] hits bh len
  obtain r c os where r: "(r, c) \<in> set hits" "row_status pf (pfNow pf) r = Some os"
    "fst (ExactName (sql_pg fmt pf table) () (stored_name b)) = Inr (Some (of_wire (project r (Fin 1000000000) os)))"
    "list_all (beats (r, c)) hits" by (auto split: if_splits)
  have rt: "r \<in> set table" using sub r(1) by force
  moreover have cov: "coverage pf (stored_name b) r = Some c" using h(2) r(1) by (auto simp: list_all_iff)
  moreover have "stored_ok pf r" using rows rt by (auto simp: list_all_iff)
  then have "unit_f c" using coverage_unit[OF laws ok _ cov] by blast
  moreover have "beats (r, c) (b, Fin 1)" using r(4) bh by (auto simp: list_all_iff)
  ultimately have "c = Fin 1" "bzID (dr_biz r) \<le> bzID (dr_biz b)" by (auto simp: beats_def unit_f_iff less_prod_def)
  with that rt cov r show thesis by simp
qed

lemma stored_name_found_aux:
  fixes ho :: "(unit, wire \<times> int, 'h, 'b, 'o, 'f, string) host"
    and w :: "((unit, wire \<times> int, string) pg \<times> unit, 'h \<times> nat \<times> 'o) world"
  assumes boot: "openPool ho (hoEnv ho ''LEMON_DATABASE_URL'') = Some (sql_pg fmt pf table, ())"
      "loadRanking ho (hoEnv ho ''LEMON_RANKING_CONFIG'') = Some ranking_yaml"
    and database: "wRepo w = (sql_pg fmt pf table, ())" "pg_laws fmt pf table" "list_all (stored_ok pf) table" "b \<in> set table"
    and request: "\<not> bad_params env params" "trim_space (params ''q'') = stored_name b" "stored_name b \<noteq> []"
      "pfEarth pf (fst (projr (parseLatLng env params))) (snd (projr (parseLatLng env params)))"
      "pred_option (list_all finite_f) (query_vec (booted_service ho) (stored_name b) (wEmb w))"
    and name: "length (matching pf table (stored_name b)) \<le> 5" "92 \<notin> set (runes (stored_name b))"
      "\<not> (flIntent (FromEnv (hoUnicode ho) (hoEnv ho)) \<and> IsCategorical (aeUnicode env) (stored_name b))"
  shows "let rp = fst (Handler origin env (None :: 'x option) (btServer (boot ho))
             \<lparr>rqMethod = ''GET'', rqPath = ''/search'', rqQuery = params\<rparr> w) in
    rpStatus rp = 200 \<and>
    (\<exists>r \<in> set table. \<exists>x rest t. coverage pf (stored_name b) r = Some (Fin 1) \<and> bzID (dr_biz r) \<le> bzID (dr_biz b) \<and>
       rpBody rp = Some (SearchBody \<lparr>spQuery = stored_name b, spResults = x # rest, spTimings = t\<rparr>) \<and>
       rsID x = aeUuid env (bzID (dr_biz r)) \<and> rsName x = stored_name r \<and> rsScore x = Fin 1)"
proof -
  obtain r os where r: "r \<in> set table" "coverage pf (stored_name b) r = Some (Fin 1)" "bzID (dr_biz r) \<le> bzID (dr_biz b)"
    "fst (ExactName (sql_pg fmt pf table) () (stored_name b)) = Inr (Some (of_wire (project r (Fin 1000000000) os)))"
    using stored_name_pin[OF database(2-4) name(1,2)] by metis
  let ?pin = "of_wire (project r (Fin 1000000000) os)"
  have "stored_ok pf r" using database(3) r(1) by (auto simp: list_all_iff)
  then have safe: "json_safe ?pin" using project_ok[of pf r "Fin 1000000000"] by simp
  let ?opts = "statement_opts (aeUnicode env) (booted_service ho) (stored_name b) (request_opts env params (wTick w + 1)) (wEmb w)"
  have opts: "pfEarth pf (soLat ?opts) (soLng ?opts)" "0 \<le> soLimit ?opts" "vector_fits (soQueryVec ?opts)"
    using request(4) booted_vector_fits[OF request(5)] by (simp_all add: statement_opts_def request_opts_def)
  have "case fst (pgQuery (fst (wRepo w)) (snd (wRepo w)) (search_call (fst (wRepo w)) (stored_name b) ?opts)) of
      Inl e \<Rightarrow> False | Inr rows \<Rightarrow> sound_rows (fst (wRepo w)) rows"
    unfolding database(1) fst_conv by (rule sql_answers[OF database(2,3) opts])
  then obtain cs st' where cs: "repo_search (wRepo w) (stored_name b) ?opts = (Inr cs, st')"
    "list_all (\<lambda>c. cand_ranges c \<and> json_safe c) cs" "fst st' = fst (wRepo w)"
    by (rule repo_search_answers)
  have exact: "fst (repo_exact st' (stored_name b)) = Inr (Some ?pin)"
    using r(4) cs(3) by (cases st') (auto simp: repo_exact_def port_exact_def database(1) split: prod.split)
  have "rsID (toResult env \<lparr>srCandidate = ?pin, srScore = PInf\<rparr>) = aeUuid env (bzID (dr_biz r)) \<and>
      rsName (toResult env \<lparr>srCandidate = ?pin, srScore = PInf\<rparr>) = stored_name r \<and>
      rsScore (toResult env \<lparr>srCandidate = ?pin, srScore = PInf\<rparr>) = Fin 1"
    by (simp add: toResult_def of_wire_eq project_def stored_name_def is_pinf_def Let_def)
  with booted_search_aux[OF boot request(1-3) cs(1), of origin] exact cs(2) safe r(1-3) name(3)
  show ?thesis by (auto simp: Let_def)
qed

text \<open>A business is found by its name. The booted server, over a table of sound rows, is asked for the
  stored name of a business, from a place on earth: it answers 200, and the first result is a stored
  business that the name covers entirely, the least such by identifier, with score 1; this needs
  that at most five businesses match, that the name has no backslash, that the query is not taken for a category, and
  that the embedder, if there is one, answers the query with numbers or not at all.\<close>

theorem stored_name_found:
  fixes ho :: "(unit, wire \<times> int, 'h, 'b, 'o, 'f, string) host"
    and w :: "((unit, wire \<times> int, string) pg \<times> unit, 'h \<times> nat \<times> 'o) world"
  assumes boot: "openPool ho (hoEnv ho ''LEMON_DATABASE_URL'') = Some (sql_pg fmt pf table, ())"
      "loadRanking ho (hoEnv ho ''LEMON_RANKING_CONFIG'') = Some ranking_yaml"
    and database: "wRepo w = (sql_pg fmt pf table, ())" "pg_laws fmt pf table" "list_all (stored_ok pf) table" "b \<in> set table"
    and request: "\<not> bad_params env params" "trim_space (params ''q'') = stored_name b" "stored_name b \<noteq> []"
      "pfEarth pf (fst (projr (parseLatLng env params))) (snd (projr (parseLatLng env params)))"
      "pred_option (list_all finite_f) (query_vec (booted_service ho) (stored_name b) (wEmb w))"
    and name: "length (matching pf table (stored_name b)) \<le> 5" "92 \<notin> set (runes (stored_name b))"
      "\<not> (flIntent (FromEnv (hoUnicode ho) (hoEnv ho)) \<and> IsCategorical (aeUnicode env) (stored_name b))"
  shows "let rp = fst (Handler origin env (None :: 'x option) (btServer (boot ho))
             \<lparr>rqMethod = ''GET'', rqPath = ''/search'', rqQuery = params\<rparr> w) in
    rpStatus rp = 200 \<and>
    (\<exists>r \<in> set table. \<exists>x rest t. coverage pf (stored_name b) r = Some (Fin 1) \<and> bzID (dr_biz r) \<le> bzID (dr_biz b) \<and>
       rpBody rp = Some (SearchBody \<lparr>spQuery = stored_name b, spResults = x # rest, spTimings = t\<rparr>) \<and>
       rsID x = aeUuid env (bzID (dr_biz r)) \<and> rsName x = stored_name r \<and> rsScore x = Fin 1)"
  using stored_name_found_aux[OF assms] .

text \<open>A database of one business, for the witness.\<close>

definition small_pg :: pg_fun where
  "small_pg = \<lparr>pfLocale = c_locale, pfLev = (\<lambda>a b. Some (lev a b)), pfSimilar = (\<lambda>_ _. False), pfSimilarity = (\<lambda>_ _. Fin 0),
     pfIlike = (\<lambda>s p. p = s @ [37]), pfTsMatch = (\<lambda>_ _. True), pfTsRank = (\<lambda>_ _. Fin 0), pfEarth = (\<lambda>_ _. True),
     pfDistance = (\<lambda>_ _. Fin 500), pfNearest = (\<lambda>_ _ _. Some []), pfLocal = (\<lambda>_. \<lparr>tsDay = 4, tsTime = 0\<rparr>),
     pfJson = (\<lambda>_. JNull), pfNow = 0\<rparr>"

definition panther :: db_row where
  "panther = \<lparr>drRow = \<lparr>brBusiness =
       \<lparr>bzID = 1, bzName = ''Panther Coffee'', bzCategory = ''Food & Drinks'', bzSubcategory = Some ''Cafe'', bzSpecialty = None,
        bzArchetype = ArchetypeLowStakesFastNearby, bzAddress = None, bzNeighborhood = None, bzLatitude = Some (Fin 25),
        bzLongitude = Some (Fin (- 80)), bzLemonScore = None, bzGoogleRating = None, bzGoogleReviewCount = Some 100,
        bzPriceRange = Some ''$'', bzHours = None, bzPhotos = None, bzAbout = None, bzUniversalTags = None,
        bzSpecificTags = None, bzIsClaimed = True, bzFriendCount = 2\<rparr>,
      brLoc = Some (Fin 25, Fin (- 80)), brVector = [], brCreatedAt = 0\<rparr>, drEmbedding = None\<rparr>"

definition no_fmt :: "f32 \<Rightarrow> string" where
  "no_fmt x = ''0''"

lemma small_pg_laws: "pg_laws no_fmt small_pg table"
  by (auto simp: pg_laws_def small_pg_def lev_documented_def vectorParam_eq EmbeddingDim_def split: list.split)

lemma panther_words: "pg_words c_locale (runes ''Panther Coffee'') = [chars ''panther'', chars ''coffee'']"
proof -
  have "is_ascii ''Panther Coffee''" by code_simp
  then show ?thesis
    by (simp add: runes_ascii pg_words_def btrim_def is_space_def chars_def c_locale_def)
qed

lemma panther_ok: "stored_ok small_pg panther"
  by (simp add: stored_ok_defs on_earth_def panther_def small_pg_def review_count_def casts_ok_def panther_words short_words_def chars_def list_all_iff split: option.split)

definition small_host :: "(unit, wire \<times> int, unit, string, unit, unit, string) host" where
  "small_host = demo_host\<lparr>hoNewPool := (\<lambda>_. Inr (sql_pg no_fmt small_pg [panther], ()))\<rparr>"

definition small_world :: "((unit, wire \<times> int, string) pg \<times> unit, unit \<times> nat \<times> unit) world" where
  "small_world = \<lparr>wRepo = (sql_pg no_fmt small_pg [panther], ()), wEmb = ((), 0, ()), wTick = 0\<rparr>"

definition by_name :: query_values where
  "by_name = query_of [(''q'', ''Panther Coffee'')]"

lemma small_boot:
  "openPool small_host (hoEnv small_host ''LEMON_DATABASE_URL'') = Some (sql_pg no_fmt small_pg [panther], ())"
  "loadRanking small_host (hoEnv small_host ''LEMON_RANKING_CONFIG'') = Some ranking_yaml"
  "\<not> flIntent (FromEnv (hoUnicode small_host) (hoEnv small_host))"
proof -
  show "openPool small_host (hoEnv small_host ''LEMON_DATABASE_URL'') = Some (sql_pg no_fmt small_pg [panther], ())"
    by (simp add: openPool_def small_host_def demo_host_def Let_def)
  show "loadRanking small_host (hoEnv small_host ''LEMON_RANKING_CONFIG'') = Some ranking_yaml"
    using Load_ok[of "hoDecode small_host" "()" ranking_yaml] valid_ranking_yaml
    by (simp add: loadRanking_def LoadFile_def small_host_def demo_host_def)
  show "\<not> flIntent (FromEnv (hoUnicode small_host) (hoEnv small_host))"
    by (simp add: FromEnv_def small_host_def demo_host_def) code_simp
qed

lemma by_name_ok:
  "\<not> bad_params demo_env by_name" "trim_space (by_name ''q'') = stored_name panther"
proof -
  have trim: "trim_space [] = []" "trim_space ''Panther Coffee'' = ''Panther Coffee''" by code_simp+
  show "\<not> bad_params demo_env by_name"
    using default_coordinates[of by_name demo_env] by (simp add: bad_params_def by_name_def query_of_def trim)
  show "trim_space (by_name ''q'') = stored_name panther"
    by (simp add: by_name_def query_of_def trim stored_name_def panther_def)
qed

lemma panther_name: "stored_name panther = ''Panther Coffee''" "92 \<notin> set (runes (stored_name panther))"
proof -
  show n: "stored_name panther = ''Panther Coffee''" by (simp add: stored_name_def panther_def)
  have "is_ascii ''Panther Coffee''" by code_simp
  then show "92 \<notin> set (runes (stored_name panther))" by (simp add: n runes_ascii)
qed

lemma demo_service_vec:
  assumes "hoEnv ho = hoEnv demo_host" "hoUnicode ho = basic_unicode" "hoClient ho = echo_client" "q \<noteq> []"
    and "trim_space q = q"
  shows "query_vec (booted_service ho) q ((), 0, ()) = Some (replicate 384 (Fin 0))"
proof -
  have t: "truthy basic_unicode ''1''" by code_simp
  have e: "fst (buildEmbedder ho True) = Some (ollama_query ho \<lparr>olBaseURL = ''http://localhost:11434'', olModel = ''all-minilm''\<rparr>)"
    by (simp add: buildEmbedder_def New_ollama_def envOr_def assms demo_host_def)
  have "flSemantic (FromEnv (hoUnicode ho) (hoEnv ho))" using t by (simp add: assms FromEnv_def demo_host_def)
  then show ?thesis using e assms(3-5)
    by (simp add: query_vec_def booted_service_def New_service_def ollama_query_def Embed_ollama_def post_def echo_client_def
        toVector_def EmbeddingDim_def f_to_f32_0 del: f_to_f32.simps)
qed

lemma small_vec: "query_vec (booted_service small_host) (stored_name panther) (wEmb small_world) = Some (replicate 384 (Fin 0))"
proof -
  have "trim_space ''Panther Coffee'' = ''Panther Coffee''" by code_simp
  then show ?thesis using demo_service_vec[of small_host "stored_name panther"]
    by (simp add: panther_name(1)) (simp add: small_host_def demo_host_def small_world_def)
qed

theorem stored_name_found_witness:
  "\<exists>x rest t. rpBody (fst (Handler [] demo_env (None :: unit option) (btServer (boot small_host))
      \<lparr>rqMethod = ''GET'', rqPath = ''/search'', rqQuery = by_name\<rparr> small_world)) =
    Some (SearchBody \<lparr>spQuery = ''Panther Coffee'', spResults = x # rest, spTimings = t\<rparr>) \<and>
    rsName x = ''Panther Coffee'' \<and> rsScore x = Fin 1"
proof -
  have "length (matching small_pg [panther] (stored_name panther)) \<le> length [panther]"
    unfolding matching_def by (rule length_filter_le)
  then have few: "length (matching small_pg [panther] (stored_name panther)) \<le> 5" by simp
  have rows: "list_all (stored_ok small_pg) [panther]" using panther_ok by simp
  have earth: "pfEarth small_pg (fst (projr (parseLatLng demo_env by_name))) (snd (projr (parseLatLng demo_env by_name)))"
    by (simp add: small_pg_def)
  have ne: "stored_name panther \<noteq> []" by (simp add: panther_name(1))
  have repo: "wRepo small_world = (sql_pg no_fmt small_pg [panther], ())" by (simp add: small_world_def)
  have vec: "pred_option (list_all finite_f) (query_vec (booted_service small_host) (stored_name panther) (wEmb small_world))"
    by (simp add: small_vec list_all_iff)
  from stored_name_found[where origin = "[]", OF small_boot(1,2) repo small_pg_laws rows _ by_name_ok ne earth vec few panther_name(2)]
  show ?thesis using small_boot(3) by (auto simp: Let_def panther_name(1))
qed


text \<open>One answer of the search over that database, at the limit of the search service.\<close>

theorem search_contract_witness:
  "\<exists>rows. search_candidates small_pg [panther] [] (Fin 25) (Fin (- 80)) 0 150 SqlNull (SqlArray []) (SqlArray []) (SqlArray [])
      (SqlArray []) True SqlNull = Inr (map (\<lambda>(r, os). project r (distance_km small_pg (Fin 25) (Fin (- 80)) r) os) rows) \<and>
    length rows \<le> 150 \<and> distinct (map fst rows) \<and> list_all (\<lambda>(r, os). osOpenNow os \<noteq> Some False) rows"
proof -
  have rows: "list_all (stored_ok small_pg) [panther]" using panther_ok by simp
  have earth: "pfEarth small_pg (Fin 25) (Fin (- 80))" by (simp add: small_pg_def)
  have null: "vectorParam no_fmt None = SqlNull" by (simp add: vectorParam_def)
  have fits: "vector_fits None" by (simp add: vector_fits_def)
  obtain ws where ws: "search_candidates small_pg [panther] [] (Fin 25) (Fin (- 80)) 0 150 SqlNull (SqlArray []) (SqlArray [])
      (SqlArray []) (SqlArray []) True SqlNull = Inr ws"
    using search_candidates_total[OF small_pg_laws rows earth _ fits] unfolding null by (metis zero_le_numeral)
  show ?thesis
    using search_contract[where pf = small_pg and table = "[panther]" and q = "[]" and lat = "Fin 25" and lng = "Fin (- 80)" and
      now = 0 and n_rows = 150 and cat = SqlNull and subs = "SqlArray []" and unis = "SqlArray []" and specs = "SqlArray []" and
      prices = "SqlArray []" and op = True and vec = SqlNull and fmt = no_fmt, unfolded ws sum.case]
    by (auto simp: ws list_all_iff)
qed

end
