(* ===== verification/End_To_End.thy ===== *)
theory End_To_End
  imports Ingest_Runs System_Theorems
begin

text \<open>
  The two commands and the database together: what the ingest writes is what the server finds. The table
  of the database is the one that a run of \<open>Ingest_System\<close> leaves behind, whatever its schedule.
\<close>

text \<open>The rows of a database, as the table keyed by identifier of the loader.\<close>

definition keyed :: "db_row list \<Rightarrow> biz_table" where
  "keyed rows = map_of (map (\<lambda>r. (bzID (dr_biz r), drRow r)) rows)"

lemma keyed_row: "distinct (map (bzID \<circ> dr_biz) rows) \<Longrightarrow> r \<in> set rows \<Longrightarrow> keyed rows (bzID (dr_biz r)) = Some (drRow r)"
  unfolding keyed_def by (rule map_of_is_SomeI) (auto simp: comp_def)

lemma keyed_in:
  assumes "keyed rows i = Some row"
  obtains r where "r \<in> set rows" "drRow r = row"
proof -
  have "(i, row) \<in> set (map (\<lambda>r. (bzID (dr_biz r), drRow r)) rows)"
    using assms unfolding keyed_def by (rule map_of_SomeD)
  with that show thesis by auto
qed

text \<open>The stored rows after an upsert into an empty table are those of the staged businesses.\<close>

lemma ingested_rows:
  assumes "keyed table = upsertSQL now bs Map.empty" "distinct (map (bzID \<circ> dr_biz) table)" "distinct (map bzID bs)"
  shows "r \<in> set table \<Longrightarrow> dr_biz r \<in> set bs \<and> brLoc (drRow r) = loc_of (dr_biz r)" "b \<in> set bs \<Longrightarrow> \<exists>r \<in> set table. dr_biz r = b"
proof -
  assume "r \<in> set table"
  with keyed_row[OF assms(2)] assms(1) have row: "upsertSQL now bs Map.empty (bzID (dr_biz r)) = Some (drRow r)" by metis
  show "dr_biz r \<in> set bs \<and> brLoc (drRow r) = loc_of (dr_biz r)"
  proof (cases "find (\<lambda>b. bzID b = bzID (dr_biz r)) bs")
    case None
    with row show ?thesis by (simp add: upsertSQL_eq[OF assms(3)])
  next
    case (Some c)
    with row have "row_after now Map.empty c = drRow r" by (simp add: upsertSQL_eq[OF assms(3)])
    then have "drRow r = row_after now Map.empty c" by simp
    then have "dr_biz r = c" "brLoc (drRow r) = loc_of c" by (simp_all add: row_after_def)
    moreover have "\<exists>i < length bs. c = bs ! i" using Some unfolding find_Some_iff by blast
    then have "c \<in> set bs" by auto
    ultimately show ?thesis by simp
  qed
next
  assume "b \<in> set bs"
  with upsertSQL_row[OF assms(3)] assms(1) have "keyed table (bzID b) = Some (row_after now Map.empty b)" by metis
  then obtain r where r: "r \<in> set table" "drRow r = row_after now Map.empty b" by (rule keyed_in)
  then have "dr_biz r = b" by (simp add: row_after_def)
  with r(1) show "\<exists>r \<in> set table. dr_biz r = b" by blast
qed

lemma row_ok_store: "row_ok (store ty b) = row_ok b"
  by (simp add: row_ok_def store_def)

lemma ingested_stored_ok:
  assumes "dr_biz r = store ty b" "b \<in> set (fst (produce stages raws no_stats))" "searchable pf (dr_biz r)"
    and "brLoc (drRow r) = loc_of (dr_biz r)"
  shows "stored_ok pf r"
proof -
  have "row_ok b" using produce_row_ok[of stages raws no_stats] assms(2) by (auto simp: list_all_iff)
  then have "row_ok (dr_biz r)" by (simp add: assms(1) row_ok_store)
  then show ?thesis using assms(3,4) by (auto simp: stored_ok_def row_ok_def searchable_def)
qed

lemma ingested_run:
  assumes "ingest_reach env (ingest_start p0 T0) s" "ingest_final s" "run_result s = Inr st"
    and "parse_all p0 = (raws, e)" "produce (giStages env) raws no_stats = (bs, st0)"
  shows "distinct (map bzID bs)" "gsTable s = loaded_table (giDb env) bs T0"
  using outcome_aux[OF reach_inv[OF assms(1)] assms(2)] assms(3-5) by (auto simp: outcome_ok_def)


section \<open>A shop, from the file to the answer\<close>

definition pet_row :: "business \<Rightarrow> db_row" where
  "pet_row b = \<lparr>drRow = row_after (dbNow calm_db) Map.empty (store calm_types b), drEmbedding = None\<rparr>"

definition pet_query :: query_values where
  "pet_query = query_of [(''q'', ''Paws'')]"

lemma pet_query_ok: "\<not> bad_params demo_env pet_query" "trim_space (pet_query ''q'') = ''Paws''"
proof -
  have trim: "trim_space [] = []" "trim_space ''Paws'' = ''Paws''" by code_simp+
  show "\<not> bad_params demo_env pet_query"
    using default_coordinates[of pet_query demo_env] by (simp add: bad_params_def pet_query_def query_of_def trim)
  show "trim_space (pet_query ''q'') = ''Paws''" by (simp add: pet_query_def query_of_def trim)
qed

lemma paws_runes: "runes ''Paws'' = chars ''Paws''"
proof -
  have "is_ascii ''Paws''" by code_simp
  then show ?thesis by (simp add: runes_ascii chars_def)
qed

lemma paws_words: "pg_words c_locale (runes ''Paws'') = [chars ''paws'']"
  by (simp add: paws_runes pg_words_def btrim_def is_space_def chars_def c_locale_def)

definition pet_host :: "business \<Rightarrow> (unit, wire \<times> int, unit, string, unit, unit, string) host" where
  "pet_host b = demo_host\<lparr>hoNewPool := (\<lambda>_. Inr (sql_pg no_fmt small_pg [pet_row b], ()))\<rparr>"

definition pet_world :: "business \<Rightarrow> ((unit, wire \<times> int, string) pg \<times> unit, unit \<times> nat \<times> unit) world" where
  "pet_world b = \<lparr>wRepo = (sql_pg no_fmt small_pg [pet_row b], ()), wEmb = ((), 0, ()), wTick = 0\<rparr>"

lemma pet_boot:
  "openPool (pet_host b) (hoEnv (pet_host b) ''LEMON_DATABASE_URL'') = Some (sql_pg no_fmt small_pg [pet_row b], ())"
  "loadRanking (pet_host b) (hoEnv (pet_host b) ''LEMON_RANKING_CONFIG'') = Some ranking_yaml"
  "\<not> flIntent (FromEnv (hoUnicode (pet_host b)) (hoEnv (pet_host b)))"
proof -
  show "openPool (pet_host b) (hoEnv (pet_host b) ''LEMON_DATABASE_URL'') = Some (sql_pg no_fmt small_pg [pet_row b], ())"
    by (simp add: openPool_def pet_host_def demo_host_def Let_def)
  show "loadRanking (pet_host b) (hoEnv (pet_host b) ''LEMON_RANKING_CONFIG'') = Some ranking_yaml"
    using small_boot(2) by (simp add: loadRanking_def pet_host_def small_host_def)
  show "\<not> flIntent (FromEnv (hoUnicode (pet_host b)) (hoEnv (pet_host b)))"
    using small_boot(3) by (simp add: pet_host_def small_host_def)
qed

lemma pet_vec: "query_vec (booted_service (pet_host b)) ''Paws'' (wEmb (pet_world b)) = Some (replicate 384 (Fin 0))"
proof -
  have "trim_space ''Paws'' = ''Paws''" by code_simp
  then show ?thesis using demo_service_vec[of "pet_host b" "''Paws''"]
    by simp (simp add: pet_host_def demo_host_def pet_world_def)
qed


end
