(* ===== verification/Go_Flag.thy ===== *)
theory Go_Flag
  imports Go_Fmt Prelude
begin

text \<open>
  Package \<open>flag\<close> as the commands use it: \<open>flag.Parse\<close> over the command line with \<open>ExitOnError\<close>, the
  values of its variables (\<open>strconv.ParseBool\<close>, \<open>strconv.ParseInt\<close> with base 0), and the exit status of
  a command line that is refused. A flag set is a list of named setters on the record of options.
\<close>

section \<open>Values\<close>

definition ParseBool :: "string \<Rightarrow> bool option" where
  "ParseBool s =
     (if s \<in> set [''1'', ''t'', ''T'', ''TRUE'', ''true'', ''True''] then Some True
      else if s \<in> set [''0'', ''f'', ''F'', ''FALSE'', ''false'', ''False''] then Some False
      else None)"

text \<open>A digit of a base up to 36.\<close>

definition digit_of :: "char \<Rightarrow> nat option" where
  "digit_of c =
     (let n = of_char c :: nat in
      if 48 \<le> n \<and> n \<le> 57 then Some (n - 48)
      else if 65 \<le> n \<and> n \<le> 90 then Some (n - 55)
      else if 97 \<le> n \<and> n \<le> 122 then Some (n - 87)
      else None)"

text \<open>The digits of \<open>ParseUint\<close>, and whether there was an underscore among them.\<close>

fun uint_digits :: "nat \<Rightarrow> nat \<Rightarrow> bool \<Rightarrow> string \<Rightarrow> (nat \<times> bool) option" where
  "uint_digits b n und [] = Some (n, und)"
| "uint_digits b n und (c # cs) =
     (if c = CHR ''_'' then uint_digits b n True cs
      else (case digit_of c of
          None \<Rightarrow> None
        | Some d \<Rightarrow> if b \<le> d then None else uint_digits b (b * n + d) und cs))"

text \<open>\<open>underscoreOK\<close>: underscores only between digits, or between the base prefix and a digit. The
  argument \<open>prev\<close> is the class of the character before.\<close>

fun underscore_loop :: "bool \<Rightarrow> char \<Rightarrow> string \<Rightarrow> bool" where
  "underscore_loop hex prev [] = (prev \<noteq> CHR ''_'')"
| "underscore_loop hex prev (c # cs) =
     (if c \<in> set ''0123456789'' \<or> hex \<and> c \<in> set ''abcdefABCDEF'' then underscore_loop hex (CHR ''0'') cs
      else if c \<noteq> CHR ''_'' then prev \<noteq> CHR ''_'' \<and> underscore_loop hex (CHR ''!'') cs
      else prev = CHR ''0'' \<and> underscore_loop hex (CHR ''_'') cs)"

fun underscore_ok :: "string \<Rightarrow> bool" where
  "underscore_ok (z # p # ds) =
     (if z = CHR ''0'' \<and> p \<in> set ''bBoOxX'' then underscore_loop (p \<in> set ''xX'') (CHR ''0'') ds
      else underscore_loop False (CHR ''^'') (z # p # ds))"
| "underscore_ok s = underscore_loop False (CHR ''^'') s"

text \<open>The base that a prefix stands for, and the digits after it; a prefix needs a digit.\<close>

fun base_prefix :: "string \<Rightarrow> nat \<times> string" where
  "base_prefix (z # p # d # ds) =
     (if z \<noteq> CHR ''0'' then (10, z # p # d # ds)
      else if p \<in> set ''bB'' then (2, d # ds)
      else if p \<in> set ''oO'' then (8, d # ds)
      else if p \<in> set ''xX'' then (16, d # ds)
      else (8, p # d # ds))"
| "base_prefix (z # ds) = (if z = CHR ''0'' then (8, ds) else (10, z # ds))"
| "base_prefix [] = (10, [])"

definition ParseUint0 :: "string \<Rightarrow> nat option" where
  "ParseUint0 s =
     (if s = [] then None
      else (case base_prefix s of (b, ds) \<Rightarrow>
        (case uint_digits b 0 False ds of
           None \<Rightarrow> None
         | Some (n, und) \<Rightarrow>
             if 2 ^ 64 \<le> n \<or> und \<and> \<not> underscore_ok s then None else Some n)))"

text \<open>\<open>ParseInt(s, 0, 64)\<close>; syntax and range errors are one, as the flag is refused either way.\<close>

definition ParseInt0 :: "string \<Rightarrow> int option" where
  "ParseInt0 s =
     (let (neg, ds) = (case s of [] \<Rightarrow> (False, [])
            | c # cs \<Rightarrow> if c = CHR ''-'' then (True, cs) else if c = CHR ''+'' then (False, cs) else (False, s))
      in (case ParseUint0 ds of
            None \<Rightarrow> None
          | Some n \<Rightarrow>
              if neg then (if 2 ^ 63 < n then None else Some (- int n))
              else (if 2 ^ 63 \<le> n then None else Some (int n))))"

section \<open>Flags\<close>

record 'a flag_spec =
  fsName :: string
  fsBool :: bool
  fsSet :: "string \<Rightarrow> 'a \<Rightarrow> 'a option"

definition string_var :: "string \<Rightarrow> (string \<Rightarrow> 'a \<Rightarrow> 'a) \<Rightarrow> 'a flag_spec" where
  "string_var name set_to = \<lparr>fsName = name, fsBool = False, fsSet = \<lambda>v st. Some (set_to v st)\<rparr>"

definition int_var :: "string \<Rightarrow> (int \<Rightarrow> 'a \<Rightarrow> 'a) \<Rightarrow> 'a flag_spec" where
  "int_var name set_to = \<lparr>fsName = name, fsBool = False, fsSet = \<lambda>v st. map_option (\<lambda>n. set_to n st) (ParseInt0 v)\<rparr>"

definition bool_var :: "string \<Rightarrow> (bool \<Rightarrow> 'a \<Rightarrow> 'a) \<Rightarrow> 'a flag_spec" where
  "bool_var name set_to = \<lparr>fsName = name, fsBool = True, fsSet = \<lambda>v st. map_option (\<lambda>b. set_to b st) (ParseBool v)\<rparr>"

text \<open>\<open>time.ParseDuration\<close> is a parameter.\<close>

definition duration_var :: "(string \<Rightarrow> int option) \<Rightarrow> string \<Rightarrow> (int \<Rightarrow> 'a \<Rightarrow> 'a) \<Rightarrow> 'a flag_spec" where
  "duration_var parse name set_to = \<lparr>fsName = name, fsBool = False, fsSet = \<lambda>v st. map_option (\<lambda>n. set_to n st) (parse v)\<rparr>"

lemmas var_defs = string_var_def int_var_def bool_var_def duration_var_def

section \<open>Parsing\<close>

datatype 'a flag_outcome = Parsed 'a "string list" | HelpAsked | Refused

text \<open>\<open>name=value\<close>, cut at the first equals sign.\<close>

fun cut_eq :: "string \<Rightarrow> string \<times> string option" where
  "cut_eq [] = ([], None)"
| "cut_eq (c # cs) = (if c = CHR ''='' then ([], Some cs) else (case cut_eq cs of (name, val) \<Rightarrow> (c # name, val)))"

text \<open>The argument after one or two dashes; \<open>None\<close> when it is no flag.\<close>

definition flag_body :: "string \<Rightarrow> string option" where
  "flag_body s =
     (case s of
        c # d # rest \<Rightarrow> if c \<noteq> CHR ''-'' then None else if d = CHR ''-'' then Some rest else Some (d # rest)
      | _ \<Rightarrow> None)"

fun parse_flags :: "'a flag_spec list \<Rightarrow> string list \<Rightarrow> 'a \<Rightarrow> 'a flag_outcome" where
  "parse_flags fs [] st = Parsed st []"
| "parse_flags fs (s # args) st =
     (case flag_body s of
        None \<Rightarrow> Parsed st (s # args)
      | Some body \<Rightarrow>
          if s = ''--'' then Parsed st args
          else if body = [] \<or> hd body = CHR ''-'' \<or> hd body = CHR ''='' then Refused
          else (case cut_eq body of (name, val) \<Rightarrow>
            (case find (\<lambda>f. fsName f = name) fs of
               None \<Rightarrow> if name = ''help'' \<or> name = ''h'' then HelpAsked else Refused
             | Some f \<Rightarrow>
                 (case val of
                    Some v \<Rightarrow> (case fsSet f v st of None \<Rightarrow> Refused | Some st \<Rightarrow> parse_flags fs args st)
                  | None \<Rightarrow>
                      if fsBool f then (case fsSet f ''true'' st of None \<Rightarrow> Refused | Some st \<Rightarrow> parse_flags fs args st)
                      else (case args of
                          [] \<Rightarrow> Refused
                        | v # args \<Rightarrow> (case fsSet f v st of None \<Rightarrow> Refused | Some st \<Rightarrow> parse_flags fs args st))))))"

text \<open>\<open>ExitOnError\<close>: the status of a command line that is not run.\<close>

fun flag_exit :: "'a flag_outcome \<Rightarrow> int option" where
  "flag_exit (Parsed st rest) = None"
| "flag_exit HelpAsked = Some 0"
| "flag_exit Refused = Some 2"

section \<open>Numbers are read back\<close>

lemma uint_digits_append:
  "uint_digits b n u (xs @ ys) = Option.bind (uint_digits b n u xs) (\<lambda>(m, v). uint_digits b m v ys)"
  by (induction xs arbitrary: n u) (auto split: option.split)

lemma digit_of_decimal:
  assumes "d < 10"
  shows "digit_of (char_of (48 + d)) = Some d" "char_of (48 + d) \<noteq> CHR ''_''"
proof -
  have c: "(of_char (char_of (48 + d) :: char) :: nat) = 48 + d" using assms by (simp add: of_char_of)
  then show "digit_of (char_of (48 + d)) = Some d" using assms by (simp add: digit_of_def)
  show "char_of (48 + d) \<noteq> CHR ''_''"
  proof
    assume "char_of (48 + d) = CHR ''_''"
    then have "48 + d = of_char CHR ''_''" using c by metis
    with assms show False by simp
  qed
qed

lemma uint_digits_decimal: "uint_digits 10 0 False (digits n) = Some (n, False)"
proof (induction n rule: digits.induct)
  case (1 n)
  show ?case
  proof (cases "n < 10")
    case True
    with digit_of_decimal[OF True] show ?thesis by (subst digits.simps) simp
  next
    case False
    have "n mod 10 < 10" by simp
    note d = digit_of_decimal[OF this]
    from False 1 d show ?thesis by (subst digits.simps) (simp add: uint_digits_append)
  qed
qed

lemma digits_head: "0 < n \<Longrightarrow> hd (digits n) \<noteq> CHR ''0''"
proof (induction n rule: digits.induct)
  case (1 n)
  show ?case
  proof (cases "n < 10")
    case True
    have "char_of (48 + n) \<noteq> CHR ''0''"
    proof
      assume "char_of (48 + n) = CHR ''0''"
      then have "(of_char (char_of (48 + n) :: char) :: nat) = 48" by simp
      moreover have "(of_char (char_of (48 + n) :: char) :: nat) = 48 + n" using True by (simp add: of_char_of)
      ultimately show False using \<open>0 < n\<close> by simp
    qed
    with True show ?thesis by (subst digits.simps) simp
  next
    case False
    then have "0 < n div 10" by simp
    with 1 False have "hd (digits (n div 10)) \<noteq> CHR ''0''" by blast
    with False digits_nonempty show ?thesis by (subst digits.simps) simp
  qed
qed

lemma base_prefix_decimal: "s \<noteq> [] \<Longrightarrow> hd s \<noteq> CHR ''0'' \<Longrightarrow> base_prefix s = (10, s)"
  by (cases s rule: base_prefix.cases) auto

lemma ParseUint0_digits: "n < 2 ^ 64 \<Longrightarrow> ParseUint0 (digits n) = Some n"
proof (cases "n = 0")
  case True
  have "digits 0 = ''0''" by code_simp
  then show ?thesis by (simp add: True ParseUint0_def)
next
  case False
  assume "n < 2 ^ 64"
  have "hd (digits n) \<noteq> CHR ''0''" using digits_head[of n] False by simp
  then have "base_prefix (digits n) = (10, digits n)" by (rule base_prefix_decimal[OF digits_nonempty])
  then show ?thesis using \<open>n < 2 ^ 64\<close> by (simp add: ParseUint0_def digits_nonempty uint_digits_decimal)
qed

lemma digits_sign: "\<exists>c cs. digits n = c # cs \<and> c \<noteq> CHR ''-'' \<and> c \<noteq> CHR ''+''"
proof -
  obtain c cs where d: "digits n = c # cs" using digits_nonempty by (cases "digits n") auto
  then have "c \<in> set ''0123456789''" using digits_chars[of n] by auto
  then show ?thesis using d by auto
qed

lemma ParseInt0_format: "- (2 ^ 63) \<le> n \<Longrightarrow> n < 2 ^ 63 \<Longrightarrow> ParseInt0 (format_int n) = Some n"
proof (cases "n < 0")
  case True
  assume n: "- (2 ^ 63) \<le> n"
  have "ParseUint0 (digits (nat (- n))) = Some (nat (- n))" using n by (intro ParseUint0_digits) simp
  with True n show ?thesis by (simp add: ParseInt0_def format_int_def)
next
  case False
  assume n: "n < 2 ^ 63"
  have "ParseUint0 (digits (nat n)) = Some (nat n)" using n by (intro ParseUint0_digits) simp
  with False n digits_sign[of "nat n"] show ?thesis by (auto simp: ParseInt0_def format_int_def)
qed

section \<open>Settings are read back\<close>

text \<open>Settings as arguments, \<open>-name=value\<close>, and what they set.\<close>

definition setting :: "string \<times> string \<Rightarrow> string" where
  "setting kv = ''-'' @ fst kv @ ''='' @ snd kv"

definition set_flag :: "'a flag_spec list \<Rightarrow> string \<times> string \<Rightarrow> 'a \<Rightarrow> 'a option" where
  "set_flag fs kv st = (case find (\<lambda>f. fsName f = fst kv) fs of None \<Rightarrow> None | Some f \<Rightarrow> fsSet f (snd kv) st)"

definition plain_name :: "string \<Rightarrow> bool" where
  "plain_name n \<longleftrightarrow> n \<noteq> [] \<and> hd n \<noteq> CHR ''-'' \<and> CHR ''='' \<notin> set n"

lemma cut_eq_setting: "CHR ''='' \<notin> set n \<Longrightarrow> cut_eq (n @ CHR ''='' # v) = (n, Some v)"
  by (induction n) auto

text \<open>A setting of a defined flag is set, or the command line is refused.\<close>

lemma parse_setting:
  assumes "plain_name (fst kv)" "fst kv \<in> fsName ` set fs"
  shows "parse_flags fs (setting kv # args) st = (case set_flag fs kv st of None \<Rightarrow> Refused | Some st \<Rightarrow> parse_flags fs args st)"
proof -
  obtain c n where kv: "fst kv = c # n" "c \<noteq> CHR ''-''" "c \<noteq> CHR ''=''" "CHR ''='' \<notin> set (fst kv)"
    using assms(1) unfolding plain_name_def by (cases "fst kv") auto
  obtain f where f: "find (\<lambda>f. fsName f = fst kv) fs = Some f"
    using assms(2) by (cases "find (\<lambda>f. fsName f = fst kv) fs") (auto simp: find_None_iff)
  have body: "flag_body (setting kv) = Some (fst kv @ CHR ''='' # snd kv)" "setting kv \<noteq> ''--''"
    using kv by (simp_all add: flag_body_def setting_def)
  have cut: "cut_eq (fst kv @ CHR ''='' # snd kv) = (fst kv, Some (snd kv))" by (rule cut_eq_setting[OF kv(4)])
  have "hd (fst kv @ CHR ''='' # snd kv) \<noteq> CHR ''-''" "hd (fst kv @ CHR ''='' # snd kv) \<noteq> CHR ''=''" using kv(1-3) by simp_all
  then show ?thesis by (simp add: body cut f set_flag_def split: option.split)
qed

fun set_flags :: "'a flag_spec list \<Rightarrow> (string \<times> string) list \<Rightarrow> 'a \<Rightarrow> 'a option" where
  "set_flags fs [] st = Some st"
| "set_flags fs (kv # kvs) st = Option.bind (set_flag fs kv st) (set_flags fs kvs)"

lemma parse_settings:
  assumes "list_all (\<lambda>kv. plain_name (fst kv) \<and> fst kv \<in> fsName ` set fs) kvs"
  shows "parse_flags fs (map setting kvs @ args) st = (case set_flags fs kvs st of None \<Rightarrow> Refused | Some st \<Rightarrow> parse_flags fs args st)"
  using assms by (induction kvs arbitrary: st) (auto simp: parse_setting simp del: parse_flags.simps(2) split: option.split)

text \<open>An argument that names no flag of the set is refused, unless it asks for help.\<close>

lemma parse_unknown:
  assumes "plain_name n" "n \<notin> fsName ` set fs"
  shows "parse_flags fs ((''-'' @ n) # args) st = (if n = ''help'' \<or> n = ''h'' then HelpAsked else Refused)"
proof -
  obtain c m where n: "n = c # m" "c \<noteq> CHR ''-''" "c \<noteq> CHR ''=''" "CHR ''='' \<notin> set n"
    using assms(1) unfolding plain_name_def by (cases n) auto
  have "find (\<lambda>f. fsName f = n) fs = None" using assms(2) by (auto simp: find_None_iff)
  moreover have "cut_eq n = (n, None)" using n(4) by (induction n) auto
  moreover have "flag_body (''-'' @ n) = Some n" "''-'' @ n \<noteq> ''--''" using n by (simp_all add: flag_body_def)
  ultimately show ?thesis using n by (simp only: parse_flags.simps) simp
qed

end
