(* ===== verification/Bench_Cases.thy ===== *)
theory Bench_Cases
  imports Edit_Distance
begin

text \<open>
  The generated cases of \<open>cmd/bench-runner/main.go\<close>: from each sampled name an exact query, one
  with typos, one without accents and a partial one, and the bare category words that must not
  pin. The random source is a state with its two draws; the sampling statement is the relation it
  selects, up to the database's order by \<open>md5\<close>. A slice too large to allocate is a panic.
\<close>

section \<open>Cases\<close>

record bench_test =
  tsKind :: string
  tsQ :: string
  tsExpected :: "string list"
  tsNote :: string

record bench_file =
  bnLat :: f64
  bnLng :: f64
  bnNowOverride :: string
  bnTests :: "bench_test list"

definition overFireWords :: "string list" where
  "overFireWords =
     [''coffee'', ''sushi'', ''pizza'', ''taco'', ''tacos'', ''barber'', ''gym'', ''spa'',
      ''nails'', ''yoga'', ''ramen'', ''burger'', ''burgers'', ''bakery'', ''tattoo'',
      ''massage'', ''steak'', ''seafood'', ''pilates'', ''cafe'', ''brunch'', ''donuts'',
      ''smoothie'', ''salon'', ''boba'']"

section \<open>Random edits\<close>

text \<open>\<open>Float64\<close> and \<open>Intn\<close>; \<open>Intn(n)\<close> draws below \<open>n\<close>.\<close>

record 's rng =
  rgFloat :: "'s \<Rightarrow> f64 \<times> 's"
  rgIntn :: "'s \<Rightarrow> nat \<Rightarrow> nat \<times> 's"

definition rng_ok :: "'s rng \<Rightarrow> bool" where
  "rng_ok g \<longleftrightarrow> (\<forall>s n. 0 < n \<longrightarrow> fst (rgIntn g s n) < n)"

definition mutateToken :: "'s rng \<Rightarrow> string \<Rightarrow> 's \<Rightarrow> string \<times> 's" where
  "mutateToken g t s =
     (let r = runes t;
          (pos, s) = rgIntn g s (length r);
          (kind, s) = rgIntn g s 4
      in if kind = 0 then (encode (take pos r) @ encode (drop (pos + 1) r), s)
         else if kind = 1 then
           (let (k, s) = rgIntn g s 26 in (encode (r[pos := 97 + k]), s))
         else if kind = 2 then
           (encode (if pos < length r - 1 then r[pos := r ! (pos + 1), pos + 1 := r ! pos] else r), s)
         else
           (let (k, s) = rgIntn g s 26 in (encode (take pos r) @ encode [97 + k] @ encode (drop pos r), s)))"

fun typo_loop :: "'s rng \<Rightarrow> string list \<Rightarrow> 's \<Rightarrow> string list \<times> 's" where
  "typo_loop g [] s = ([], s)"
| "typo_loop g (t # toks) s =
     (if length (runes t) \<le> 3 then (let (ts, s) = typo_loop g toks s in (t # ts, s))
      else
        (let (x, s) = rgFloat g s;
             (t, s) = (if f_lt x (f_const (6/10)) then mutateToken g t s else (t, s));
             (ts, s) = typo_loop g toks s
         in (t # ts, s)))"

definition injectTypos :: "unicode \<Rightarrow> 's rng \<Rightarrow> string \<Rightarrow> 's \<Rightarrow> string \<times> 's" where
  "injectTypos U g name s =
     (let (toks, s) = typo_loop g (Go_Strings.fields (to_lower U name)) s in (join '' '' toks, s))"

section \<open>Accents\<close>

text \<open>The pairs of the replacer, a letter's code point and its replacement.\<close>

definition accentRepl :: "(nat \<times> char) list" where
  "accentRepl =
     [(225, CHR ''a''), (224, CHR ''a''), (226, CHR ''a''), (228, CHR ''a''), (227, CHR ''a''),
      (233, CHR ''e''), (232, CHR ''e''), (234, CHR ''e''), (235, CHR ''e''),
      (237, CHR ''i''), (236, CHR ''i''), (238, CHR ''i''), (239, CHR ''i''),
      (243, CHR ''o''), (242, CHR ''o''), (244, CHR ''o''), (246, CHR ''o''), (245, CHR ''o''),
      (250, CHR ''u''), (249, CHR ''u''), (251, CHR ''u''), (252, CHR ''u''),
      (241, CHR ''n''), (231, CHR ''c''),
      (193, CHR ''A''), (201, CHR ''E''), (205, CHR ''I''), (211, CHR ''O''), (218, CHR ''U''), (209, CHR ''N''),
      (220, CHR ''U'')]"

text \<open>\<open>Replacer.Replace\<close>: at every byte the first pair whose old string starts there; all old
  strings are two bytes long.\<close>

fun replace_loop :: "(string \<times> string) list \<Rightarrow> string \<Rightarrow> nat \<Rightarrow> string" where
  "replace_loop pairs [] skip = []"
| "replace_loop pairs (c # cs) (Suc skip) = replace_loop pairs cs skip"
| "replace_loop pairs (c # cs) 0 =
     (case find (\<lambda>(old, new). has_prefix (c # cs) old) pairs of
        Some (old, new) \<Rightarrow> new @ replace_loop pairs cs (length old - 1)
      | None \<Rightarrow> c # replace_loop pairs cs 0)"

definition stripAccents :: "string \<Rightarrow> string" where
  "stripAccents s = replace_loop (map (\<lambda>(r, c). (encode_rune r, [c])) accentRepl) s 0"

section \<open>Generation\<close>

definition new_test :: "string \<Rightarrow> string \<Rightarrow> string list \<Rightarrow> bench_test" where
  "new_test kind q expected = \<lparr>tsKind = kind, tsQ = q, tsExpected = expected, tsNote = []\<rparr>"

definition name_tests :: "unicode \<Rightarrow> 's rng \<Rightarrow> string \<Rightarrow> 's \<Rightarrow> bench_test list \<times> 's" where
  "name_tests U g nm s =
     (let (ty, s) = injectTypos U g nm s;
          plain = stripAccents nm;
          toks = Go_Strings.fields nm
      in ([new_test ''exact_name'' nm [nm]] @
          (if ty \<noteq> [] \<and> ty \<noteq> to_lower U nm then [new_test ''typo'' ty [nm]] else []) @
          (if plain \<noteq> nm then [new_test ''accent'' (to_lower U plain) [nm]] else []) @
          (if 4 \<le> length toks then [new_test ''partial'' (join '' '' (take 3 toks)) [nm]] else []), s))"

fun generate_loop :: "unicode \<Rightarrow> 's rng \<Rightarrow> string list \<Rightarrow> 's \<Rightarrow> bench_test list \<times> 's" where
  "generate_loop U g [] s = ([], s)"
| "generate_loop U g (nm # names) s =
     (let (ts, s) = name_tests U g nm s; (rest, s) = generate_loop U g names s in (ts @ rest, s))"

definition genLat :: f64 where "genLat = f_const (257741728 / 10000000)"
definition genLng :: f64 where "genLng = f_const (- 801937 / 10000)"

text \<open>The errors of the sampling; \<open>MakePanics\<close> is no error but the panic of a \<open>make\<close> whose capacity, from the flag
  \<open>-generate\<close>, is out of range: 16 bytes a name, 72 a test.\<close>

datatype 'e sample_error = SamplingBusinesses 'e | ScanningSample 'e | SampleRows 'e | MakePanics

text \<open>\<open>sample\<close> is the outcome of \<open>sampleNames\<close>, \<open>seed\<close> the seeded source.\<close>

definition generateBench :: "unicode \<Rightarrow> 's rng \<Rightarrow> int \<Rightarrow> 'e sample_error + string list \<Rightarrow> 's \<Rightarrow> 'e sample_error + bench_file" where
  "generateBench U g n sample seed =
     res_bind sample (\<lambda>names.
       if \<not> makes_slice 72 (wrap64 (n * 3)) then Inl MakePanics
       else Inr \<lparr>bnLat = genLat, bnLng = genLng, bnNowOverride = ''2026-05-27T13:00:00-04:00'',
         bnTests = fst (generate_loop U g names seed) @ map (\<lambda>w. new_test ''over_fire'' w []) overFireWords\<rparr>)"

fun sample_rows :: "('row \<Rightarrow> 'e + string) \<Rightarrow> 'row list \<Rightarrow> string list \<Rightarrow> 'e sample_error + string list" where
  "sample_rows scan [] out = Inr out"
| "sample_rows scan (r # rs) out =
     (case scan r of Inl e \<Rightarrow> Inl (ScanningSample e) | Inr nm \<Rightarrow> sample_rows scan rs (out @ [nm]))"

definition sampleNames :: "int \<Rightarrow> ('e + 'row list \<times> 'e option) \<Rightarrow> ('row \<Rightarrow> 'e + string) \<Rightarrow> 'e sample_error + string list" where
  "sampleNames n query scan =
     (case query of
        Inl e \<Rightarrow> Inl (SamplingBusinesses e)
      | Inr (rows, err) \<Rightarrow>
          if \<not> makes_slice 16 n then Inl MakePanics
          else res_bind (sample_rows scan rows [])
            (\<lambda>out. case err of Some e \<Rightarrow> Inl (SampleRows e) | None \<Rightarrow> Inr out))"

section \<open>Facts\<close>

lemma encode_append: "encode (xs @ ys) = encode xs @ encode ys"
  by (simp add: encode_def)

lemma valid_runes_parts:
  "list_all valid_rune (take n (runes t))" "list_all valid_rune (drop n (runes t))"
  using runes_valid[of t] by (auto simp: list_all_iff dest: in_set_takeD in_set_dropD)

lemma valid_letter: "k < 26 \<Longrightarrow> valid_rune (97 + k)"
  by (simp add: valid_rune_def)

lemma lev_delete: "pos < length r \<Longrightarrow> lev r (take pos r @ drop (pos + 1) r) \<le> 1"
proof -
  assume "pos < length r"
  then have "r = take pos r @ r ! pos # drop (pos + 1) r" by (simp add: Cons_nth_drop_Suc)
  then have "edit1 r (take pos r @ drop (pos + 1) r)" using edit1.delete[of "take pos r" "r ! pos"] by metis
  then show ?thesis by (rule lev_one)
qed

lemma edit1_update: "pos < length r \<Longrightarrow> edit1 r (r[pos := c])"
proof -
  assume p: "pos < length r"
  then have "r = take pos r @ r ! pos # drop (Suc pos) r" by (simp add: Cons_nth_drop_Suc)
  moreover have "r[pos := c] = take pos r @ c # drop (Suc pos) r" using p by (rule upd_conv_take_nth_drop)
  ultimately show ?thesis using edit1.substitute[of "take pos r" "r ! pos" "drop (Suc pos) r" c] by metis
qed

lemma lev_insert: "lev r (take pos r @ c # drop pos r) \<le> 1"
proof -
  have "edit1 r (take pos r @ c # drop pos r)" using edit1.insert[of "take pos r" "drop pos r" c] by simp
  then show ?thesis by (rule lev_one)
qed

lemma lev_updates: "pos < length r \<Longrightarrow> k < length r \<Longrightarrow> lev r (r[pos := c, k := d]) \<le> 2"
proof -
  assume "pos < length r" "k < length r"
  then have "edit1 r (r[pos := c])" "edit1 (r[pos := c]) (r[pos := c, k := d])" by (auto intro: edit1_update)
  then show ?thesis by (rule lev_two)
qed

lemma lev_update: "pos < length r \<Longrightarrow> lev r (r[pos := c]) \<le> 1"
  by (rule lev_one) (rule edit1_update)

lemma levenshtein_encode: "list_all valid_rune r \<Longrightarrow> levenshtein t (encode r) = lev (runes t) r"
  by (simp add: levenshtein_eq runes_encode)

lemma valid_update: "list_all valid_rune r \<Longrightarrow> valid_rune c \<Longrightarrow> list_all valid_rune (r[pos := c])"
  by (auto simp: list_all_iff dest!: set_update_subset_insert[THEN subsetD])

lemma mutateToken_close:
  assumes "rng_ok g" "t \<noteq> []"
  shows "levenshtein t (fst (mutateToken g t s)) \<le> 2"
proof -
  let ?r = "runes t"
  have n: "0 < length ?r" using assms(2) by (simp add: runes_eq_Nil)
  obtain pos s1 where d1: "rgIntn g s (length ?r) = (pos, s1)" by fastforce
  obtain kind s2 where d2: "rgIntn g s1 4 = (kind, s2)" by fastforce
  obtain k s3 where d3: "rgIntn g s2 26 = (k, s3)" by fastforce
  have pos: "pos < length ?r" using assms(1) n d1 unfolding rng_ok_def by (metis fst_conv)
  have k: "k < 26" using assms(1) d3 unfolding rng_ok_def by (metis fst_conv zero_less_numeral)
  have v: "list_all valid_rune ?r" by (rule runes_valid)
  have nth: "list_all valid_rune (?r[pos := ?r ! (pos + 1), pos + 1 := ?r ! pos])" if "pos + 1 < length ?r"
    using v that pos by (intro valid_update) (auto simp: list_all_length)
  consider "kind = 0" | "kind = 1" | "kind = 2" | "kind \<notin> {0, 1, 2}" by blast
  then show ?thesis
  proof cases
    case 1
    with d1 d2 have "fst (mutateToken g t s) = encode (take pos ?r @ drop (pos + 1) ?r)"
      by (simp add: mutateToken_def Let_def encode_append)
    with lev_delete[OF pos] valid_runes_parts[of _ t] show ?thesis by (simp add: levenshtein_encode)
  next
    case 2
    with d1 d2 d3 have "fst (mutateToken g t s) = encode (?r[pos := 97 + k])" by (simp add: mutateToken_def Let_def)
    with lev_update[OF pos, of "97 + k"] valid_update[OF v valid_letter[OF k]] show ?thesis
      by (simp add: levenshtein_encode)
  next
    case 3
    with d1 d2 have m: "fst (mutateToken g t s) =
        encode (if pos < length ?r - 1 then ?r[pos := ?r ! (pos + 1), pos + 1 := ?r ! pos] else ?r)"
      by (simp add: mutateToken_def Let_def)
    show ?thesis
    proof (cases "pos < length ?r - 1")
      case True
      with m nth lev_updates[OF pos, of "pos + 1"] show ?thesis by (simp add: levenshtein_encode)
    qed (use m v in \<open>simp add: levenshtein_encode\<close>)
  next
    case 4
    with d1 d2 d3 have "fst (mutateToken g t s) = encode (take pos ?r @ (97 + k) # drop pos ?r)"
      by (simp add: mutateToken_def Let_def encode_append[symmetric])
    with lev_insert[of ?r pos "97 + k"] valid_runes_parts[of pos t] valid_letter[OF k] show ?thesis
      by (simp add: levenshtein_encode)
  qed
qed

text \<open>C25. The typo generator stays within two edits per word: however the random source draws, every
  word of the query is at most two single-rune edits from the name's, and words of up to three
  runes are kept.\<close>

theorem typos_close:
  assumes "rng_ok g"
  shows "list_all2 (\<lambda>t t'. levenshtein t t' \<le> 2 \<and> (3 < length (runes t) \<or> t' = t))
    toks (fst (typo_loop g toks s))"
  using assms
proof (induction g toks s rule: typo_loop.induct)
  case (2 g t toks s)
  show ?case
  proof (cases "length (runes t) \<le> 3")
    case True
    with 2 show ?thesis by (auto simp: levenshtein_eq split: prod.split)
  next
    case False
    then have t: "t \<noteq> []" by (auto simp: runes_eq_Nil[THEN iffD2])
    obtain x s1 where x: "rgFloat g s = (x, s1)" by fastforce
    obtain t' s2 where t': "(if f_lt x (f_const (6/10)) then mutateToken g t s1 else (t, s1)) = (t', s2)" by fastforce
    have "levenshtein t t' \<le> 2"
    proof (cases "f_lt x (f_const (6/10))")
      case True
      with t' have "fst (mutateToken g t s1) = t'" by simp
      with mutateToken_close[OF "2.prems" t, of s1] show ?thesis by simp
    qed (use t' in \<open>simp add: levenshtein_eq\<close>)
    moreover from False "2.IH"(2)[OF False x[symmetric] refl t'[symmetric] refl "2.prems"]
    have "list_all2 (\<lambda>t t'. levenshtein t t' \<le> 2 \<and> (3 < length (runes t) \<or> t' = t)) toks (fst (typo_loop g toks s2))"
      by simp
    ultimately show ?thesis using False x t' by (cases "typo_loop g toks s2") (simp add: Let_def)
  qed
qed simp

definition low_rng :: "unit rng" where
  "low_rng = \<lparr>rgFloat = (\<lambda>s. (Fin 0, s)), rgIntn = (\<lambda>s n. (0, s))\<rparr>"

theorem typos_close_witness:
  "fst (typo_loop low_rng [''panther''] ()) = [''anther''] \<and> levenshtein ''panther'' ''anther'' \<le> 2"
proof
  have "f_le (fround (1/2)) (fround (6/10))" by (rule fround_mono) simp
  then have "f_le (Fin (1/2)) (f_const (6/10))" using fround_dyadic[of 1 1] by (simp add: f_const_def)
  moreover have "f_lt (Fin 0) (Fin (1/2))" by simp
  ultimately have p: "f_lt (Fin 0) (f_const (6/10))" unfolding f_le_def f_eq_iff by (metis f_lt_trans)
  have a: "runes ''panther'' = [112, 97, 110, 116, 104, 101, 114]" by code_simp
  have b: "is_ascii ''anther''" "map byte_of ''anther'' = [97, 110, 116, 104, 101, 114]" by code_simp+
  have e: "encode [97, 110, 116, 104, 101, 114] = ''anther''" "encode [] = []"
    using encode_ascii[OF b(1)] b(2) by (simp_all add: encode_def)
  have m: "mutateToken low_rng ''panther'' () = (''anther'', ())"
    by (simp add: mutateToken_def low_rng_def a e)
  show f: "fst (typo_loop low_rng [''panther''] ()) = [''anther'']"
    using p m by (simp add: a low_rng_def[THEN arg_cong[of _ _ rgFloat]] Let_def)
  have "rng_ok low_rng" by (simp add: rng_ok_def low_rng_def)
  from typos_close[OF this, of "[''panther'']" "()"] show "levenshtein ''panther'' ''anther'' \<le> 2"
    by (simp only: f list_all2_Cons)
qed

end
