(* ===== verification/Float_Order.thy ===== *)
theory Float_Order
  imports Float64
begin

text \<open>
  The order of \<open>sort.Float64s\<close> as the linear order of the type: NaN first, then by value. The
  library's \<open>sort\<close> is then the sort of the code, since equal values of the model are identical.
\<close>

instantiation f64 :: linorder
begin

definition less_f64 :: "f64 \<Rightarrow> f64 \<Rightarrow> bool" where
  "less_f64 x y \<longleftrightarrow> f_lt x y \<or> x = NaN \<and> y \<noteq> NaN"

definition less_eq_f64 :: "f64 \<Rightarrow> f64 \<Rightarrow> bool" where
  "less_eq_f64 x y \<longleftrightarrow> x = y \<or> x < (y :: f64)"

instance
proof
  fix x y z :: f64
  show "x < y \<longleftrightarrow> x \<le> y \<and> \<not> y \<le> x"
    by (auto simp: less_f64_def less_eq_f64_def dest: f_lt_asym)
  show "x \<le> x" by (simp add: less_eq_f64_def)
  show "x \<le> y \<Longrightarrow> y \<le> z \<Longrightarrow> x \<le> z"
    by (auto simp: less_f64_def less_eq_f64_def intro: f_lt_trans)
  show "x \<le> y \<Longrightarrow> y \<le> x \<Longrightarrow> x = y"
    by (auto simp: less_f64_def less_eq_f64_def dest: f_lt_asym)
  show "x \<le> y \<or> y \<le> x"
    using f_lt_linear[of x y] by (auto simp: less_f64_def less_eq_f64_def)
qed

end

lemma f64_le_iff: "x \<noteq> NaN \<Longrightarrow> y \<noteq> NaN \<Longrightarrow> x \<le> y \<longleftrightarrow> f_le x (y :: f64)"
  by (auto simp: less_eq_f64_def less_f64_def f_le_def f_eq_iff)

text \<open>A quotient of two counts, as the reports compute their fractions.\<close>

definition fraction :: "nat \<Rightarrow> nat \<Rightarrow> f64" where
  "fraction n d = f_div (f_of_int (int n)) (f_of_int (int d))"

lemma fraction_unit: "n \<le> d \<Longrightarrow> 0 < d \<Longrightarrow> d < 2 ^ 53 \<Longrightarrow> unit_f (fraction n d)"
  by (simp add: fraction_def f_of_int_small fround_unit)

text \<open>How many values a position of a sorted list leaves on either side.\<close>

lemma sorted_rank:
  fixes xs :: "'a :: linorder list"
  assumes "sorted xs" "i < length xs"
  shows "i < length (filter (\<lambda>x. x \<le> xs ! i) xs)" "length xs - i \<le> length (filter (\<lambda>x. xs ! i \<le> x) xs)"
proof -
  have "xs = take (Suc i) xs @ drop (Suc i) xs" by simp
  moreover have "filter (\<lambda>x. x \<le> xs ! i) (take (Suc i) xs) = take (Suc i) xs"
    using assms by (auto simp: filter_id_conv in_set_conv_nth less_Suc_eq_le intro!: sorted_nth_mono)
  ultimately have "length (filter (\<lambda>x. x \<le> xs ! i) xs) = Suc i + length (filter (\<lambda>x. x \<le> xs ! i) (drop (Suc i) xs))"
    using assms(2) by (metis filter_append length_append length_take min.absorb2 Suc_leI)
  then show "i < length (filter (\<lambda>x. x \<le> xs ! i) xs)" by simp
  have "filter (\<lambda>x. xs ! i \<le> x) (drop i xs) = drop i xs"
    using assms by (auto simp: filter_id_conv in_set_conv_nth intro!: sorted_nth_mono)
  then have "length (filter (\<lambda>x. xs ! i \<le> x) xs) = length (filter (\<lambda>x. xs ! i \<le> x) (take i xs)) + (length xs - i)"
    by (metis append_take_drop_id filter_append length_append length_drop)
  then show "length xs - i \<le> length (filter (\<lambda>x. xs ! i \<le> x) xs)" by simp
qed

end
