(* ===== verification/Bench_Score.thy ===== *)
theory Bench_Score
  imports Bench_Cases Search_Theorems Float_Order
begin

text \<open>
  Scoring in \<open>cmd/bench-runner/main.go\<close>: one test through the search service, pass@3 and the
  over-fire measure, the tallies of the report, percentiles, the formula modes and the choice of
  the best. Rendering of the report text is left out.
\<close>

section \<open>Modes\<close>

record fmode =
  moName :: string
  moRating :: string
  moDistance :: string

definition modeLiteral :: fmode where
  "modeLiteral = \<lparr>moName = ''literal'', moRating = ''literal'', moDistance = ''literal''\<rparr>"

definition singleMode :: "string \<Rightarrow> string + fmode" where
  "singleMode formula =
     (if formula = ''literal'' then Inr modeLiteral
      else if formula = ''bayesian'' then Inr \<lparr>moName = ''bayesian'', moRating = ''bayesian'', moDistance = ''literal''\<rparr>
      else if formula = ''decay'' then Inr \<lparr>moName = ''decay'', moRating = ''literal'', moDistance = ''decay''\<rparr>
      else Inl formula)"

definition applyMode :: "ranking \<Rightarrow> fmode \<Rightarrow> ranking" where
  "applyMode cfg m = cfg\<lparr>rSignalFormulas := (rSignalFormulas cfg)\<lparr>sfRating := moRating m, sfDistance := moDistance m\<rparr>\<rparr>"

section \<open>One test\<close>

record 'e bench_result =
  brKind :: string
  brQ :: string
  brTop1 :: string
  brPass :: bool
  brPinFired :: bool
  brMs :: int
  brErr :: "'e option"

definition topK :: nat where "topK = 3"

definition pinFired :: "scored list \<Rightarrow> bool" where
  "pinFired ranked \<longleftrightarrow> 0 < length ranked \<and> is_pinf (srScore (ranked ! 0))"

definition bench_score :: "unicode \<Rightarrow> bench_test \<Rightarrow> scored list \<Rightarrow> bool \<Rightarrow> bool" where
  "bench_score U t ranked fired =
     (if tsKind t = ''over_fire'' then \<not> fired
      else
        (let top = map (\<lambda>r. to_lower U (cName (srCandidate r))) (take topK ranked)
         in list_ex (\<lambda>want. list_ex (\<lambda>h. h = to_lower U (trim_space want)) top) (tsExpected t)))"

definition bench_opts :: "f64 \<Rightarrow> f64 \<Rightarrow> instant \<Rightarrow> search_opts" where
  "bench_opts lat lng now = \<lparr>soLat = lat, soLng = lng, soLimit = 0, soNow = now, soOverlay = zero_overlay, soQueryVec = None\<rparr>"

definition runOne :: "unicode \<Rightarrow> (uuid \<Rightarrow> string) \<Rightarrow> (nat \<Rightarrow> int) \<Rightarrow> 'x option \<Rightarrow> ('r, 'm, 'e) service \<Rightarrow>
    bench_file \<Rightarrow> instant \<Rightarrow> bench_test \<Rightarrow> ('r, 'm) world \<Rightarrow> ('e, 'x) search_error bench_result \<times> ('r, 'm) world" where
  "runOne U ustr clock ctx_err svc bf now t w =
     (let (start, w) = time_now clock w;
          (res, w) = Search U ustr clock ctx_err svc (tsQ t) (bench_opts (bnLat bf) (bnLng bf) now) w
      in case res of
           Inl e \<Rightarrow> (\<lparr>brKind = tsKind t, brQ = tsQ t, brTop1 = [], brPass = False, brPinFired = False, brMs = 0,
             brErr = Some e\<rparr>, w)
         | Inr (ranked, _) \<Rightarrow>
             (let (ms, w) = sinceMS clock start w;
                  fired = pinFired ranked;
                  top1 = (if 0 < length ranked then cName (srCandidate (ranked ! 0)) else [])
              in (\<lparr>brKind = tsKind t, brQ = tsQ t, brTop1 = top1, brPass = bench_score U t ranked fired,
                   brPinFired = fired, brMs = ms, brErr = None\<rparr>, w)))"

fun rankAll :: "unicode \<Rightarrow> (uuid \<Rightarrow> string) \<Rightarrow> (nat \<Rightarrow> int) \<Rightarrow> 'x option \<Rightarrow> ('r, 'm, 'e) service \<Rightarrow>
    bench_file \<Rightarrow> instant \<Rightarrow> bench_test list \<Rightarrow> ('r, 'm) world \<Rightarrow>
    ('e, 'x) search_error bench_result list \<times> ('r, 'm) world" where
  "rankAll U ustr clock ctx_err svc bf now [] w = ([], w)"
| "rankAll U ustr clock ctx_err svc bf now (t # ts) w =
     (let (r, w) = runOne U ustr clock ctx_err svc bf now t w;
          (rs, w) = rankAll U ustr clock ctx_err svc bf now ts w
      in (r # rs, w))"

section \<open>Tallies\<close>

text \<open>Per kind the passed and the run cases; the passed cases, the latencies, the failures.\<close>

record 'e tally =
  taByKind :: "string \<rightharpoonup> nat \<times> nat"
  taPassN :: nat
  taLat :: "int list"
  taFails :: "'e bench_result list"

definition tally_one :: "'e tally \<Rightarrow> 'e bench_result \<Rightarrow> 'e tally" where
  "tally_one a r =
     (let (p, n) = (case taByKind a (brKind r) of None \<Rightarrow> (0, 0) | Some pt \<Rightarrow> pt);
          n = n + 1;
          ok = brPass r \<and> brErr r = None;
          a = (if ok then a\<lparr>taPassN := taPassN a + 1\<rparr> else a\<lparr>taFails := taFails a @ [r]\<rparr>);
          p = (if ok then p + 1 else p);
          a = a\<lparr>taByKind := (taByKind a)(brKind r \<mapsto> (p, n))\<rparr>
      in if brErr r = None then a\<lparr>taLat := taLat a @ [brMs r]\<rparr> else a)"

definition aggregate :: "'e bench_result list \<Rightarrow> 'e tally" where
  "aggregate results = foldl tally_one \<lparr>taByKind = (\<lambda>_. None), taPassN = 0, taLat = [], taFails = []\<rparr> results"

definition pct :: "nat \<Rightarrow> nat \<Rightarrow> f64" where
  "pct n d = (if d = 0 then Fin 0 else f_div (f_mul (f_of_int (int n)) (Fin 100)) (f_of_int (int d)))"

definition percentile :: "int list \<Rightarrow> nat \<Rightarrow> int" where
  "percentile xs p =
     (if length xs = 0 then 0
      else (let sorted_xs = sort xs in sorted_xs ! (p * (length sorted_xs - 1) div 100)))"

record 'e mode_run =
  mrMode :: fmode
  mrResults :: "'e bench_result list"

fun best_run :: "'e mode_run \<Rightarrow> nat \<Rightarrow> 'e mode_run list \<Rightarrow> 'e mode_run \<times> nat" where
  "best_run best bestN [] = (best, bestN)"
| "best_run best bestN (r # rs) =
     (let n = taPassN (aggregate (mrResults r)) in
      if n > bestN then best_run r n rs else best_run best bestN rs)"

definition best_mode :: "'e mode_run list \<Rightarrow> 'e mode_run \<times> nat" where
  "best_mode runs = best_run (hd runs) (taPassN (aggregate (mrResults (hd runs)))) (tl runs)"

section \<open>Facts\<close>

definition passes :: "'e bench_result \<Rightarrow> bool" where
  "passes r \<longleftrightarrow> brPass r \<and> brErr r = None"

definition kind_counts :: "'e bench_result list \<Rightarrow> string \<Rightarrow> (nat \<times> nat) option" where
  "kind_counts rs k =
     (let mine = filter (\<lambda>r. brKind r = k) rs in
      if mine = [] then None else Some (length (filter passes mine), length mine))"

lemma kind_counts_snoc:
  "kind_counts (rs @ [r]) = (kind_counts rs)(brKind r \<mapsto>
     (let (p, n) = (case kind_counts rs (brKind r) of None \<Rightarrow> (0, 0) | Some pt \<Rightarrow> pt)
      in (if passes r then p + 1 else p, n + 1)))"
  by (rule ext) (auto simp: kind_counts_def Let_def filter_empty_conv)

lemma aggregate_snoc: "aggregate (rs @ [r]) = tally_one (aggregate rs) r"
  by (simp add: aggregate_def)

lemma aggregate_eq:
  "taByKind (aggregate rs) = kind_counts rs \<and> taPassN (aggregate rs) = length (filter passes rs) \<and>
   taFails (aggregate rs) = filter (\<lambda>r. \<not> passes r) rs \<and>
   taLat (aggregate rs) = map brMs (filter (\<lambda>r. brErr r = None) rs)"
proof (induction rs rule: rev_induct)
  case Nil
  show ?case by (simp add: aggregate_def kind_counts_def)
next
  case (snoc r rs)
  then show ?case
    by (auto simp: aggregate_snoc tally_one_def kind_counts_snoc passes_def Let_def split: prod.split)
qed

lemma percentile_index: "n \<noteq> 0 \<Longrightarrow> p \<le> 100 \<Longrightarrow> p * (n - 1) div 100 < (n :: nat)"
proof -
  assume "n \<noteq> 0" "p \<le> 100"
  then have "p * (n - 1) div 100 \<le> 100 * (n - 1) div 100" by (intro div_le_mono) simp
  with \<open>n \<noteq> 0\<close> show ?thesis by simp
qed

lemma percentile_in: "xs \<noteq> [] \<Longrightarrow> p \<le> 100 \<Longrightarrow> percentile xs p \<in> set xs"
  using percentile_index[of "length xs" p] nth_mem[of "p * (length xs - 1) div 100" "sort xs"]
  by (simp add: percentile_def Let_def)

lemma best_run_max:
  assumes "n = taPassN (aggregate (mrResults best))" "best_run best n rs = (b, m)"
  shows "b \<in> set (best # rs) \<and> m = taPassN (aggregate (mrResults b)) \<and> n \<le> m \<and>
    list_all (\<lambda>r. taPassN (aggregate (mrResults r)) \<le> m) rs \<and> (n = m \<longrightarrow> b = best)"
  using assms
proof (induction rs arbitrary: best n)
  case (Cons r rs)
  define k where "k = taPassN (aggregate (mrResults r))"
  show ?case
  proof (cases "n < k")
    case True
    with Cons.prems have "best_run r k rs = (b, m)" by (simp add: k_def Let_def)
    from Cons.IH[OF k_def this] True show ?thesis by (elim conjE) (simp add: k_def[symmetric])
  next
    case False
    with Cons.prems have "best_run best n rs = (b, m)" by (simp add: k_def Let_def)
    from Cons.IH[OF Cons.prems(1) this] False show ?thesis by (elim conjE) (simp add: k_def[symmetric], blast)
  qed
qed simp

section \<open>Properties\<close>

text \<open>The report's tallies are exact: every case is either passed or listed as a failure, each kind's
  pair counts its passed and its run cases, and there is one latency per case without error.\<close>

theorem aggregate_exact:
  "taPassN (aggregate rs) + length (taFails (aggregate rs)) = length rs \<and>
   taByKind (aggregate rs) = kind_counts rs \<and>
   length (taLat (aggregate rs)) = length (filter (\<lambda>r. brErr r = None) rs)"
  using aggregate_eq[of rs] sum_length_filter_compl[of passes rs] by simp

text \<open>A reported percentile is one of the measured times, with at least its share of the times
  at or below it and at least the rest at or above it.\<close>

theorem percentile_rank:
  assumes "xs \<noteq> []" "p \<le> 100"
  defines "i \<equiv> p * (length xs - 1) div 100"
  shows "percentile xs p \<in> set xs \<and>
    i < length (filter (\<lambda>x. x \<le> percentile xs p) xs) \<and>
    length xs - i \<le> length (filter (\<lambda>x. percentile xs p \<le> x) xs)"
proof -
  have i: "i < length (sort xs)" using percentile_index[of "length xs" p] assms by (simp add: i_def)
  have v: "percentile xs p = sort xs ! i" using assms(1) by (simp add: percentile_def i_def Let_def)
  have f: "length (filter P xs) = length (filter P (sort xs))" for P
    by (metis filter_sort length_sort)
  show ?thesis
    using sorted_rank[OF sorted_sort i] percentile_in[OF assms(1,2)] v f by simp
qed

theorem percentile_rank_witness:
  "percentile [30, 10, 20] 95 \<in> set [30, 10, 20 :: int]"
  using percentile_rank[of "[30, 10, 20]" 95] by simp

text \<open>The over-fire measure sees the pin and nothing else: where no retrieved candidate scores NaN or
  +Inf, a test's results count as pinned exactly when the exact-name lookup found a business and
  the query is not categorical.\<close>

theorem pinFired_exact:
  assumes "svSearch sv (wRepo w) q (opts\<lparr>soLimit := 150, soOverlay := query_overlay U sv q, soQueryVec := query_vec sv q (wEmb w)\<rparr>) = (Inr cs, r')"
    and "fst (svExact sv r' q) = Inr pin"
    and "list_all (\<lambda>c. scoreCandidate c (svCfg sv) \<noteq> NaN \<and> scoreCandidate c (svCfg sv) \<noteq> PInf) (hardFilter cs (svCfg sv))"
    and "drop_timings (fst (Search U ustr now None sv q opts w)) = Inr rs"
  shows "pinFired rs \<longleftrightarrow> pin \<noteq> None \<and> \<not> (svIntentEnabled sv \<and> IsCategorical U q)"
proof -
  let ?eff = "if suppress_pin U sv q then None else pin"
  let ?key = "\<lambda>r. name_key U (cName (srCandidate r))"
  obtain ranked where r: "Run ustr None cs ?eff (svCfg sv) (opts\<lparr>soLimit := 150\<rparr>) = Inr ranked"
    and rs: "rs = take 15 (first_per_key ?key ranked)"
    using assms(4) unfolding Search_spec_aux
  proof (rule search_spec_Inr)
    fix cs' s pin' ranked
    assume "svSearch sv (wRepo w) q (opts\<lparr>soLimit := 150, soOverlay := query_overlay U sv q,
        soQueryVec := query_vec sv q (wEmb w)\<rparr>) = (Inr cs', s)" "fst (svExact sv s q) = Inr pin'"
      "Run ustr None cs' (if suppress_pin U sv q then None else pin') (svCfg sv) (opts\<lparr>soLimit := 150\<rparr>) = Inr ranked"
      "rs = take 15 (first_per_key ?key ranked)"
    with assms(1,2) show thesis by (cases "suppress_pin U sv q"; intro that[of ranked]; simp add: Run_eq)
  qed
  show ?thesis
  proof (cases ?eff)
    case None
    then have u: "list_all (\<lambda>r. srCandidate r \<in> set (hardFilter cs (svCfg sv)) \<and>
        srScore r = scoreCandidate (srCandidate r) (svCfg sv)) ranked"
      by (intro Run_unpinned_scores[of ustr cs "svCfg sv" "opts\<lparr>soLimit := 150\<rparr>"]) (use r in simp)
    have "srScore x \<noteq> PInf" if "x \<in> set ranked" for x
      using u assms(3) that unfolding list_all_iff by metis
    moreover have "set rs \<subseteq> set ranked" unfolding rs using set_first_per_key_subset by (metis order_trans set_take_subset)
    ultimately have "\<not> pinFired rs" unfolding pinFired_def is_pinf_def by (metis nth_mem subsetD)
    with None show ?thesis by (auto simp: suppress_pin_def split: if_splits)
  next
    case (Some p)
    with r have "Run ustr None cs (Some p) (svCfg sv) (opts\<lparr>soLimit := 150\<rparr>) = Inr ranked" by (simp add: Run_eq)
    from Run_pin_head[OF assms(3) _ this] obtain rest where "ranked = \<lparr>srCandidate = p, srScore = PInf\<rparr> # rest" by auto
    then have "pinFired rs" by (simp add: rs take_first pinFired_def is_pinf_def)
    with Some show ?thesis by (auto simp: suppress_pin_def split: if_splits)
  qed
qed

theorem pinFired_exact_witness:
  "\<exists>rs. drop_timings (fst (Search basic_unicode unary_id int no_err (one_bakery False) ''panther'' any_opts fresh_world)) = Inr rs \<and>
    pinFired rs"
proof -
  obtain rs where rs: "drop_timings (fst (Search basic_unicode unary_id int no_err (one_bakery False) ''panther'' any_opts fresh_world)) = Inr rs"
    using one_bakery_result by blast
  have "cand_ranges (cafe 2 ''Bakery'')" using sane_for_cafe by (simp add: sane_for_def)
  then have "list_all (\<lambda>c. scoreCandidate c (svCfg (one_bakery False)) \<noteq> NaN \<and> scoreCandidate c (svCfg (one_bakery False)) \<noteq> PInf)
      (hardFilter [cafe 2 ''Bakery''] (svCfg (one_bakery False)))"
    using yaml_score_aux[of "cafe 2 ''Bakery''"] by auto
  from pinFired_exact[OF one_bakery_sel(1) _ this rs[unfolded no_err_def]] rs show ?thesis by simp
qed

end
