(* ===== verification/Bench_Quality.thy ===== *)
theory Bench_Quality
  imports Bench_Score Float_Order
begin

text \<open>
  The ranking-quality evaluation of the bench (\<open>quality_metrics.go\<close>, \<open>quality.go\<close>, the
  aggregation and the decision rule of \<open>quality_report.go\<close>): per-query metrics over the top
  results in binary64, set-wide means, and the literal-against-decay recommendation. Rendering is
  left out.
\<close>

section \<open>Queries and metrics\<close>

record geo_point =
  gpLat :: f64
  gpLng :: f64
  gpLabel :: string

record quality_query =
  qqKind :: string
  qqQ :: string
  qqCategoryMatch :: "string list"
  qqExpectedArch :: string
  qqIntent :: string
  qqGoldenTop5 :: "string list"
  qqLocOverride :: "geo_point option"

record quality_metrics =
  qmN :: nat
  qmMeanDistanceKM :: f64
  qmMedianDistanceKM :: f64
  qmMeanRating :: f64
  qmMeanLogReviews :: f64
  qmPctOpen :: f64
  qmCategoryPrecision :: f64
  qmCategoryHasExpect :: bool
  qmIntentAdherence :: f64
  qmIntentLabel :: string
  qmClaimedPct :: f64
  qmNewAtRank1 :: bool
  qmDiversity :: f64
  qmDistinctNum :: nat

definition intentNA :: f64 where "intentNA = Fin (- 1)"
definition noLocDistanceKM :: f64 where "noLocDistanceKM = Fin 1000000000"
definition lemonScoreMax :: f64 where "lemonScoreMax = Fin 10"
definition goldenK :: nat where "goldenK = 5"

definition candidatesOf :: "scored list \<Rightarrow> candidate list" where
  "candidatesOf ranked = map srCandidate ranked"

fun distance_loop :: "candidate list \<Rightarrow> f64 list \<Rightarrow> f64 \<Rightarrow> f64 list \<times> f64" where
  "distance_loop [] ds acc = (ds, acc)"
| "distance_loop (c # cs) ds acc =
     (if f_le noLocDistanceKM (cDistanceKM c) then distance_loop cs ds acc
      else distance_loop cs (ds @ [cDistanceKM c]) (f_add acc (cDistanceKM c)))"

definition distanceStats :: "candidate list \<Rightarrow> f64 \<times> f64" where
  "distanceStats cands =
     (let (ds, acc) = distance_loop cands [] (Fin 0) in
      if length ds = 0 then (Fin 0, Fin 0)
      else
        (let mean = f_div acc (f_of_int (int (length ds)));
             ds = sort ds;
             mid = length ds div 2
         in (mean, if length ds mod 2 = 1 then ds ! mid else f_div (f_add (ds ! (mid - 1)) (ds ! mid)) (Fin 2))))"

fun rating_loop :: "candidate list \<Rightarrow> f64 \<Rightarrow> nat \<Rightarrow> f64 \<times> nat" where
  "rating_loop [] acc n = (acc, n)"
| "rating_loop (c # cs) acc n =
     (case cLemonScore c of
        None \<Rightarrow> rating_loop cs acc n
      | Some x \<Rightarrow> rating_loop cs (f_add acc (f_div x lemonScoreMax)) (n + 1))"

definition meanRating :: "candidate list \<Rightarrow> f64" where
  "meanRating cands =
     (let (acc, n) = rating_loop cands (Fin 0) 0 in if n = 0 then Fin 0 else f_div acc (f_of_int (int n)))"

fun reviews_loop :: "f64 \<Rightarrow> candidate list \<Rightarrow> f64 \<Rightarrow> f64" where
  "reviews_loop denom [] acc = acc"
| "reviews_loop denom (c # cs) acc =
     reviews_loop denom cs (f_add acc (f_div (f_log (f_add (Fin 1) (f_of_int (cGoogleReviewCount c)))) denom))"

definition meanLogReviews :: "candidate list \<Rightarrow> f64" where
  "meanLogReviews cands =
     f_div (reviews_loop (f_log (Fin 10001)) cands (Fin 0)) (f_of_int (int (length cands)))"

definition pctOpen :: "candidate list \<Rightarrow> f64" where
  "pctOpen cands = fraction (length (filter (\<lambda>c. cIsOpenNow c = Some True) cands)) (length cands)"

definition matchesCategory :: "unicode \<Rightarrow> candidate \<Rightarrow> string list \<Rightarrow> bool" where
  "matchesCategory U c want =
     (let hay = to_lower U (cCategory c);
          hay = (case cSubcategory c of None \<Rightarrow> hay | Some s \<Rightarrow> hay @ '' '' @ to_lower U s)
      in list_ex (\<lambda>w. contains hay (to_lower U w)) want)"

definition categoryPrecision :: "unicode \<Rightarrow> candidate list \<Rightarrow> string list \<Rightarrow> f64" where
  "categoryPrecision U cands want =
     (if length want = 0 then Fin 0
      else fraction (length (filter (\<lambda>c. matchesCategory U c want) cands)) (length cands))"

definition priceFraction :: "candidate list \<Rightarrow> string list \<Rightarrow> f64" where
  "priceFraction cands want =
     (let priced = filter (\<lambda>c. cPriceRange c \<noteq> None) cands;
          n = length (filter (\<lambda>c. the (cPriceRange c) \<in> set want) priced);
          denom = length priced
      in if denom = 0 then intentNA else fraction n denom)"

definition intentAdherence :: "string \<Rightarrow> candidate list \<Rightarrow> f64" where
  "intentAdherence label cands =
     (if label = ''cheap'' then priceFraction cands [''$'', ''$$'']
      else if label = ''fancy'' then priceFraction cands [''$$$'', ''$$$$'']
      else if label = ''open_now'' then pctOpen cands
      else intentNA)"

definition claimedPct :: "candidate list \<Rightarrow> f64" where
  "claimedPct cands = fraction (length (filter cIsClaimed cands)) (length cands)"

definition nameStem :: "unicode \<Rightarrow> string \<Rightarrow> string" where
  "nameStem U name =
     (let toks = Go_Strings.fields (to_lower U (trim_space name));
          toks = (if 2 < length toks then take 2 toks else toks)
      in join '' '' toks)"

definition diversity :: "unicode \<Rightarrow> candidate list \<Rightarrow> nat \<times> f64" where
  "diversity U cands =
     (let distinct_stems = length (remdups (map (\<lambda>c. nameStem U (cName c)) cands))
      in (distinct_stems, fraction distinct_stems (length cands)))"

definition goldenPrecisionAt5 :: "unicode \<Rightarrow> string list \<Rightarrow> scored list \<Rightarrow> f64" where
  "goldenPrecisionAt5 U golden ranked =
     (if length golden = 0 then intentNA
      else
        (let top = (if goldenK < length ranked then take goldenK ranked else ranked);
             stems = map (\<lambda>r. nameStem U (cName (srCandidate r))) top;
             hit = length (filter (\<lambda>g. nameStem U g \<in> set stems) golden)
         in fraction hit (length golden)))"

definition zero_metrics :: quality_metrics where
  "zero_metrics = \<lparr>qmN = 0, qmMeanDistanceKM = Fin 0, qmMedianDistanceKM = Fin 0, qmMeanRating = Fin 0,
     qmMeanLogReviews = Fin 0, qmPctOpen = Fin 0, qmCategoryPrecision = Fin 0, qmCategoryHasExpect = False,
     qmIntentAdherence = Fin 0, qmIntentLabel = [], qmClaimedPct = Fin 0, qmNewAtRank1 = False, qmDiversity = Fin 0,
     qmDistinctNum = 0\<rparr>"

definition computeMetrics :: "unicode \<Rightarrow> quality_query \<Rightarrow> scored list \<Rightarrow> quality_metrics" where
  "computeMetrics U q ranked =
     (let cands = candidatesOf ranked; m = zero_metrics\<lparr>qmN := length cands\<rparr> in
      if length cands = 0 then m\<lparr>qmIntentAdherence := intentNA, qmIntentLabel := qqIntent q\<rparr>
      else m\<lparr>qmMeanDistanceKM := fst (distanceStats cands), qmMedianDistanceKM := snd (distanceStats cands),
        qmMeanRating := meanRating cands, qmMeanLogReviews := meanLogReviews cands, qmPctOpen := pctOpen cands,
        qmCategoryHasExpect := 0 < length (qqCategoryMatch q),
        qmCategoryPrecision := categoryPrecision U cands (qqCategoryMatch q), qmIntentLabel := qqIntent q,
        qmIntentAdherence := intentAdherence (qqIntent q) cands, qmClaimedPct := claimedPct cands,
        qmNewAtRank1 := cIsNew (cands ! 0), qmDistinctNum := fst (diversity U cands),
        qmDiversity := snd (diversity U cands)\<rparr>)"

section \<open>Rows and runs\<close>

record 'e quality_row =
  qrQuery :: quality_query
  qrLoc :: geo_point
  qrMetrics :: quality_metrics
  qrGolden :: f64
  qrErr :: "'e option"

record 'e quality_run =
  quLabel :: string
  quRows :: "'e quality_row list"

record quality_file =
  qfUserLocation :: geo_point
  qfNowOverride :: string
  qfClaimedBaseRate :: f64
  qfQueries :: "quality_query list"

definition runQualityOne :: "unicode \<Rightarrow> (uuid \<Rightarrow> string) \<Rightarrow> (nat \<Rightarrow> int) \<Rightarrow> 'x option \<Rightarrow> ('r, 'm, 'e) service \<Rightarrow>
    quality_file \<Rightarrow> instant \<Rightarrow> quality_query \<Rightarrow> ('r, 'm) world \<Rightarrow>
    ('e, 'x) search_error quality_row \<times> ('r, 'm) world" where
  "runQualityOne U ustr clock ctx_err svc qf now q w =
     (let loc = (case qqLocOverride q of None \<Rightarrow> qfUserLocation qf | Some l \<Rightarrow> l);
          (res, w) = Search U ustr clock ctx_err svc (qqQ q) (bench_opts (gpLat loc) (gpLng loc) now) w
      in (case res of
            Inl e \<Rightarrow> \<lparr>qrQuery = q, qrLoc = loc, qrMetrics = zero_metrics, qrGolden = Fin 0, qrErr = Some e\<rparr>
          | Inr (ranked, _) \<Rightarrow> \<lparr>qrQuery = q, qrLoc = loc, qrMetrics = computeMetrics U q ranked,
              qrGolden = goldenPrecisionAt5 U (qqGoldenTop5 q) ranked, qrErr = None\<rparr>, w))"

fun quality_rows :: "unicode \<Rightarrow> (uuid \<Rightarrow> string) \<Rightarrow> (nat \<Rightarrow> int) \<Rightarrow> 'x option \<Rightarrow> ('r, 'm, 'e) service \<Rightarrow>
    quality_file \<Rightarrow> instant \<Rightarrow> quality_query list \<Rightarrow> ('r, 'm) world \<Rightarrow>
    ('e, 'x) search_error quality_row list \<times> ('r, 'm) world" where
  "quality_rows U ustr clock ctx_err svc qf now [] w = ([], w)"
| "quality_rows U ustr clock ctx_err svc qf now (q # qs) w =
     (let (r, w) = runQualityOne U ustr clock ctx_err svc qf now q w;
          (rs, w) = quality_rows U ustr clock ctx_err svc qf now qs w
      in (r # rs, w))"

text \<open>The bench's service is built on the configuration, with intent on and no embedder.\<close>

definition bench_service :: "('r \<Rightarrow> string \<Rightarrow> search_opts \<Rightarrow> ('e + candidate list) \<times> 'r) \<Rightarrow>
    ('r \<Rightarrow> string \<Rightarrow> ('e + candidate option) \<times> 'r) \<Rightarrow> ranking \<Rightarrow> ('r, 'm, 'e) service" where
  "bench_service search exact cfg = New_service search exact cfg True None"

definition runQualitySet :: "unicode \<Rightarrow> (uuid \<Rightarrow> string) \<Rightarrow> (nat \<Rightarrow> int) \<Rightarrow> 'x option \<Rightarrow> string \<Rightarrow>
    ('r, 'm, 'e) service \<Rightarrow> quality_file \<Rightarrow> instant \<Rightarrow> ('r, 'm) world \<Rightarrow>
    ('e, 'x) search_error quality_run \<times> ('r, 'm) world" where
  "runQualitySet U ustr clock ctx_err label svc qf now w =
     (let (rows, w) = quality_rows U ustr clock ctx_err svc qf now (qfQueries qf) w
      in (\<lparr>quLabel = label, quRows = rows\<rparr>, w))"

definition with_distance :: "ranking \<Rightarrow> string \<Rightarrow> ranking" where
  "with_distance cfg d = cfg\<lparr>rSignalFormulas := (rSignalFormulas cfg)\<lparr>sfDistance := d\<rparr>\<rparr>"

definition runQuality :: "unicode \<Rightarrow> (uuid \<Rightarrow> string) \<Rightarrow> (nat \<Rightarrow> int) \<Rightarrow> 'x option \<Rightarrow> ranking \<Rightarrow>
    ('r \<Rightarrow> string \<Rightarrow> search_opts \<Rightarrow> ('e + candidate list) \<times> 'r) \<Rightarrow> ('r \<Rightarrow> string \<Rightarrow> ('e + candidate option) \<times> 'r) \<Rightarrow>
    quality_file \<Rightarrow> instant \<Rightarrow> ('r, 'm) world \<Rightarrow> ('e, 'x) search_error quality_run list \<times> ('r, 'm) world" where
  "runQuality U ustr clock ctx_err cfg search exact qf now w =
     (let (lit, w) = runQualitySet U ustr clock ctx_err ''literal'' (bench_service search exact (with_distance cfg ''literal'')) qf now w;
          (dec, w) = runQualitySet U ustr clock ctx_err ''decay'' (bench_service search exact (with_distance cfg ''decay'')) qf now w
      in ([lit, dec], w))"

section \<open>Aggregation and decision\<close>

record quality_agg =
  qaN :: nat
  qaMeanDistanceKM :: f64
  qaMedianDistanceKM :: f64
  qaMeanRating :: f64
  qaMeanLogReviews :: f64
  qaPctOpen :: f64
  qaCategoryPrecision :: f64
  qaClaimedPct :: f64
  qaDiversity :: f64
  qaNewAtRank1Count :: nat
  qaGoldenAt5 :: f64

record agg_sums =
  asAgg :: quality_agg
  asCatSum :: f64
  asCatN :: f64
  asGoldSum :: f64
  asGoldN :: f64

definition no_sums :: agg_sums where
  "no_sums = \<lparr>asAgg = \<lparr>qaN = 0, qaMeanDistanceKM = Fin 0, qaMedianDistanceKM = Fin 0, qaMeanRating = Fin 0,
     qaMeanLogReviews = Fin 0, qaPctOpen = Fin 0, qaCategoryPrecision = Fin 0, qaClaimedPct = Fin 0,
     qaDiversity = Fin 0, qaNewAtRank1Count = 0, qaGoldenAt5 = Fin 0\<rparr>,
     asCatSum = Fin 0, asCatN = Fin 0, asGoldSum = Fin 0, asGoldN = Fin 0\<rparr>"

definition add_row :: "agg_sums \<Rightarrow> 'e quality_row \<Rightarrow> agg_sums" where
  "add_row s r =
     (if qrErr r \<noteq> None \<or> qmN (qrMetrics r) = 0 then s
      else
        (let m = qrMetrics r; a = asAgg s;
             a = a\<lparr>qaN := qaN a + 1,
               qaMeanDistanceKM := f_add (qaMeanDistanceKM a) (qmMeanDistanceKM m),
               qaMedianDistanceKM := f_add (qaMedianDistanceKM a) (qmMedianDistanceKM m),
               qaMeanRating := f_add (qaMeanRating a) (qmMeanRating m),
               qaMeanLogReviews := f_add (qaMeanLogReviews a) (qmMeanLogReviews m),
               qaPctOpen := f_add (qaPctOpen a) (qmPctOpen m),
               qaClaimedPct := f_add (qaClaimedPct a) (qmClaimedPct m),
               qaDiversity := f_add (qaDiversity a) (qmDiversity m),
               qaNewAtRank1Count := (if qmNewAtRank1 m then qaNewAtRank1Count a + 1 else qaNewAtRank1Count a)\<rparr>;
             s = s\<lparr>asAgg := a\<rparr>;
             s = (if qmCategoryHasExpect m then s\<lparr>asCatSum := f_add (asCatSum s) (qmCategoryPrecision m),
                    asCatN := f_add (asCatN s) (Fin 1)\<rparr> else s)
         in if \<not> f_eq (qrGolden r) intentNA then s\<lparr>asGoldSum := f_add (asGoldSum s) (qrGolden r),
              asGoldN := f_add (asGoldN s) (Fin 1)\<rparr> else s))"

definition aggregateQuality :: "'e quality_row list \<Rightarrow> quality_agg" where
  "aggregateQuality rows =
     (let s = foldl add_row no_sums rows; a = asAgg s; n = f_of_int (int (qaN a));
          a = (if 0 < qaN a then a\<lparr>qaMeanDistanceKM := f_div (qaMeanDistanceKM a) n,
                 qaMedianDistanceKM := f_div (qaMedianDistanceKM a) n, qaMeanRating := f_div (qaMeanRating a) n,
                 qaMeanLogReviews := f_div (qaMeanLogReviews a) n, qaPctOpen := f_div (qaPctOpen a) n,
                 qaClaimedPct := f_div (qaClaimedPct a) n, qaDiversity := f_div (qaDiversity a) n\<rparr> else a);
          a = (if f_lt (Fin 0) (asCatN s) then a\<lparr>qaCategoryPrecision := f_div (asCatSum s) (asCatN s)\<rparr> else a)
      in if f_lt (Fin 0) (asGoldN s) then a\<lparr>qaGoldenAt5 := f_div (asGoldSum s) (asGoldN s)\<rparr> else a)"

text \<open>The queries without results in the first run, each once and quoted.\<close>

fun empty_loop :: "'e quality_row list \<Rightarrow> string list \<Rightarrow> string list \<Rightarrow> string list" where
  "empty_loop [] seen out = out"
| "empty_loop (r # rs) seen out =
     (if qrErr r = None \<and> qmN (qrMetrics r) = 0 \<and> qqQ (qrQuery r) \<notin> set seen
      then empty_loop rs (qqQ (qrQuery r) # seen) (out @ [''`'' @ qqQ (qrQuery r) @ ''`''])
      else empty_loop rs seen out)"

definition emptyQueries :: "'e quality_run list \<Rightarrow> string list" where
  "emptyQueries runs = (case runs of [] \<Rightarrow> [] | r # _ \<Rightarrow> empty_loop (quRows r) [] [])"

datatype decision = FlipToDecay | KeepLiteral | KeepLiteralOptIn

text \<open>The switch of \<open>writeABRead\<close>.\<close>

definition recommend :: "quality_agg \<Rightarrow> quality_agg \<Rightarrow> decision" where
  "recommend lit dec =
     (let distDelta = f_sub (qaMeanDistanceKM dec) (qaMeanDistanceKM lit);
          catDelta = f_sub (qaCategoryPrecision dec) (qaCategoryPrecision lit);
          ratingDelta = f_sub (qaMeanRating dec) (qaMeanRating lit)
      in if f_lt distDelta (f_const (- 5 / 100)) \<and> f_le (f_const (- 5 / 1000)) catDelta \<and>
            f_le (f_const (- 5 / 1000)) ratingDelta then FlipToDecay
         else if f_le (Fin 0) distDelta then KeepLiteral
         else KeepLiteralOptIn)"

definition claimed_note :: "quality_agg \<Rightarrow> quality_agg \<Rightarrow> bool" where
  "claimed_note lit dec =
     (\<not> (f_lt (qaClaimedPct lit) (f_const (414 / 1000)) \<and> f_lt (qaClaimedPct dec) (f_const (414 / 1000))))"

section \<open>Facts\<close>

lemma pctOpen_unit: "cs \<noteq> [] \<Longrightarrow> length cs < 2 ^ 53 \<Longrightarrow> unit_f (pctOpen cs)"
  by (simp add: pctOpen_def fraction_unit)

lemma categoryPrecision_unit: "cs \<noteq> [] \<Longrightarrow> length cs < 2 ^ 53 \<Longrightarrow> unit_f (categoryPrecision U cs want)"
  by (simp add: categoryPrecision_def fraction_unit)

lemma claimedPct_unit: "cs \<noteq> [] \<Longrightarrow> length cs < 2 ^ 53 \<Longrightarrow> unit_f (claimedPct cs)"
  by (simp add: claimedPct_def fraction_unit)

lemma priceFraction_range:
  assumes "length cs < 2 ^ 53"
  shows "priceFraction cs want = intentNA \<or> unit_f (priceFraction cs want)"
proof -
  define priced where "priced = filter (\<lambda>c. cPriceRange c \<noteq> None) cs"
  have "length priced < 2 ^ 53"
    using assms length_filter_le[of "\<lambda>c. cPriceRange c \<noteq> None" cs] unfolding priced_def by (rule le_less_trans[rotated])
  then show ?thesis
    unfolding priceFraction_def Let_def priced_def[symmetric]
    using fraction_unit[OF length_filter_le[of "\<lambda>c. the (cPriceRange c) \<in> set want" priced]] by auto
qed

lemma intentAdherence_range:
  "cs \<noteq> [] \<Longrightarrow> length cs < 2 ^ 53 \<Longrightarrow> intentAdherence l cs = intentNA \<or> unit_f (intentAdherence l cs)"
  using priceFraction_range[of cs] pctOpen_unit[of cs] by (auto simp: intentAdherence_def)

lemma diversity_bounds:
  assumes "cs \<noteq> []" "length cs < 2 ^ 53"
  shows "unit_f (snd (diversity U cs))" "1 \<le> fst (diversity U cs)" "fst (diversity U cs) \<le> length cs"
proof -
  let ?n = "length (remdups (map (\<lambda>c. nameStem U (cName c)) cs))"
  have n: "?n \<le> length cs" "1 \<le> ?n"
    using length_remdups_leq[of "map (\<lambda>c. nameStem U (cName c)) cs"] assms(1) by (simp_all add: Suc_le_eq)
  with assms show "unit_f (snd (diversity U cs))" "1 \<le> fst (diversity U cs)" "fst (diversity U cs) \<le> length cs"
    by (simp_all add: diversity_def Let_def fraction_unit)
qed

text \<open>A mean of values between 0 and 1 stays there: every partial sum is at most its count, rounding
  included.\<close>

lemma f_add_count:
  assumes "f_le (Fin 0) x" "f_le x (f_of_int (int n))" "unit_f y" "n < 2 ^ 52"
  shows "f_le (Fin 0) (f_add x y)" "f_le (f_add x y) (f_of_int (int (n + 1)))"
proof -
  have n: "f_of_int (int n) = Fin (of_nat n)" "f_of_int (int (n + 1)) = Fin (of_nat (n + 1))"
    using assms(4) by (simp_all add: f_of_int_small)
  obtain a where a: "x = Fin a" "0 \<le> a" "a \<le> of_nat n" using assms(1,2) n by (cases x) auto
  obtain b where b: "y = Fin b" "0 \<le> b" "b \<le> 1" using assms(3) by (auto simp: unit_f_iff)
  have "f_le (fround 0) (fround (a + b))" "f_le (fround (a + b)) (fround (of_nat (n + 1)))"
    by (rule fround_mono, use a b in simp)+
  moreover have "fround (of_nat (n + 1)) = Fin (of_nat (n + 1))"
    using fround_of_int[of "int (n + 1)"] assms(4) by simp
  ultimately show "f_le (Fin 0) (f_add x y)" "f_le (f_add x y) (f_of_int (int (n + 1)))"
    using a b n by simp_all
qed

lemma f_div_count:
  assumes "f_le (Fin 0) x" "f_le x (f_of_int (int n))" "0 < n" "n < 2 ^ 53"
  shows "unit_f (f_div x (f_of_int (int n)))"
proof -
  have n: "f_of_int (int n) = Fin (of_nat n)" using assms(4) by (simp add: f_of_int_small)
  obtain a where "x = Fin a" "0 \<le> a" "a \<le> of_nat n" using assms(1,2) n by (cases x) auto
  with assms(3) n show ?thesis by (simp add: fround_unit)
qed

definition lemon_range :: "candidate \<Rightarrow> bool" where
  "lemon_range c \<longleftrightarrow> pred_option (\<lambda>x. f_le (Fin 0) x \<and> f_le x (Fin 10)) (cLemonScore c)"

lemma rating_share: "f_le (Fin 0) x \<Longrightarrow> f_le x (Fin 10) \<Longrightarrow> unit_f (f_div x lemonScoreMax)"
  by (cases x) (auto simp: lemonScoreMax_def fround_unit)

lemma rating_loop_bounds:
  assumes "list_all lemon_range cs" "f_le (Fin 0) acc" "f_le acc (f_of_int (int n))" "n + length cs < 2 ^ 52"
  shows "case rating_loop cs acc n of (acc', n') \<Rightarrow>
    f_le (Fin 0) acc' \<and> f_le acc' (f_of_int (int n')) \<and> n' \<le> n + length cs"
  using assms
proof (induction cs acc n rule: rating_loop.induct)
  case (2 c cs acc n)
  show ?case
  proof (cases "cLemonScore c")
    case None
    with 2 show ?thesis by (auto split: prod.splits)
  next
    case (Some x)
    with "2.prems"(1) have "unit_f (f_div x lemonScoreMax)" by (auto simp: lemon_range_def rating_share)
    from f_add_count[OF "2.prems"(2,3) this] "2.prems"(4)
    have "f_le (Fin 0) (f_add acc (f_div x lemonScoreMax))"
      "f_le (f_add acc (f_div x lemonScoreMax)) (f_of_int (int (n + 1)))" by auto
    from "2.IH"(2)[OF Some _ this] "2.prems"(1,4) Some show ?thesis by (auto split: prod.splits)
  qed
qed simp

lemma meanRating_unit:
  assumes "list_all lemon_range cs" "length cs < 2 ^ 52"
  shows "unit_f (meanRating cs)"
proof -
  obtain acc n where l: "rating_loop cs (Fin 0) 0 = (acc, n)" by fastforce
  have "f_le (Fin 0) acc \<and> f_le acc (f_of_int (int n)) \<and> n \<le> length cs"
    using rating_loop_bounds[of cs "Fin 0" 0] assms l by simp
  with assms(2) l f_div_count[of acc n] show ?thesis by (auto simp: meanRating_def)
qed

section \<open>Properties\<close>

text \<open>The metrics of one query, as the report reads them.\<close>

definition metrics_ok :: "quality_metrics \<Rightarrow> bool" where
  "metrics_ok m \<longleftrightarrow> unit_f (qmPctOpen m) \<and> unit_f (qmCategoryPrecision m) \<and> unit_f (qmClaimedPct m) \<and>
     unit_f (qmDiversity m) \<and> (qmIntentAdherence m = intentNA \<or> unit_f (qmIntentAdherence m)) \<and>
     qmDistinctNum m \<le> qmN m \<and> (qmN m = 0 \<or> 1 \<le> qmDistinctNum m)"

lemma computeMetrics_ok:
  assumes "length ranked < 2 ^ 53"
  shows "metrics_ok (computeMetrics U q ranked)" "qmN (computeMetrics U q ranked) = length ranked"
proof -
  have c: "length (candidatesOf ranked) = length ranked" by (simp add: candidatesOf_def)
  show "metrics_ok (computeMetrics U q ranked)"
  proof (cases "ranked = []")
    case True
    then show ?thesis by (simp add: computeMetrics_def candidatesOf_def metrics_ok_def zero_metrics_def)
  next
    case False
    then have "candidatesOf ranked \<noteq> []" by (simp add: candidatesOf_def)
    with assms c diversity_bounds[of "candidatesOf ranked" U] show ?thesis
      by (simp add: computeMetrics_def Let_def metrics_ok_def zero_metrics_def pctOpen_unit categoryPrecision_unit
          claimedPct_unit intentAdherence_range)
  qed
  show "qmN (computeMetrics U q ranked) = length ranked"
    using c by (cases ranked) (simp_all add: computeMetrics_def candidatesOf_def Let_def zero_metrics_def)
qed

lemma golden_range: "length golden < 2 ^ 53 \<Longrightarrow> goldenPrecisionAt5 U golden ranked = intentNA \<or>
    unit_f (goldenPrecisionAt5 U golden ranked)"
  by (simp add: goldenPrecisionAt5_def Let_def fraction_unit)

lemma Search_at_most:
  assumes "Search U ustr now ctx_err sv q opts w = (Inr (rs, t), w')"
  shows "length rs \<le> 15"
proof -
  from assms have "search_spec U ustr ctx_err sv q opts (wRepo w) (wEmb w) = Inr rs"
    using Search_spec_aux[of U ustr now ctx_err sv q opts w] by simp
  then show ?thesis by (rule search_spec_Inr) simp
qed

text \<open>Every row of the quality evaluation is well formed, whatever was retrieved: an error row, or the
  metrics of at most 15 results, each share between 0 and 1 with rounding included, adherence
  perhaps not applicable, and the distinct name stems between one and the number of results.\<close>

theorem quality_row_ok:
  "let r = fst (runQualityOne U ustr clock ctx_err svc qf now q w) in
     if qrErr r = None then qmN (qrMetrics r) \<le> 15 \<and> metrics_ok (qrMetrics r) else qrMetrics r = zero_metrics"
proof -
  define loc where "loc = (case qqLocOverride q of None \<Rightarrow> qfUserLocation qf | Some l \<Rightarrow> l)"
  obtain res w' where s: "Search U ustr clock ctx_err svc (qqQ q) (bench_opts (gpLat loc) (gpLng loc) now) w = (res, w')"
    by fastforce
  show ?thesis
  proof (cases res)
    case (Inl e)
    with s show ?thesis by (simp add: runQualityOne_def loc_def Let_def)
  next
    case (Inr p)
    then obtain ranked t where p: "res = Inr (ranked, t)" by (cases p) simp
    with s have l: "length ranked \<le> 15" by (simp add: Search_at_most)
    from p s show ?thesis
      using l computeMetrics_ok[of ranked U q] by (simp add: runQualityOne_def loc_def Let_def)
  qed
qed

text \<open>The popularity mean has no cap: with ten to the ninth reviews it exceeds 1, against the range the
  struct's comment gives.\<close>

definition reviewed :: candidate where
  "reviewed = (cafe 1 ''Panther'')\<lparr>cGoogleReviewCount := 10 ^ 9\<rparr>"

lemma log_bounds: "8 \<le> ln (10001 :: real)" "ln 10001 \<le> (10 :: real)" "18 \<le> ln (1000000001 :: real)"
proof -
  have up: "exp (of_nat n) \<le> (3 :: real) ^ n" for n
    using power_mono[OF exp_le, of n] exp_of_nat_mult[of n "1 :: real"] by simp
  show "8 \<le> ln (10001 :: real)" using up[of 8] by (simp add: ln_ge_iff)
  show "18 \<le> ln (1000000001 :: real)" using up[of 18] by (simp add: ln_ge_iff)
  have "(9/8 :: real) ^ 80 \<le> exp (1/8) ^ 80"
    using exp_ge_add_one_self[of "1/8"] by (intro power_mono) simp_all
  also have "\<dots> = exp 10" by (simp add: exp_of_nat_mult[symmetric])
  finally have "(9/8 :: real) ^ 80 \<le> exp 10" .
  moreover have "10001 \<le> (9/8 :: real) ^ 80" by (simp add: power_divide)
  ultimately have "10001 \<le> exp (10 :: real)" by linarith
  then show "ln 10001 \<le> (10 :: real)" using ln_le_cancel_iff[of 10001 "exp 10"] by simp
qed

lemma half_step: "f_le (Fin (3/2)) x \<Longrightarrow> f_le (Fin (3/2)) (f_add (Fin 0) x)"
  "f_le (Fin (3/2)) x \<Longrightarrow> f_le (Fin (3/2)) (f_div x (Fin 1))"
  using fround_mono[of "3/2"] fround_dyadic[of 3 1] by (cases x; simp)+

lemma log_reviews_exceeds: "f_lt (Fin 1) (meanLogReviews [reviewed])"
proof -
  define A where "A = fround (ln 1000000001)"
  define B where "B = fround (ln 10001)"
  have "f_le (fround 18) A" "f_le A (fround 1000000001)"
    unfolding A_def by (rule fround_mono; use log_bounds ln_le_minus_one[of 1000000001] in simp)+
  then obtain a where a: "A = Fin a" "18 \<le> a"
    using fround_numeral by (cases A) (auto simp: fround_numeral)
  have "f_le (fround 8) B" "f_le B (fround 10)"
    unfolding B_def by (rule fround_mono; use log_bounds in simp)+
  then obtain b where b: "B = Fin b" "8 \<le> b" "b \<le> 10" by (cases B) (auto simp: fround_numeral)
  have "3/2 \<le> a / b" using a b by (simp add: field_simps)
  then have "f_le (fround (3/2)) (fround (a / b))" by (rule fround_mono)
  then have q: "f_le (Fin (3/2)) (f_div A B)" using a b fround_dyadic[of 3 1] by simp
  have i: "f_of_int (10 ^ 9) = Fin (10 ^ 9)" "f_of_int 1 = Fin 1" by (simp_all add: f_of_int_small)
  have "f_add (Fin 1) (Fin (10 ^ 9)) = Fin 1000000001" by (simp add: fround_numeral)
  then have "meanLogReviews [reviewed] = f_div (f_add (Fin 0) (f_div A B)) (Fin 1)"
    using i by (simp add: meanLogReviews_def reviewed_def A_def B_def)
  then have "f_le (Fin (3/2)) (meanLogReviews [reviewed])" using half_step(2)[OF half_step(1)[OF q]] by simp
  then show ?thesis by (cases "meanLogReviews [reviewed]") auto
qed

end
