(* ===== verification/Bench_Semantic.thy ===== *)
theory Bench_Semantic
  imports Bench_Quality Api_Boot
begin

text \<open>
  The semantic go/no-go bench (\<open>semantic.go\<close> and the verdict of \<open>semantic_report.go\<close>): each query
  through an arm without and an arm with the embedder over the same repository, the category-level
  pass@3, the tally of both arms and the decision against the lift and latency thresholds.
\<close>

section \<open>Both arms\<close>

record semantic_test =
  smQ :: string
  smExpect :: "string list"
  smNote :: string

record semantic_file =
  sfLat :: f64
  sfLng :: f64
  sfNowOverride :: string
  sfTests :: "semantic_test list"

datatype 'e arm_error = OffArm 'e | OnArm 'e

record 'e sem_result =
  sxQ :: string
  sxOffPass :: bool
  sxOnPass :: bool
  sxOnTop1 :: string
  sxOffMS :: int
  sxOnMS :: int
  sxEmbedMS :: int
  sxErr :: "'e arm_error option"

definition scoreSemantic :: "unicode \<Rightarrow> semantic_test \<Rightarrow> scored list \<Rightarrow> bool" where
  "scoreSemantic U t ranked =
     (let n = (if length ranked < topK then length ranked else topK) in
      list_ex (\<lambda>r. let hay = to_lower U (cCategory (srCandidate r));
                       hay = (case cSubcategory (srCandidate r) of None \<Rightarrow> hay | Some s \<Rightarrow> hay @ '' '' @ to_lower U s)
                   in list_ex (\<lambda>tok. contains hay (to_lower U tok)) (smExpect t)) (take n ranked))"

definition top1Name :: "scored list \<Rightarrow> string" where
  "top1Name ranked = (if length ranked = 0 then ''(none)'' else cName (srCandidate (ranked ! 0)))"

definition runSemanticOne :: "unicode \<Rightarrow> (uuid \<Rightarrow> string) \<Rightarrow> (nat \<Rightarrow> int) \<Rightarrow> 'x option \<Rightarrow> ('r, 'm, 'e) service \<Rightarrow>
    ('r, 'm, 'e) service \<Rightarrow> semantic_file \<Rightarrow> instant \<Rightarrow> semantic_test \<Rightarrow> ('r, 'm) world \<Rightarrow>
    ('e, 'x) search_error sem_result \<times> ('r, 'm) world" where
  "runSemanticOne U ustr clock ctx_err svcOff svcOn sf now t w =
     (let opts = bench_opts (sfLat sf) (sfLng sf) now;
          failed = \<lparr>sxQ = smQ t, sxOffPass = False, sxOnPass = False, sxOnTop1 = [], sxOffMS = 0, sxOnMS = 0,
            sxEmbedMS = 0, sxErr = None\<rparr>;
          (offStart, w) = time_now clock w;
          (off, w) = Search U ustr clock ctx_err svcOff (smQ t) opts w;
          (offMS, w) = sinceMS clock offStart w;
          (onStart, w) = time_now clock w;
          (on, w) = Search U ustr clock ctx_err svcOn (smQ t) opts w;
          (onMS, w) = sinceMS clock onStart w
      in (case off of
            Inl e \<Rightarrow> failed\<lparr>sxErr := Some (OffArm e)\<rparr>
          | Inr (offRanked, _) \<Rightarrow>
              (case on of
                 Inl e \<Rightarrow> failed\<lparr>sxErr := Some (OnArm e)\<rparr>
               | Inr (onRanked, onTimings) \<Rightarrow>
                   \<lparr>sxQ = smQ t, sxOffPass = scoreSemantic U t offRanked, sxOnPass = scoreSemantic U t onRanked,
                    sxOnTop1 = top1Name onRanked, sxOffMS = offMS, sxOnMS = onMS, sxEmbedMS = tEmbedMS onTimings,
                    sxErr = None\<rparr>), w))"

fun semantic_loop :: "unicode \<Rightarrow> (uuid \<Rightarrow> string) \<Rightarrow> (nat \<Rightarrow> int) \<Rightarrow> 'x option \<Rightarrow> ('r, 'm, 'e) service \<Rightarrow>
    ('r, 'm, 'e) service \<Rightarrow> semantic_file \<Rightarrow> instant \<Rightarrow> semantic_test list \<Rightarrow> ('r, 'm) world \<Rightarrow>
    ('e, 'x) search_error sem_result list \<times> ('r, 'm) world" where
  "semantic_loop U ustr clock ctx_err svcOff svcOn sf now [] w = ([], w)"
| "semantic_loop U ustr clock ctx_err svcOff svcOn sf now (t # ts) w =
     (let (r, w) = runSemanticOne U ustr clock ctx_err svcOff svcOn sf now t w;
          (rs, w) = semantic_loop U ustr clock ctx_err svcOff svcOn sf now ts w
      in (r # rs, w))"

text \<open>The arms differ in the embedder only.\<close>

definition runSemantic :: "unicode \<Rightarrow> (uuid \<Rightarrow> string) \<Rightarrow> (nat \<Rightarrow> int) \<Rightarrow> 'x option \<Rightarrow> ranking \<Rightarrow>
    ('r \<Rightarrow> string \<Rightarrow> search_opts \<Rightarrow> ('e + candidate list) \<times> 'r) \<Rightarrow> ('r \<Rightarrow> string \<Rightarrow> ('e + candidate option) \<times> 'r) \<Rightarrow>
    ('m \<Rightarrow> string \<Rightarrow> ('e + f32 list) \<times> 'm) \<Rightarrow> semantic_file \<Rightarrow> instant \<Rightarrow> ('r, 'm) world \<Rightarrow>
    ('e, 'x) search_error sem_result list \<times> ('r, 'm) world" where
  "runSemantic U ustr clock ctx_err cfg search exact emb sf now w =
     semantic_loop U ustr clock ctx_err (New_service search exact cfg True None) (New_service search exact cfg True (Some emb))
       sf now (sfTests sf) w"

text \<open>The embedder under test; here a failed construction is an error.\<close>

definition benchEmbedder :: "('s, 'row, 'h, 'b, 'o, 'f, 'e) host \<Rightarrow>
    'e port_error + ('h, 'o, 'e) query_embedder \<times> ('h \<times> nat \<times> 'o) \<times> resource list" where
  "benchEmbedder ho =
     (if envOr (hoEnv ho) ''LEMON_EMBED_BACKEND'' ''ollama'' = ''onnx'' then
        (case New_onnx (hoOrt ho) (envOr (hoEnv ho) ''LEMON_ONNX_MODEL_PATH'' ''models/all-MiniLM-L6-v2'')
                (hoEnv ho ''LEMON_ONNX_RUNTIME_DIR'') 0 of
           Inl e \<Rightarrow> Inl (OnnxError e)
         | Inr st \<Rightarrow> Inr (onnx_query ho, (fst (hoEmb ho), st), [OnnxSession]))
      else
        (case New_ollama ''http://localhost:11434'' ''all-minilm'' of
           Inl e \<Rightarrow> Inl (OllamaError e)
         | Inr emb \<Rightarrow> Inr (ollama_query ho emb, hoEmb ho, [])))"

section \<open>Tally and verdict\<close>

record sem_tally =
  stOffN :: nat
  stOnN :: nat
  stGained :: nat
  stRegressed :: nat
  stTotal :: nat

definition tally_arm :: "sem_tally \<Rightarrow> 'e sem_result \<Rightarrow> sem_tally" where
  "tally_arm s r =
     (if sxErr r \<noteq> None then s
      else
        (let s = s\<lparr>stTotal := stTotal s + 1\<rparr>;
             s = (if sxOffPass r then s\<lparr>stOffN := stOffN s + 1\<rparr> else s);
             s = (if sxOnPass r then s\<lparr>stOnN := stOnN s + 1\<rparr> else s)
         in if \<not> sxOffPass r \<and> sxOnPass r then s\<lparr>stGained := stGained s + 1\<rparr>
            else if sxOffPass r \<and> \<not> sxOnPass r then s\<lparr>stRegressed := stRegressed s + 1\<rparr>
            else s))"

definition tallySemantic :: "'e sem_result list \<Rightarrow> sem_tally" where
  "tallySemantic results =
     foldl tally_arm \<lparr>stOffN = 0, stOnN = 0, stGained = 0, stRegressed = 0, stTotal = 0\<rparr> results"

definition latencies :: "'e sem_result list \<Rightarrow> int list \<times> int list \<times> int list" where
  "latencies results =
     (let ok = filter (\<lambda>r. sxErr r = None) results in (map sxOffMS ok, map sxOnMS ok, map sxEmbedMS ok))"

definition materialLiftPP :: f64 where "materialLiftPP = Fin 10"
definition engineP95Budget :: int where "engineP95Budget = 60"

text \<open>The verdict of the report: GO exactly when both gates hold.\<close>

definition semantic_go :: "'e sem_result list \<Rightarrow> bool" where
  "semantic_go results =
     (let t = tallySemantic results;
          (_, on, _) = latencies results;
          onP95 = percentile on 95;
          liftPP = f_sub (pct (stOnN t) (stTotal t)) (pct (stOffN t) (stTotal t));
          liftOK = f_le materialLiftPP liftPP;
          latencyOK = onP95 \<le> engineP95Budget
      in \<not> (\<not> liftOK \<or> \<not> latencyOK))"

section \<open>Facts\<close>

definition arm_count :: "('e sem_result \<Rightarrow> bool) \<Rightarrow> 'e sem_result list \<Rightarrow> nat" where
  "arm_count P rs = length (filter (\<lambda>r. sxErr r = None \<and> P r) rs)"

lemma arm_count_snoc: "arm_count P (rs @ [r]) = arm_count P rs + (if sxErr r = None \<and> P r then 1 else 0)"
  by (simp add: arm_count_def)

lemma tallySemantic_eq:
  "tallySemantic rs = \<lparr>stOffN = arm_count sxOffPass rs, stOnN = arm_count sxOnPass rs,
     stGained = arm_count (\<lambda>r. \<not> sxOffPass r \<and> sxOnPass r) rs,
     stRegressed = arm_count (\<lambda>r. sxOffPass r \<and> \<not> sxOnPass r) rs, stTotal = arm_count (\<lambda>_. True) rs\<rparr>"
proof (induction rs rule: rev_induct)
  case Nil
  show ?case by (simp add: tallySemantic_def arm_count_def)
next
  case (snoc r rs)
  have "tallySemantic (rs @ [r]) = tally_arm (tallySemantic rs) r" by (simp add: tallySemantic_def)
  with snoc show ?case by (simp add: tally_arm_def arm_count_snoc Let_def)
qed

lemma arm_balance: "arm_count sxOnPass rs + arm_count (\<lambda>r. sxOffPass r \<and> \<not> sxOnPass r) rs =
    arm_count sxOffPass rs + arm_count (\<lambda>r. \<not> sxOffPass r \<and> sxOnPass r) rs"
  by (induction rs) (auto simp: arm_count_def)

lemma arm_count_le: "arm_count P rs \<le> arm_count (\<lambda>_. True) rs"
  by (induction rs) (auto simp: arm_count_def)

section \<open>Properties\<close>

text \<open>The tally of the two arms balances: passes gained and lost account for the difference between the
  arms, each arm passes at most the cases without error, and the two latency lists have one
  entry for each of these.\<close>

theorem semantic_tally_balanced:
  "let t = tallySemantic rs; (off, on, embed_ms) = latencies rs in
     stOnN t + stRegressed t = stOffN t + stGained t \<and> stOffN t \<le> stTotal t \<and> stOnN t \<le> stTotal t \<and>
     stTotal t = length (filter (\<lambda>r. sxErr r = None) rs) \<and>
     length off = stTotal t \<and> length on = stTotal t \<and> length embed_ms = stTotal t"
  using arm_balance[of rs] arm_count_le[of sxOffPass rs] arm_count_le[of sxOnPass rs]
  by (simp add: tallySemantic_eq latencies_def arm_count_def Let_def)

end
