(* ===== verification/Bench_Report.thy ===== *)
theory Bench_Report
  imports Bench_Semantic Go_Fmt "HOL-Library.List_Lexorder" "HOL-Library.Char_ord"
begin

text \<open>
  The text the bench writes: the console report and the comparison of \<open>cmd/bench-runner/main.go\<close>,
  the report of \<open>semantic_report.go\<close>, and the tables of \<open>quality_report.go\<close>. How an error prints, which
  runes print under \<open>%q\<close>, and today's date are parameters.
\<close>

section \<open>Console report\<close>

definition show_bool :: "bool \<Rightarrow> string" where
  "show_bool b = (if b then ''true'' else ''false'')"

text \<open>A count with its share: \<open>%d/%d (%.0f%%)\<close>.\<close>

definition cell :: "nat \<Rightarrow> nat \<Rightarrow> string" where
  "cell n d = format_int (int n) @ ''/'' @ format_int (int d) @ '' ('' @ format_fixed 0 (pct n d) @ ''%)''"

definition counts :: "(string \<rightharpoonup> nat \<times> nat) \<Rightarrow> string \<Rightarrow> nat \<times> nat" where
  "counts byKind k = (case byKind k of None \<Rightarrow> (0, 0) | Some pt \<Rightarrow> pt)"

text \<open>\<open>keys\<close> is the order in which the iteration over the map meets its keys.\<close>

definition printKindSummary :: "string list \<Rightarrow> (string \<rightharpoonup> nat \<times> nat) \<Rightarrow> string" where
  "printKindSummary keys byKind =
     width_left 12 ''kind'' @ '' pass/total'' @ nl @
     concat (map (\<lambda>k. width_left 12 k @ '' '' @ cell (fst (counts byKind k)) (snd (counts byKind k)) @ nl) (sort keys))"

definition maxFailLines :: nat where "maxFailLines = 30"

definition fail_detail :: "(nat \<Rightarrow> bool) \<Rightarrow> ('e \<Rightarrow> string) \<Rightarrow> 'e bench_result \<Rightarrow> string" where
  "fail_detail is_print show_err r =
     (case brErr r of
        Some e \<Rightarrow> ''ERR: '' @ show_err e
      | None \<Rightarrow>
          if brKind r = ''over_fire''
          then ''pin_fired='' @ show_bool (brPinFired r) @ '' top1='' @ quote is_print (brTop1 r)
          else ''top1='' @ quote is_print (brTop1 r))"

fun fail_lines :: "(nat \<Rightarrow> bool) \<Rightarrow> ('e \<Rightarrow> string) \<Rightarrow> nat \<Rightarrow> 'e bench_result list \<Rightarrow> string" where
  "fail_lines is_print show_err i [] = []"
| "fail_lines is_print show_err i (r # rs) =
     (if maxFailLines \<le> i then []
      else ''  ['' @ width_left 10 (brKind r) @ ''] '' @ width_left 28 (quote is_print (brQ r)) @ '' '' @
        fail_detail is_print show_err r @ nl @ fail_lines is_print show_err (i + 1) rs)"

definition printFailures :: "(nat \<Rightarrow> bool) \<Rightarrow> ('e \<Rightarrow> string) \<Rightarrow> 'e bench_result list \<Rightarrow> string" where
  "printFailures is_print show_err fails =
     (if length fails = 0 then []
      else ''--- failures ('' @ format_int (int (length fails)) @ ''; showing up to '' @
        format_int (int maxFailLines) @ '') ---'' @ nl @ fail_lines is_print show_err 0 fails)"

definition bench_report :: "(nat \<Rightarrow> bool) \<Rightarrow> ('e \<Rightarrow> string) \<Rightarrow> string list \<Rightarrow> string \<Rightarrow> nat \<Rightarrow> 'e bench_result list \<Rightarrow> string" where
  "bench_report is_print show_err keys label total_n results =
     (let a = aggregate results in
      nl @ ''=== bench ['' @ label @ '']  n='' @ format_int (int total_n) @ '' ==='' @ nl @
      printKindSummary keys (taByKind a) @
      width_left 12 ''overall'' @ '' '' @ cell (taPassN a) total_n @ nl @
      ''latency: p50='' @ format_int (percentile (taLat a) 50) @ ''ms p95='' @ format_int (percentile (taLat a) 95) @
      ''ms (n='' @ format_int (int (length (taLat a))) @ '', local DB)'' @ nl @
      printFailures is_print show_err (taFails a))"

section \<open>Comparison\<close>

definition reportKinds :: "string list" where
  "reportKinds = [''exact_name'', ''typo'', ''accent'', ''partial'', ''over_fire'']"

definition pass_row :: "'e mode_run \<Rightarrow> string" where
  "pass_row r =
     (let a = aggregate (mrResults r) in
      ''| '' @ moName (mrMode r) @ '' | '' @ cell (taPassN a) (length (mrResults r)) @ '' |'' @
      concat (map (\<lambda>k. '' '' @ cell (fst (counts (taByKind a) k)) (snd (counts (taByKind a) k)) @ '' |'') reportKinds))"

definition pass_head :: string where
  "pass_head = ''| mode | overall |'' @ concat (map (\<lambda>k. '' '' @ k @ '' |'') reportKinds)"

definition pass_rule :: string where
  "pass_rule = ''|---|---|'' @ concat (map (\<lambda>k. ''---|'') reportKinds)"

definition writePassTable :: "'e mode_run list \<Rightarrow> string" where
  "writePassTable runs =
     ''## pass@3'' @ nl @ nl @ pass_head @ nl @ pass_rule @ nl @ concat (map (\<lambda>r. pass_row r @ nl) runs) @ nl"

definition writeLatencyTable :: "'e mode_run list \<Rightarrow> string" where
  "writeLatencyTable runs =
     ''## latency (retrieve + rerank, local DB)'' @ nl @ nl @ ''| mode | p50 | p95 |'' @ nl @
       ''|---|---|---|'' @ nl @
     concat (map (\<lambda>r. let lat = taLat (aggregate (mrResults r)) in
       ''| '' @ moName (mrMode r) @ '' | '' @ format_int (percentile lat 50) @ ''ms | '' @
       format_int (percentile lat 95) @ ''ms |'' @ nl) runs) @ nl"

definition writeCommentary :: "'e mode_run list \<Rightarrow> string" where
  "writeCommentary runs =
     (let (best, bestN) = best_mode runs in
      ''## Commentary'' @ nl @ nl @ ''Best overall pass@3: **'' @ moName (mrMode best) @ ''** ('' @
      cell bestN (length (mrResults best)) @ '').'' @ nl @
      ''The findability set is dominated by exact/typo/accent/partial name recall, where the rating '' @
        ''and distance formulas barely move the top-3 '' @ em_dash @
        '' the trigram/text score and the exact-name pin decide those, not rating smoothing or distance '' @
        ''shape. The alternatives only re-order the *tail*.'' @ nl @ nl @
        ''**Default stays literal.** The spec contract (ADR-0004) fixes the 7-signal linear sum with '' @
        ''literal formulas as the baseline; `bayesian`/`decay` are opt-in `signal_formulas` switches, '' @
        ''not silent substitutions. Absent a decisive, intent-relevant win here, shipping literal '' @
        ''honors the contract and keeps ranking explainable.'' @ nl)"

definition comparison_text :: "string \<Rightarrow> int \<Rightarrow> int \<Rightarrow> 'e mode_run list \<Rightarrow> string" where
  "comparison_text today generate seed runs =
     ''# Ranking-formula comparison '' @ em_dash @ '' '' @ today @ nl @ nl @ ''Generated by `bench-runner -generate '' @ format_int generate @
     '' -seed '' @ format_int seed @
     '' -formula all` against the'' @ nl @
       ''local Postgres (22,568 rows). Each sampled business expands into exact/typo/'' @ nl @
       ''accent/partial query variants (plus 25 bare-category over_fire probes).'' @ nl @
       ''Each mode runs the same query set through its own `search.Service`; retrieval'' @ nl @
       ''(Search + ExactName) is formula-independent and returns identical candidate'' @ nl @
       ''sets, so the table isolates the ranking formula. Modes differ only in'' @ nl @
       ''`signal_formulas` (set in memory; `config/ranking.yaml` is untouched):'' @ nl @ nl @
       ''- **literal** '' @ em_dash @
       '' spec default (`rating=lemon_score/10`, `distance=max(1-d/30mi,0)`)'' @ nl @
       ''- **bayesian** '' @ em_dash @ '' `rating` smoothed over `google_rating` (0'' @ en_dash @
       ''5), prior C=20, m=4.3'' @ nl @ ''- **decay** '' @ em_dash @
       '' `distance=exp(-d/decay_km[archetype])`'' @ nl @ nl @
     writePassTable runs @ writeLatencyTable runs @ writeCommentary runs"

section \<open>Semantic report\<close>

definition mark :: "bool \<Rightarrow> string" where
  "mark pass = (if pass then check_mark else cross_mark)"

definition okNo :: "bool \<Rightarrow> string" where
  "okNo ok = (if ok then ''OK'' else ''FAIL'')"

definition writeSemanticHeader :: "semantic_file \<Rightarrow> string" where
  "writeSemanticHeader sf =
     ''# Semantic recall '' @ em_dash @ '' go/no-go bench (E5, ADR-0006)'' @ nl @ nl @
       ''Generated by `bench-runner -semantic` against the local Postgres, '' @
     format_int (int (length (sfTests sf))) @
     '' hand-labeled NL/vibe queries from `bench/semantic-cluster.json`. Both arms run the **same** '' @
       ''pipeline (intent ON, identical ranker); the only difference is `LEMON_FF_SEMANTIC` '' @ em_dash @
       '' the OFF arm is purely lexical, the ON arm embeds the query (all-MiniLM, runtime per `LEMON_EMBED_BACKEND`) '' @
       ''and adds the pgvector recall channel. So the delta isolates the **marginal lift of the vector '' @
       ''channel** over the production lexical+intent baseline.'' @ nl @ nl @
       ''Ground truth is category/subcategory level (a vibe query should surface the right *type* '' @
       ''of business): a query passes if any top-3 result'' @ [CHR 0x27] @
       ''s category/subcategory contains an expected token.'' @ nl @ nl"

definition writeSemanticPassTable :: "'e sem_result list \<Rightarrow> string" where
  "writeSemanticPassTable results =
     (let t = tallySemantic results in
      ''## pass@3'' @ nl @ nl @ ''| arm | pass@3 |'' @ nl @ ''|---|---|'' @ nl @
        ''| semantic OFF (lexical+intent) | '' @ cell (stOffN t) (stTotal t) @
      '' |'' @ nl @ ''| semantic ON (+ vector recall) | '' @ cell (stOnN t) (stTotal t) @ '' |'' @ nl @ nl @ ''**+'' @
      format_int (int (stGained t)) @ '' gained** (lexical miss '' @ arrow @ '' semantic hit), **'' @
      format_int (int (stRegressed t)) @ '' regressed**.'' @ nl @ nl)"

definition semantic_row :: "('e arm_error \<Rightarrow> string) \<Rightarrow> 'e sem_result \<Rightarrow> string" where
  "semantic_row show_err r =
     (case sxErr r of
        Some e \<Rightarrow> ''| '' @ sxQ r @ '' | '' @ em_dash @ '' | '' @ em_dash @ '' | ERROR: '' @ show_err e @ '' |''
      | None \<Rightarrow> ''| '' @ sxQ r @ '' | '' @ mark (sxOffPass r) @ '' | '' @ mark (sxOnPass r) @ '' | '' @ sxOnTop1 r @ '' |'')"

definition writeSemanticQueryTable :: "('e arm_error \<Rightarrow> string) \<Rightarrow> 'e sem_result list \<Rightarrow> string" where
  "writeSemanticQueryTable show_err results =
     ''## per-query'' @ nl @ nl @ ''| query | off | on | on top-1 |'' @ nl @ ''|---|:--:|:--:|---|'' @ nl @
     concat (map (\<lambda>r. semantic_row show_err r @ nl) results) @ nl"

definition writeSemanticLatency :: "'e sem_result list \<Rightarrow> string" where
  "writeSemanticLatency results =
     (let (off, on, emb_ms) = latencies results in
      ''## latency (retrieve + rerank, local DB)'' @ nl @ nl @ ''| arm | p50 | p95 |'' @ nl @
        ''|---|---|---|'' @ nl @ ''| semantic OFF | '' @
      format_int (percentile off 50) @ ''ms | '' @ format_int (percentile off 95) @ ''ms |'' @ nl @ ''| semantic ON | '' @
      format_int (percentile on 50) @ ''ms | '' @ format_int (percentile on 95) @ ''ms |'' @ nl @ ''| '' @ corner @ '' query-embed only | '' @
      format_int (percentile emb_ms 50) @ ''ms | '' @ format_int (percentile emb_ms 95) @ ''ms |'' @ nl @ nl @
      ''_Local engine time only; the deployed path adds ~30-40ms of network (browser'' @ arrow @
        ''Vercel'' @ arrow @ ''Fly'' @ arrow @ ''Supabase) toward the 100ms end-to-end p95 gate._'' @ nl @
        nl)"

definition writeSemanticRecommendation :: "'e sem_result list \<Rightarrow> string" where
  "writeSemanticRecommendation results =
     (let t = tallySemantic results;
          (_, on, _) = latencies results;
          onP95 = percentile on 95;
          liftPP = f_sub (pct (stOnN t) (stTotal t)) (pct (stOffN t) (stTotal t));
          liftOK = f_le materialLiftPP liftPP;
          latencyOK = onP95 \<le> engineP95Budget;
          verdict = (if \<not> liftOK \<or> \<not> latencyOK then ''NO-GO (keep `LEMON_FF_SEMANTIC` off)'' else ''GO'')
      in ''## recommendation'' @ nl @ nl @ ''- pass@3 lift: **'' @ format_plus 0 liftPP @ '' pp** (threshold '' @ ge_sign @ '' '' @
         format_fixed 0 materialLiftPP @ '' pp) '' @ arrow @ '' '' @ okNo liftOK @ nl @ ''- ON-arm engine p95: **'' @
         format_int onP95 @ ''ms** (budget '' @ le_sign @ '' '' @ format_int engineP95Budget @ ''ms) '' @ arrow @ '' '' @ okNo latencyOK @
         nl @ ''- regressions: **'' @ format_int (int (stRegressed t)) @ ''**'' @ nl @ nl @ ''**Verdict: '' @ verdict @ ''.**'' @ nl)"

definition semantic_text :: "('e arm_error \<Rightarrow> string) \<Rightarrow> semantic_file \<Rightarrow> 'e sem_result list \<Rightarrow> string" where
  "semantic_text show_err sf results =
     writeSemanticHeader sf @ writeSemanticPassTable results @ writeSemanticQueryTable show_err results @
     writeSemanticLatency results @ writeSemanticRecommendation results"

definition printSemanticSummary :: "string \<Rightarrow> 'e sem_result list \<Rightarrow> string" where
  "printSemanticSummary out results =
     (let t = tallySemantic results; (off, on, emb_ms) = latencies results in
      ''semantic bench: OFF '' @ format_int (int (stOffN t)) @ ''/'' @ format_int (int (stTotal t)) @ ''  ON '' @
      format_int (int (stOnN t)) @ ''/'' @ format_int (int (stTotal t)) @ ''  (+'' @ format_int (int (stGained t)) @
      '' gained, -'' @ format_int (int (stRegressed t)) @ '' regressed)'' @ nl @ ''latency: off p50='' @
      format_int (percentile off 50) @ ''ms p95='' @ format_int (percentile off 95) @ ''ms | on p50='' @
      format_int (percentile on 50) @ ''ms p95='' @ format_int (percentile on 95) @ ''ms | embed p50='' @
      format_int (percentile emb_ms 50) @ ''ms p95='' @ format_int (percentile emb_ms 95) @ ''ms'' @ nl @ ''wrote semantic report: '' @
      out @ nl)"

end
