(* ===== verification/Quality_Report.thy ===== *)
theory Quality_Report
  imports Bench_Report
begin

text \<open>
  The report of the quality evaluation (\<open>quality_report.go\<close> and the summary of \<open>quality.go\<close>): the
  literal-against-decay table with its read, one table per arm, and the glossary, as the bytes
  that are written.
\<close>

section \<open>Cells and rows\<close>

definition betterWorse :: "bool \<Rightarrow> string" where
  "betterWorse good = (if good then ''better'' else ''worse'')"

definition share :: "f64 \<Rightarrow> string" where
  "share x = format_fixed 0 (f_mul x (Fin 100)) @ ''%''"

definition catCell :: "quality_metrics \<Rightarrow> string" where
  "catCell m = (if \<not> qmCategoryHasExpect m then ''-'' else share (qmCategoryPrecision m))"

definition intentCell :: "quality_metrics \<Rightarrow> string" where
  "intentCell m =
     (if qmIntentLabel m = [] then ''-''
      else if f_eq (qmIntentAdherence m) intentNA then qmIntentLabel m @ '':n/a''
      else qmIntentLabel m @ '':'' @ share (qmIntentAdherence m))"

definition goldenCell :: "f64 \<Rightarrow> string" where
  "goldenCell g = (if f_eq g intentNA then ''-'' else share g)"

definition boolCell :: "bool \<Rightarrow> string" where
  "boolCell v = (if v then ''YES'' else ''no'')"

definition query_cells :: "(nat \<Rightarrow> bool) \<Rightarrow> 'e quality_row \<Rightarrow> string" where
  "query_cells is_print r =
     ''| '' @ quote is_print (qqQ (qrQuery r)) @ '' | '' @ qqKind (qrQuery r) @ '' | '' @ gpLabel (qrLoc r) @ '' | ''"

definition writeQueryRow :: "(nat \<Rightarrow> bool) \<Rightarrow> ('e \<Rightarrow> string) \<Rightarrow> 'e quality_row \<Rightarrow> string" where
  "writeQueryRow is_print show_err r =
     query_cells is_print r @
     (case qrErr r of
        Some e \<Rightarrow> ''ERR: '' @ show_err e @ '' | | | | | | | | | |''
      | None \<Rightarrow>
          if qmN (qrMetrics r) = 0 then ''(no results, lexical baseline) | | | | | | | | | |''
          else
            (let m = qrMetrics r in
             format_fixed 2 (qmMeanDistanceKM m) @ '' / '' @ format_fixed 2 (qmMedianDistanceKM m) @ '' | '' @
             format_fixed 3 (qmMeanRating m) @ '' | '' @ format_fixed 3 (qmMeanLogReviews m) @ '' | '' @
             share (qmPctOpen m) @ '' | '' @ catCell m @ '' | '' @ intentCell m @ '' | '' @ share (qmClaimedPct m) @
             '' | '' @ boolCell (qmNewAtRank1 m) @ '' | '' @ format_fixed 2 (qmDiversity m) @ '' | '' @
             goldenCell (qrGolden r) @ '' |''))"

definition query_head :: string where
  "query_head =
     ''| query | kind | loc | dist km (mean/med) | rating | logrev | open | cat_prec | intent | '' @
       ''claimed | new@1 | div | golden@5 |''"

definition query_rule :: string where
  "query_rule = ''|---|---|---|---|---|---|---|---|---|---|---|---|---|''"

definition writePerQuerySection :: "(nat \<Rightarrow> bool) \<Rightarrow> ('e \<Rightarrow> string) \<Rightarrow> 'e quality_run \<Rightarrow> string" where
  "writePerQuerySection is_print show_err run =
     ''## Per-query - '' @ quLabel run @ nl @ nl @ query_head @ nl @ query_rule @ nl @
     concat (map (\<lambda>r. writeQueryRow is_print show_err r @ nl) (quRows run)) @ nl"

section \<open>Headline\<close>

definition ab_row :: "string \<Rightarrow> f64 \<Rightarrow> f64 \<Rightarrow> nat \<Rightarrow> string" where
  "ab_row name a c p =
     ''| '' @ name @ '' | '' @ format_fixed p a @ '' | '' @ format_fixed p c @ '' | '' @ format_fixed p (f_sub c a) @
     '' |'' @ nl"

definition writeClaimedNote :: "quality_agg \<Rightarrow> quality_agg \<Rightarrow> string" where
  "writeClaimedNote lit dec =
     (if f_lt (qaClaimedPct lit) (f_const (414 / 1000)) \<and> f_lt (qaClaimedPct dec) (f_const (414 / 1000)) then []
      else ''_Side-observation._ claimed_pct sits at '' @ share (qaClaimedPct lit) @ '' (literal) / '' @
        share (qaClaimedPct dec) @
        '' (decay) against a ~20.7% base rate - above the ~2x line. Decay pulls it toward the base '' @
          ''rate by surfacing nearby (often unclaimed) places; under literal, claimed weight + popularity '' @
          ''skew co-select for established, claimed businesses. Worth a follow-up claimed-weight sweep '' @
          ''with this same harness.'' @ nl @ nl)"

definition recommendation :: "decision \<Rightarrow> string" where
  "recommendation d =
     (case d of
        FlipToDecay \<Rightarrow> ''**Recommendation: flip the default to `decay`.** It tightens locality with no measurable '' @
          ''cost to category precision or rating - exactly the spec'' @ [CHR 0x27] @
          ''s intent for low-stakes/utility queries (distance should dominate near home).'' @ nl @ nl
      | KeepLiteral \<Rightarrow> ''**Recommendation: keep `literal`.** Decay did not improve locality here, so there is no '' @
        ''case for departing from the spec default (ADR-0004).'' @ nl @ nl
      | KeepLiteralOptIn \<Rightarrow> ''**Recommendation: keep `literal` as the default; ship `decay` as the documented opt-in switch.** '' @
        ''Decay tightens locality but the trade against category/rating is not clean enough to override '' @
        ''the spec contract by default.'' @ nl @ nl)"

definition writeABRead :: "quality_agg \<Rightarrow> quality_agg \<Rightarrow> string" where
  "writeABRead lit dec =
     (let distDelta = f_sub (qaMeanDistanceKM dec) (qaMeanDistanceKM lit);
          catDelta = f_sub (qaCategoryPrecision dec) (qaCategoryPrecision lit);
          ratingDelta = f_sub (qaMeanRating dec) (qaMeanRating lit)
      in ''**Read.** Decay is worth flipping the spec default only if it improves locality (lower mean '' @
        ''distance) *without* hurting category_precision or rating. Movement:'' @ nl @ nl @ ''- distance: '' @
         format_plus 2 distDelta @ '' km ('' @ betterWorse (f_lt distDelta (Fin 0)) @ '')'' @ nl @ ''- category_precision: '' @
         format_plus 3 catDelta @ '' ('' @ betterWorse (f_le (Fin 0) catDelta) @ '')'' @ nl @ ''- rating: '' @
         format_plus 3 ratingDelta @ '' ('' @ betterWorse (f_le (Fin 0) ratingDelta) @ '')'' @ nl @ nl @
         recommendation (recommend lit dec) @ writeClaimedNote lit dec)"

definition writeABComparison :: "quality_file \<Rightarrow> 'e quality_run list \<Rightarrow> string" where
  "writeABComparison qf runs =
     (if length runs < 2 then []
      else
        (let lit = aggregateQuality (quRows (runs ! 0)); dec = aggregateQuality (quRows (runs ! 1));
             base = f_div (qfClaimedBaseRate qf) (Fin 100)
         in ''## Headline - literal vs decay'' @ nl @ nl @ ''| metric | literal | decay | '' @ delta @
           '' (decay'' @ minus_sign @ ''literal) |'' @ nl @ ''|---|---|---|---|'' @ nl @
            ab_row ''mean_distance_km'' (qaMeanDistanceKM lit) (qaMeanDistanceKM dec) 2 @
            ab_row ''median_distance_km'' (qaMedianDistanceKM lit) (qaMedianDistanceKM dec) 2 @
            ab_row ''mean_rating (0..1)'' (qaMeanRating lit) (qaMeanRating dec) 3 @
            ab_row ''mean_log_reviews (0..1)'' (qaMeanLogReviews lit) (qaMeanLogReviews dec) 3 @
            ab_row ''pct_open'' (qaPctOpen lit) (qaPctOpen dec) 2 @
            ab_row ''category_precision'' (qaCategoryPrecision lit) (qaCategoryPrecision dec) 3 @
            ab_row ''claimed_pct'' (qaClaimedPct lit) (qaClaimedPct dec) 3 @
            ab_row ''diversity'' (qaDiversity lit) (qaDiversity dec) 3 @
            ab_row ''golden_precision@5'' (qaGoldenAt5 lit) (qaGoldenAt5 dec) 3 @
            ''| new_at_rank1 (count) | '' @ format_int (int (qaNewAtRank1Count lit)) @ '' | '' @
            format_int (int (qaNewAtRank1Count dec)) @ '' | '' @
            format_plus_int (int (qaNewAtRank1Count dec) - int (qaNewAtRank1Count lit)) @ '' |'' @ nl @ ''| claimed base rate | '' @
            format_fixed 3 base @ '' | '' @ format_fixed 3 base @ '' | - |'' @ nl @ nl @ writeABRead lit dec))"

section \<open>The report\<close>

definition writeQualityIntro :: "quality_file \<Rightarrow> 'e quality_run list \<Rightarrow> string" where
  "writeQualityIntro qf runs =
     ''Curated **'' @ format_int (int (length (qfQueries qf))) @
     ''**-query ranking-quality set run through the real pipeline (intent overlay + single-round-trip '' @
       ''retrieval + pure re-rank) in-process against the local Postgres (22,568 Miami businesses). '' @
       ''Metrics are computed over the top-15 and are SPEC-DERIVED proxies for what each query should '' @
       ''prioritize - not opinion. Dataset claimed base rate: **'' @
     format_fixed 1 (qfClaimedBaseRate qf) @
     ''%**.'' @ nl @ nl @ ''The two arms differ ONLY in `signal_formulas.distance`:'' @ nl @ nl @
       ''- **literal** - spec default: `max(1 - d/30mi, 0)`'' @ nl @
       ''- **decay** - per-archetype `exp(-d/decay_km)` (3km utility '' @ ellipsis @
       '' 80km high-stakes)'' @ nl @ nl @
       ''Every other knob (rating mode, weights, photo/friend/open constants) is shared, read from '' @
       ''the `-config` file, so the table isolates the distance formula.'' @ nl @ nl @
     (let empties = emptyQueries runs in
      if 0 < length empties then
        ''> **Note.** '' @ format_int (int (length empties)) @
        '' free-form/vibe queries return zero results in this lexical baseline (no embedder wired): '' @
        join '', '' empties @
        ''. They are honest gaps the semantic layer (LEMON_FF_SEMANTIC, ADR-0006) is meant to close; '' @
          ''they are excluded from the aggregate means.'' @ nl @ nl
      else [])"

definition writeMetricGlossary :: string where
  "writeMetricGlossary =
     ''## Metric definitions'' @ nl @ nl @
       ''- **dist km (mean/med)** - raw retrieval distance of the top-15. Lower = tighter locality.'' @
       nl @ ''- **rating** - mean `lemon_score/10` over rated results (0..1).'' @ nl @
       ''- **logrev** - mean `log(1+reviews)/log(1+10000)` (spec popularity signal, 0..1).'' @ nl @
       ''- **open** - fraction explicitly open now (unknown hours count as not-open).'' @ nl @
       ''- **cat_prec** - fraction whose subcategory/category matches an expected token (category-aware '' @
       ''matching).'' @ nl @
       ''- **intent** - per-intent adherence: `cheap`=frac $/$$, `fancy`=frac $$$+, `open_now`=frac '' @
       ''open; vibe intents are n/a (judged on cat_prec).'' @ nl @
       ''- **claimed** - fraction claimed; compare to the ~20.7% base rate ('' @ approx_sign @
       ''base good, ~2x = dominating).'' @ nl @
       ''- **new@1** - is the #1 result a new business? Spec: must be `no`.'' @ nl @
       ''- **div** - distinct name-stems / 15 (chains clumping lowers it).'' @ nl @
       ''- **golden@5** - precision@5 vs hand-picked anchors (- when none).'' @ nl"

definition quality_text :: "(nat \<Rightarrow> bool) \<Rightarrow> ('e \<Rightarrow> string) \<Rightarrow> string \<Rightarrow> quality_file \<Rightarrow> 'e quality_run list \<Rightarrow> string" where
  "quality_text is_print show_err today qf runs =
     ''# Ranking-quality eval - '' @ today @ nl @ nl @ writeQualityIntro qf runs @ writeABComparison qf runs @
     concat (map (writePerQuerySection is_print show_err) runs) @ writeMetricGlossary"

definition printQualitySummary :: "string \<Rightarrow> quality_file \<Rightarrow> 'e quality_run list \<Rightarrow> string" where
  "printQualitySummary out qf runs =
     concat (map (\<lambda>r. let a = aggregateQuality (quRows r) in
       ''quality['' @ quLabel r @ '']: mean_dist='' @ format_fixed 2 (qaMeanDistanceKM a) @ ''km cat_prec='' @
       share (qaCategoryPrecision a) @ '' rating='' @ format_fixed 3 (qaMeanRating a) @ '' claimed='' @
       share (qaClaimedPct a) @ '' (base '' @ format_fixed 1 (qfClaimedBaseRate qf) @ ''%) new@1='' @
       format_int (int (qaNewAtRank1Count a)) @ '' golden@5='' @ share (qaGoldenAt5 a) @ nl) runs) @
     ''wrote quality report: '' @ out @ nl"

section \<open>Facts\<close>

lemma bars_share [simp]: "bars (share x) = 0"
  by (simp add: share_def)

lemma bars_cells [simp]:
  "bars (catCell m) = 0" "bars (goldenCell g) = 0" "bars (boolCell v) = 0"
  "bars (intentCell m) = bars (qmIntentLabel m)"
  by (simp_all add: catCell_def goldenCell_def boolCell_def intentCell_def)

text \<open>The fields of a row that are printed as they are.\<close>

definition free_text :: "(nat \<Rightarrow> bool) \<Rightarrow> ('e \<Rightarrow> string) \<Rightarrow> 'e quality_row \<Rightarrow> string" where
  "free_text is_print show_err r =
     quote is_print (qqQ (qrQuery r)) @ qqKind (qrQuery r) @ gpLabel (qrLoc r) @
     (case qrErr r of Some e \<Rightarrow> show_err e
      | None \<Rightarrow> if qmN (qrMetrics r) = 0 then [] else qmIntentLabel (qrMetrics r))"

lemma query_row_bars: "bars (writeQueryRow is_print show_err r) = 14 + bars (free_text is_print show_err r)"
  by (cases "qrErr r") (simp_all add: writeQueryRow_def query_cells_def free_text_def Let_def)

lemma query_head_bars: "bars query_head = 14" "bars query_rule = 14"
  by (simp_all add: query_head_def query_rule_def)

end
