(* ===== verification/Meili_Repo.thy ===== *)
theory Meili_Repo
  imports Edit_Distance Domain
begin

text \<open>
  The bench's Meilisearch adapter (\<open>cmd/bench-runner/meili.go\<close>): the REST client, task polling,
  indexing in batches, and \<open>Search\<close> and \<open>ExactName\<close> behind the \<open>BusinessRepo\<close> port. HTTP and
  JSON are parameters over a transport state; the clock is a sequence of readings, as in
  theory \<open>Search_Service\<close>. Trigonometric functions are the exact value rounded once.
\<close>

section \<open>Distance\<close>

fun f_sin :: "f64 \<Rightarrow> f64" where
  "f_sin (Fin x) = fround (sin x)"
| "f_sin _ = NaN"

fun f_cos :: "f64 \<Rightarrow> f64" where
  "f_cos (Fin x) = fround (cos x)"
| "f_cos _ = NaN"

fun f_sqrt :: "f64 \<Rightarrow> f64" where
  "f_sqrt (Fin x) = (if x < 0 then NaN else fround (sqrt x))"
| "f_sqrt PInf = PInf"
| "f_sqrt _ = NaN"

text \<open>\<open>math.Atan2\<close> of finite arguments; the sign of a zero is not represented.\<close>

fun f_atan2 :: "f64 \<Rightarrow> f64 \<Rightarrow> f64" where
  "f_atan2 (Fin y) (Fin x) = fround
     (if x > 0 then arctan (y / x)
      else if x < 0 then (if 0 \<le> y then arctan (y / x) + pi else arctan (y / x) - pi)
      else if y > 0 then pi / 2 else if y < 0 then - (pi / 2) else 0)"
| "f_atan2 _ _ = NaN"

definition earthRadiusKM :: f64 where "earthRadiusKM = f_const 6371"
definition degToRad :: f64 where "degToRad = f_const (pi / 180)"

definition haversine :: "f64 \<Rightarrow> f64 \<Rightarrow> f64 \<Rightarrow> f64 \<Rightarrow> f64" where
  "haversine lat1 lng1 lat2 lng2 =
     (let p1 = f_mul lat1 degToRad; p2 = f_mul lat2 degToRad;
          dLat = f_mul (f_sub lat2 lat1) degToRad;
          dLng = f_mul (f_sub lng2 lng1) degToRad;
          sLat = f_sin (f_div dLat (Fin 2)); sLng = f_sin (f_div dLng (Fin 2));
          h = f_add (f_mul sLat sLat) (f_mul (f_mul (f_mul (f_cos p1) (f_cos p2)) sLng) sLng)
      in f_mul (f_mul earthRadiusKM (Fin 2)) (f_atan2 (f_sqrt h) (f_sqrt (f_sub (Fin 1) h))))"

section \<open>Documents\<close>

record meili_doc =
  mdID :: string
  mdName :: string
  mdCategory :: string
  mdSubcategory :: string
  mdArchetype :: string
  mdNeighborhood :: string
  mdLat :: f64
  mdLng :: f64
  mdLemonScore :: "f64 option"
  mdGoogleRating :: "f64 option"
  mdGoogleReviewCount :: int
  mdPriceRange :: string
  mdPhotoCount :: int
  mdPhotoURL :: string
  mdIsClaimed :: bool
  mdFriendCount :: int
  mdIsNew :: bool

definition distSentinel :: f64 where "distSentinel = Fin 1000000000"

definition non_empty :: "string \<Rightarrow> string option" where
  "non_empty s = (if s \<noteq> [] then Some s else None)"

definition toCandidate :: "(string \<Rightarrow> uuid option) \<Rightarrow> meili_doc \<Rightarrow> f64 \<Rightarrow> f64 \<Rightarrow> bool \<Rightarrow> candidate" where
  "toCandidate parse_id d userLat userLng located =
     \<lparr>cID = (case parse_id (mdID d) of Some i \<Rightarrow> i | None \<Rightarrow> 0), cName = mdName d, cCategory = mdCategory d,
      cSubcategory = non_empty (mdSubcategory d), cArchetype = mdArchetype d,
      cNeighborhood = non_empty (mdNeighborhood d),
      cDistanceKM = (if located then haversine userLat userLng (mdLat d) (mdLng d) else distSentinel),
      cLemonScore = mdLemonScore d, cGoogleRating = mdGoogleRating d, cGoogleReviewCount = mdGoogleReviewCount d,
      cPriceRange = non_empty (mdPriceRange d), cPhotoCount = mdPhotoCount d, cPhotoURL = non_empty (mdPhotoURL d),
      cIsClaimed = mdIsClaimed d, cFriendCount = mdFriendCount d, cIsNew = mdIsNew d, cIsOpenNow = None,
      cOpensLater = False, cHours = None\<rparr>"

section \<open>The client\<close>

datatype http_method = GetMethod | PostMethod | PatchMethod

datatype meili_body = NoBody | SearchRequest string int | Documents "meili_doc list" | Settings

datatype 'e meili_error =
    EncodeBody 'e
  | NewRequest http_method string 'e
  | DoFailed http_method string 'e
  | DoStatus http_method string int
  | DecodeBody http_method string 'e
  | TaskFailed int string
  | TaskTimedOut int
  | AddDocuments "'e meili_error"
  | ConfigureSettings "'e meili_error"
  | ReadBusinesses 'e
  | ScanBusiness 'e
  | BusinessRows 'e

record ('s, 'b, 'e) meili_client =
  mcBase :: string
  mcMarshal :: "meili_body \<Rightarrow> 'e + string"
  mcRequest :: "http_method \<Rightarrow> string \<Rightarrow> string \<Rightarrow> 'e option"
  mcDo :: "'s \<Rightarrow> http_method \<Rightarrow> string \<Rightarrow> string \<Rightarrow> ('e + int \<times> 'b) \<times> 's"
  mcHits :: "'b \<Rightarrow> 'e + meili_doc list"
  mcTask :: "'b \<Rightarrow> 'e + int"
  mcStatus :: "'b \<Rightarrow> 'e + string"
  mcClock :: "nat \<Rightarrow> int"
  mcItoa :: "int \<Rightarrow> string"
  mcParseID :: "string \<Rightarrow> uuid option"

definition do_request :: "('s, 'b, 'e) meili_client \<Rightarrow> http_method \<Rightarrow> string \<Rightarrow> meili_body \<Rightarrow> ('b \<Rightarrow> 'e + 'v) \<Rightarrow> 's \<Rightarrow>
    ('e meili_error + 'v) \<times> 's" where
  "do_request c method path body out s =
     (case (if body \<noteq> NoBody then mcMarshal c body else Inr []) of
        Inl e \<Rightarrow> (Inl (EncodeBody e), s)
      | Inr payload \<Rightarrow>
          (case mcRequest c method (mcBase c @ path) payload of
             Some e \<Rightarrow> (Inl (NewRequest method path e), s)
           | None \<Rightarrow>
               (case mcDo c s method (mcBase c @ path) payload of
                  (Inl e, s) \<Rightarrow> (Inl (DoFailed method path e), s)
                | (Inr (status, resp), s) \<Rightarrow>
                    if 300 \<le> status then (Inl (DoStatus method path status), s)
                    else (map_err (DecodeBody method path) (out resp), s))))"

definition taskTimeout :: int where "taskTimeout = 90 * 1000000000"
definition taskPoll :: int where "taskPoll = 500 * 1000000"

text \<open>The poll loop; \<open>k\<close> is the next reading of the clock. Without fuel it is still polling.\<close>

fun poll_loop :: "nat \<Rightarrow> ('s, 'b, 'e) meili_client \<Rightarrow> int \<Rightarrow> int \<Rightarrow> nat \<Rightarrow> 's \<Rightarrow>
    ('e meili_error option \<times> nat \<times> 's) option" where
  "poll_loop 0 c uid deadline k s = None"
| "poll_loop (Suc fuel) c uid deadline k s =
     (case do_request c GetMethod (''/tasks/'' @ mcItoa c uid) NoBody (mcStatus c) s of
        (Inl e, s) \<Rightarrow> Some (Some e, k, s)
      | (Inr status, s) \<Rightarrow>
          if status = ''succeeded'' then Some (None, k, s)
          else if status = ''failed'' \<or> status = ''canceled'' then Some (Some (TaskFailed uid status), k, s)
          else if mcClock c k > deadline then Some (Some (TaskTimedOut uid), k + 1, s)
          else poll_loop fuel c uid deadline (k + 1) s)"

definition waitTask :: "nat \<Rightarrow> ('s, 'b, 'e) meili_client \<Rightarrow> int \<Rightarrow> nat \<Rightarrow> 's \<Rightarrow>
    ('e meili_error option \<times> nat \<times> 's) option" where
  "waitTask fuel c uid k s = poll_loop fuel c uid (mcClock c k + taskTimeout) (k + 1) s"

section \<open>The port\<close>

definition meili_search :: "('s, 'b, 'e) meili_client \<Rightarrow> 's \<Rightarrow> string \<Rightarrow> int \<Rightarrow>
    ('e meili_error + meili_doc list) \<times> 's" where
  "meili_search c s q limit =
     do_request c PostMethod ''/indexes/businesses/search'' (SearchRequest q limit) (mcHits c) s"

definition Search_meili :: "('s, 'b, 'e) meili_client \<Rightarrow> 's \<Rightarrow> string \<Rightarrow> search_opts \<Rightarrow>
    ('e meili_error + candidate list) \<times> 's" where
  "Search_meili c s q opts =
     (let (hits, s) = meili_search c s q (soLimit opts)
      in (res_bind hits (\<lambda>ds. Inr (map (\<lambda>d. toCandidate (mcParseID c) d (soLat opts) (soLng opts) True) ds)), s))"

definition meiliCoverage :: f64 where "meiliCoverage = f_const (8/10)"
definition exactNameProbe :: int where "exactNameProbe = 50"

fun best_loop :: "unicode \<Rightarrow> string \<Rightarrow> nat \<Rightarrow> meili_doc list \<Rightarrow> nat option \<Rightarrow> f64 \<Rightarrow> nat option" where
  "best_loop U q i [] bestI best = bestI"
| "best_loop U q i (d # ds) bestI best =
     (let s = coverageMatch U q (mdName d) in
      if f_le meiliCoverage s \<and> f_lt best s then best_loop U q (i + 1) ds (Some i) s
      else best_loop U q (i + 1) ds bestI best)"

definition ExactName_meili :: "unicode \<Rightarrow> ('s, 'b, 'e) meili_client \<Rightarrow> 's \<Rightarrow> string \<Rightarrow>
    ('e meili_error + candidate option) \<times> 's" where
  "ExactName_meili U c s q =
     (let (hits, s) = meili_search c s q exactNameProbe
      in (res_bind hits (\<lambda>ds. Inr (case best_loop U q 0 ds None (Fin 0) of
            None \<Rightarrow> None
          | Some i \<Rightarrow> Some (toCandidate (mcParseID c) (ds ! i) (Fin 0) (Fin 0) False))), s))"

section \<open>Indexing\<close>

definition indexBatch :: nat where "indexBatch = 5000"

text \<open>The slices \<open>docs[start:end]\<close> of the loop, in order.\<close>

function index_batches :: "meili_doc list \<Rightarrow> nat \<Rightarrow> meili_doc list list" where
  "index_batches docs start =
     (if start < length docs then
        (let stop = start + indexBatch; stop = (if stop > length docs then length docs else stop)
         in take (stop - start) (drop start docs) # index_batches docs (start + indexBatch))
      else [])"
  by pat_completeness auto
termination
  by (relation "measure (\<lambda>(docs, start). length docs - start)") (auto simp: indexBatch_def)

declare index_batches.simps [simp del]

text \<open>Each batch is posted and its task awaited; then the settings.\<close>

fun post_batches :: "nat \<Rightarrow> ('s, 'b, 'e) meili_client \<Rightarrow> meili_doc list list \<Rightarrow> nat \<Rightarrow> 's \<Rightarrow>
    ('e meili_error option \<times> nat \<times> 's) option" where
  "post_batches fuel c [] k s = Some (None, k, s)"
| "post_batches fuel c (b # bs) k s =
     (case do_request c PostMethod ''/indexes/businesses/documents'' (Documents b) (mcTask c) s of
        (Inl e, s) \<Rightarrow> Some (Some (AddDocuments e), k, s)
      | (Inr uid, s) \<Rightarrow>
          (case waitTask fuel c uid k s of
             None \<Rightarrow> None
           | Some (Some e, k, s) \<Rightarrow> Some (Some e, k, s)
           | Some (None, k, s) \<Rightarrow> post_batches fuel c bs k s))"

text \<open>\<open>readDocs\<close>: the rows of the query, a scan per row, and the error the iterator ends with.\<close>

fun scan_docs :: "('row \<Rightarrow> 'e + meili_doc) \<Rightarrow> 'row list \<Rightarrow> meili_doc list \<Rightarrow> 'e meili_error + meili_doc list" where
  "scan_docs scan [] docs = Inr docs"
| "scan_docs scan (r # rs) docs =
     (case scan r of Inl e \<Rightarrow> Inl (ScanBusiness e) | Inr d \<Rightarrow> scan_docs scan rs (docs @ [d]))"

definition readDocs :: "('e + 'row list \<times> 'e option) \<Rightarrow> ('row \<Rightarrow> 'e + meili_doc) \<Rightarrow> 'e meili_error + meili_doc list" where
  "readDocs query scan =
     (case query of
        Inl e \<Rightarrow> Inl (ReadBusinesses e)
      | Inr (rows, err) \<Rightarrow> res_bind (scan_docs scan rows [])
          (\<lambda>docs. case err of Some e \<Rightarrow> Inl (BusinessRows e) | None \<Rightarrow> Inr docs))"

definition indexBusinesses :: "nat \<Rightarrow> ('s, 'b, 'e) meili_client \<Rightarrow> ('e + 'row list \<times> 'e option) \<Rightarrow>
    ('row \<Rightarrow> 'e + meili_doc) \<Rightarrow> nat \<Rightarrow> 's \<Rightarrow> (('e meili_error + nat) \<times> nat \<times> 's) option" where
  "indexBusinesses fuel c query scan k s =
     (case readDocs query scan of
        Inl e \<Rightarrow> Some (Inl e, k, s)
      | Inr docs \<Rightarrow>
          (case post_batches fuel c (index_batches docs 0) k s of
             None \<Rightarrow> None
           | Some (Some e, k, s) \<Rightarrow> Some (Inl e, k, s)
           | Some (None, k, s) \<Rightarrow>
               (case do_request c PatchMethod ''/indexes/businesses/settings'' Settings (mcTask c) s of
                  (Inl e, s) \<Rightarrow> Some (Inl (ConfigureSettings e), k, s)
                | (Inr uid, s) \<Rightarrow>
                    (case waitTask fuel c uid k s of
                       None \<Rightarrow> None
                     | Some (Some e, k, s) \<Rightarrow> Some (Inl e, k, s)
                     | Some (None, k, s) \<Rightarrow> Some (Inr (length docs), k, s)))))"


section \<open>Facts\<close>

definition meili_limit :: "('s, 'b, 'e) meili_client \<Rightarrow> bool" where
  "meili_limit c \<longleftrightarrow> (\<forall>s q n ds s'. meili_search c s q n = (Inr ds, s') \<longrightarrow> 0 \<le> n \<longrightarrow> int (length ds) \<le> n)"

definition mport_search :: "('s, 'b, 'e) meili_client \<times> 's \<Rightarrow> string \<Rightarrow> search_opts \<Rightarrow>
    ('e meili_error + candidate list) \<times> ('s, 'b, 'e) meili_client \<times> 's" where
  "mport_search st q opts = (let (r, s) = Search_meili (fst st) (snd st) q opts in (r, fst st, s))"

definition mport_exact :: "unicode \<Rightarrow> ('s, 'b, 'e) meili_client \<times> 's \<Rightarrow> string \<Rightarrow>
    ('e meili_error + candidate option) \<times> ('s, 'b, 'e) meili_client \<times> 's" where
  "mport_exact U st q = (let (r, s) = ExactName_meili U (fst st) (snd st) q in (r, fst st, s))"

interpretation meili_port: business_repo mport_search "mport_exact U" "\<lambda>st. meili_limit (fst st)" for U
proof
  fix st :: "('s, 'b, 'e) meili_client \<times> 's" and q opts r st'
  assume "meili_limit (fst st)" "mport_search st q opts = (r, st')"
  then show "meili_limit (fst st')" by (auto simp: mport_search_def split: prod.splits)
next
  fix st :: "('s, 'b, 'e) meili_client \<times> 's" and q x st'
  assume "meili_limit (fst st)" "mport_exact U st q = (x, st')"
  then show "meili_limit (fst st')" by (auto simp: mport_exact_def split: prod.splits)
next
  fix st :: "('s, 'b, 'e) meili_client \<times> 's" and q opts cs st'
  assume l: "meili_limit (fst st)" and "mport_search st q opts = (Inr cs, st')" and n: "0 \<le> soLimit opts"
  then obtain ds s' where d: "meili_search (fst st) (snd st) q (soLimit opts) = (Inr ds, s')" "length cs = length ds"
    by (auto simp: mport_search_def Search_meili_def res_bind_eq_Inr split: prod.splits)
  with l n show "int (length cs) \<le> soLimit opts" unfolding meili_limit_def by metis
qed

text \<open>The best hit so far, after the hits \<open>done\<close>.\<close>

definition best_inv :: "unicode \<Rightarrow> string \<Rightarrow> meili_doc list \<Rightarrow> nat option \<Rightarrow> f64 \<Rightarrow> bool" where
  "best_inv U q seen bestI best \<longleftrightarrow>
     (case bestI of
        None \<Rightarrow> best = Fin 0 \<and> list_all (\<lambda>d. \<not> f_le meiliCoverage (coverageMatch U q (mdName d))) seen
      | Some i \<Rightarrow> i < length seen \<and> best = coverageMatch U q (mdName (seen ! i)) \<and> f_le meiliCoverage best \<and>
          list_all (\<lambda>d. f_le meiliCoverage (coverageMatch U q (mdName d)) \<longrightarrow>
             f_le (coverageMatch U q (mdName d)) best) seen \<and>
          list_all (\<lambda>d. f_lt (coverageMatch U q (mdName d)) best \<or>
             \<not> f_le meiliCoverage (coverageMatch U q (mdName d))) (take i seen))"

lemma meiliCoverage_pos: "f_lt (Fin 0) meiliCoverage"
proof -
  have "f_le (fround (1/2)) (fround (8/10))" by (rule fround_mono) simp
  then have "f_le (Fin (1/2)) meiliCoverage" using fround_dyadic[of 1 1] by (simp add: meiliCoverage_def f_const_def)
  moreover have "f_lt (Fin 0) (Fin (1/2))" by simp
  ultimately show ?thesis unfolding f_le_def f_eq_iff by (metis f_lt_trans)
qed

lemma best_step:
  fixes d
  assumes "best_inv U q seen bestI best"
  defines "s \<equiv> coverageMatch U q (mdName d)"
  shows "best_inv U q (seen @ [d]) (if f_le meiliCoverage s \<and> f_lt best s then Some (length seen) else bestI)
    (if f_le meiliCoverage s \<and> f_lt best s then s else best)"
proof (cases "f_le meiliCoverage s \<and> f_lt best s")
  case True
  then have n: "s \<noteq> NaN" by (cases s) auto
  have below: "f_lt (coverageMatch U q (mdName x)) s"
    if "x \<in> set seen" "f_le meiliCoverage (coverageMatch U q (mdName x))" for x
  proof (cases bestI)
    case None
    with assms(1) that show ?thesis by (auto simp: best_inv_def list_all_iff)
  next
    case (Some i)
    with assms(1) that have "f_le (coverageMatch U q (mdName x)) best" by (auto simp: best_inv_def list_all_iff)
    with True show ?thesis by (auto simp: f_le_def f_eq_iff intro: f_lt_trans)
  qed
  then have le: "f_le (coverageMatch U q (mdName x)) s"
    if "x \<in> set seen" "f_le meiliCoverage (coverageMatch U q (mdName x))" for x
    using that by (simp add: f_le_def)
  show ?thesis
    using True n below le by (auto simp: best_inv_def s_def[symmetric] list_all_iff f_le_refl nth_append)
next
  case False
  have "f_le s best" if "bestI = Some i" "f_le meiliCoverage s" for i
  proof -
    have "best \<noteq> NaN" "s \<noteq> NaN" using that assms(1) by (auto simp: best_inv_def)
    with False that show ?thesis by (auto simp: not_f_lt_iff)
  qed
  moreover have "\<not> f_le meiliCoverage s" if "bestI = None"
  proof
    assume "f_le meiliCoverage s"
    moreover from this have "f_lt (Fin 0) s"
      using meiliCoverage_pos by (auto simp: f_le_def f_eq_iff intro: f_lt_trans)
    ultimately show False using False that assms(1) by (simp add: best_inv_def)
  qed
  ultimately show ?thesis
    using False assms(1) unfolding s_def
    by (auto simp: best_inv_def list_all_iff nth_append split: option.splits)
qed

lemma best_loop_inv:
  "best_inv U q seen bestI best \<Longrightarrow> i = length seen \<Longrightarrow>
    \<exists>best'. best_inv U q (seen @ ds) (best_loop U q i ds bestI best) best'"
proof (induction ds arbitrary: seen bestI best i)
  case (Cons d ds)
  from best_step[OF Cons.prems(1), of d] Cons.IH[of "seen @ [d]"] Cons.prems(2) show ?case
    by (auto simp: Let_def split: if_splits)
qed auto

lemma index_batches_concat: "concat (index_batches docs start) = drop start docs"
proof (induction docs start rule: index_batches.induct)
  case (1 docs start)
  show ?case
  proof (cases "start < length docs")
    case True
    have "take indexBatch (drop start docs) @ drop (start + indexBatch) docs = drop start docs"
      by (metis append_take_drop_id drop_drop add.commute)
    with 1 True show ?thesis by (subst index_batches.simps) (auto simp: Let_def)
  qed (simp add: index_batches.simps)
qed

lemma index_batches_size: "list_all (\<lambda>b. b \<noteq> [] \<and> length b \<le> indexBatch) (index_batches docs start)"
proof (induction docs start rule: index_batches.induct)
  case (1 docs start)
  then show ?case by (subst index_batches.simps) (auto simp: Let_def indexBatch_def)
qed

lemma poll_returns: "j < fuel \<Longrightarrow> deadline < mcClock c (k + j) \<Longrightarrow> poll_loop fuel c uid deadline k s \<noteq> None"
proof (induction fuel arbitrary: k s j)
  case (Suc fuel)
  show ?case
  proof (cases "deadline < mcClock c k")
    case False
    with Suc.prems obtain i where "j = Suc i" by (cases j) auto
    with Suc.prems Suc.IH[of i "k + 1"] False show ?thesis by (auto split: prod.split sum.split)
  qed (auto split: prod.split sum.split)
qed simp

text \<open>What the sleeps of the loop guarantee of the clock from its reading \<open>k\<close> on.\<close>

definition sleeps :: "(nat \<Rightarrow> int) \<Rightarrow> nat \<Rightarrow> bool" where
  "sleeps now k \<longleftrightarrow> now k \<le> now (k + 1) \<and> (\<forall>j > k. now j + taskPoll \<le> now (j + 1))"

lemma sleeps_after: "sleeps now k \<Longrightarrow> now k + int j * taskPoll \<le> now (k + 1 + j)"
proof (induction j)
  case (Suc j)
  then have "now (k + 1 + j) + taskPoll \<le> now (k + 1 + j + 1)" by (simp add: sleeps_def)
  with Suc show ?case by (simp add: algebra_simps)
qed (simp add: sleeps_def)

section \<open>Properties\<close>

text \<open>Waiting for an indexing task ends: as every poll is followed by a sleep of half a second, the
  deadline of ninety seconds is noticed within 182 polls, whatever the server answers.\<close>

theorem waitTask_returns:
  assumes "sleeps (mcClock c) k"
  shows "\<exists>r k' s'. waitTask 182 c uid k s = Some (r, k', s')"
proof -
  have "mcClock c k + taskTimeout < mcClock c (k + 1 + 181)"
    using sleeps_after[OF assms, of 181] by (simp add: taskTimeout_def taskPoll_def)
  then have "waitTask 182 c uid k s \<noteq> None"
    unfolding waitTask_def by (intro poll_returns[of 181]) simp_all
  then show ?thesis by auto
qed

definition sample_client :: "(unit, string, unit) meili_client" where
  "sample_client = \<lparr>mcBase = ''http://meili'', mcMarshal = (\<lambda>b. Inr []), mcRequest = (\<lambda>m u p. None),
     mcDo = (\<lambda>s m u p. (Inr (200, ''enqueued''), s)), mcHits = (\<lambda>b. Inr []), mcTask = (\<lambda>b. Inr 7),
     mcStatus = (\<lambda>b. Inr b), mcClock = (\<lambda>n. int n * taskPoll), mcItoa = (\<lambda>n. ''7''),
     mcParseID = (\<lambda>s. None)\<rparr>"

theorem waitTask_returns_witness:
  "\<exists>r k' s'. waitTask 182 sample_client 7 0 () = Some (r, k', s')"
  by (rule waitTask_returns) (simp add: sleeps_def sample_client_def taskPoll_def algebra_simps)

text \<open>The adapter's exact-name lookup: the transport's error as it is; over the hits of the probe,
  nothing exactly when no hit's name is covered to four fifths, else a best covered hit, and of
  equally good ones the first.\<close>

theorem meili_exact_best:
  fixes U
  defines "cov \<equiv> (\<lambda>q d. coverageMatch U q (mdName d))"
  shows "case meili_search c s q exactNameProbe of
      (Inl e, s') \<Rightarrow> ExactName_meili U c s q = (Inl e, s')
    | (Inr ds, s') \<Rightarrow>
       (let covered = filter (\<lambda>d. f_le meiliCoverage (cov q d))
        in case ExactName_meili U c s q of
          (Inl e, s'') \<Rightarrow> False
        | (Inr None, s'') \<Rightarrow> s'' = s' \<and> covered ds = []
        | (Inr (Some x), s'') \<Rightarrow> s'' = s' \<and> (\<exists>i < length ds.
            x = toCandidate (mcParseID c) (ds ! i) (Fin 0) (Fin 0) False \<and> ds ! i \<in> set (covered ds) \<and>
            list_all (\<lambda>d. f_le (cov q d) (cov q (ds ! i))) (covered ds) \<and>
            list_all (\<lambda>d. f_lt (cov q d) (cov q (ds ! i))) (covered (take i ds))))"
proof (cases "meili_search c s q exactNameProbe")
  case (Pair hits s')
  show ?thesis
  proof (cases hits)
    case (Inl e)
    with Pair show ?thesis by (simp add: ExactName_meili_def)
  next
    case (Inr ds)
    have "best_inv U q [] None (Fin 0)" by (simp add: best_inv_def)
    from best_loop_inv[OF this, of 0 ds] obtain best where
      inv: "best_inv U q ds (best_loop U q 0 ds None (Fin 0)) best" by auto
    show ?thesis
    proof (cases "best_loop U q 0 ds None (Fin 0)")
      case None
      with inv Pair Inr show ?thesis
        by (simp add: ExactName_meili_def best_inv_def cov_def filter_empty_conv list_all_iff)
    next
      case (Some i)
      with inv have "i < length ds" "f_le meiliCoverage (cov q (ds ! i))"
        "list_all (\<lambda>d. f_le (cov q d) (cov q (ds ! i))) (filter (\<lambda>d. f_le meiliCoverage (cov q d)) ds)"
        "list_all (\<lambda>d. f_lt (cov q d) (cov q (ds ! i))) (filter (\<lambda>d. f_le meiliCoverage (cov q d)) (take i ds))"
        by (auto simp: best_inv_def cov_def list_all_iff)
      with Some Pair Inr show ?thesis by (auto simp: ExactName_meili_def Let_def)
    qed
  qed
qed

end
