(* ===== verification/Load_Bench.thy ===== *)
theory Load_Bench
  imports Float_Order Go_Fmt Api_Boot
begin

text \<open>
  The pieces of the open-loop load generator \<open>cmd/loadbench\<close>: rates and corpus, the weighted choice
  of a request, one request and its sample, and the summary. The dispatcher and the sweep are in
  theory \<open>Load_Dispatch\<close>. JSON and sockets are parameters; sums of weights wrap at 64 bits; a run-time panic is the value \<open>None\<close>.
\<close>

section \<open>Corpus and rates\<close>

record point =
  ptLat :: f64
  ptLng :: f64
  ptLabel :: string

record weighted_query =
  wqQ :: string
  wqWeight :: int
  wqKind :: string

record corpus =
  coPoints :: "point list"
  coNows :: "string list"
  coQueries :: "weighted_query list"

record load_request =
  lqQ :: string
  lqLat :: f64
  lqLng :: f64
  lqNow :: string

datatype 'e corpus_error = ReadingCorpus 'e | ParsingCorpus 'e | CorpusTooSmall

definition loadCorpus :: "(string \<Rightarrow> 'e + string) \<Rightarrow> (string \<Rightarrow> 'e + corpus) \<Rightarrow> string \<Rightarrow> 'e corpus_error + corpus" where
  "loadCorpus read_file unmarshal path =
     res_bind (map_err ReadingCorpus (read_file path)) (\<lambda>raw.
     res_bind (map_err ParsingCorpus (unmarshal raw)) (\<lambda>c.
       if length (coQueries c) = 0 \<or> length (coPoints c) = 0 then Inl CorpusTooSmall else Inr c))"

text \<open>\<open>strings.Split(s, ",")\<close>.\<close>

fun split_commas :: "string \<Rightarrow> string \<Rightarrow> string list" where
  "split_commas acc [] = [acc]"
| "split_commas acc (c # cs) = (if c = CHR '','' then acc # split_commas [] cs else split_commas (acc @ [c]) cs)"

fun rates_loop :: "string list \<Rightarrow> int list \<Rightarrow> string + int list" where
  "rates_loop [] out = Inr out"
| "rates_loop (p # parts) out =
     (case Atoi (trim_space p) of
        None \<Rightarrow> Inl p
      | Some n \<Rightarrow> if n \<le> 0 then Inl p else rates_loop parts (out @ [n]))"

definition parseRates :: "string \<Rightarrow> string + int list" where
  "parseRates s = rates_loop (split_commas [] s) []"

definition weightTotal :: "corpus \<Rightarrow> int" where
  "weightTotal c = foldl (\<lambda>t q. wrap64 (t + wqWeight q)) 0 (coQueries c)"

text \<open>The loop of \<open>pick\<close>; \<open>q\<close> is the default, the last query.\<close>

fun pick_loop :: "weighted_query list \<Rightarrow> int \<Rightarrow> string \<Rightarrow> string" where
  "pick_loop [] r q = q"
| "pick_loop (wq # wqs) r q = (let r = wrap64 (r - wqWeight wq) in if r < 0 then wqQ wq else pick_loop wqs r q)"

text \<open>\<open>Intn(n)\<close> panics for \<open>n \<le> 0\<close>; the draws are those of the random source.\<close>

definition draw_below :: "('s \<Rightarrow> int \<Rightarrow> int \<times> 's) \<Rightarrow> int \<Rightarrow> 's \<Rightarrow> (int \<times> 's) option" where
  "draw_below intn n s = (if n \<le> 0 then None else Some (intn s n))"

definition pick :: "('s \<Rightarrow> int \<Rightarrow> int \<times> 's) \<Rightarrow> corpus \<Rightarrow> int \<Rightarrow> 's \<Rightarrow> (load_request \<times> 's) option" where
  "pick intn c total_weight s =
     Option.bind (draw_below intn total_weight s) (\<lambda>(r, s).
     if coQueries c = [] then None
     else
       (let q = pick_loop (coQueries c) r (wqQ (last (coQueries c))) in
        Option.bind (draw_below intn (int (length (coPoints c))) s) (\<lambda>(i, s).
        Option.bind (draw_below intn (int (length (coNows c))) s) (\<lambda>(j, s).
          let p = coPoints c ! nat i in
          Some (\<lparr>lqQ = q, lqLat = ptLat p, lqLng = ptLng p, lqNow = coNows c ! nat j\<rparr>, s)))))"

section \<open>One request\<close>

record load_sample =
  spWallMs :: f64
  spServerMs :: int
  spEmbedMs :: int
  spSqlMs :: int
  spRerankMs :: int
  spOk :: bool

text \<open>\<open>url.QueryEscape\<close> and the sorted encoding of \<open>url.Values\<close>.\<close>

definition hex_digit :: "nat \<Rightarrow> char" where
  "hex_digit n = ''0123456789ABCDEF'' ! n"

definition escape_byte :: "char \<Rightarrow> string" where
  "escape_byte c =
     (if c \<in> set ''ABCDEFGHIJKLMNOPQRSTUVWXYZabcdefghijklmnopqrstuvwxyz0123456789-_.~'' then [c]
      else if c = CHR '' '' then ''+''
      else [CHR ''%'', hex_digit (of_char c div 16), hex_digit (of_char c mod 16)])"

definition query_escape :: "string \<Rightarrow> string" where
  "query_escape s = concat (map escape_byte s)"

definition trim_right_slash :: "string \<Rightarrow> string" where
  "trim_right_slash s = rev (dropWhile (\<lambda>c. c = CHR ''/'') (rev s))"

definition urlFor :: "string \<Rightarrow> load_request \<Rightarrow> string" where
  "urlFor base rq =
     trim_right_slash base @ ''/search?'' @
       ''lat='' @ query_escape (format_fixed 6 (lqLat rq)) @ ''&lng='' @ query_escape (format_fixed 6 (lqLng rq)) @
       ''&now='' @ query_escape (lqNow rq) @ ''&q='' @ query_escape (lqQ rq)"

text \<open>\<open>Duration.Microseconds\<close> divides towards zero.\<close>

definition msSince :: "int \<Rightarrow> int \<Rightarrow> f64" where
  "msSince now target =
     (let d = now - target; us = (if d < 0 then - (- d div 1000) else d div 1000) in f_div (f_of_int us) (Fin 1000))"

text \<open>The part of the response the client decodes.\<close>

record load_timings =
  ltEmbedMS :: int
  ltSQLMS :: int
  ltRerankMS :: int
  ltTotalMS :: int

record ('s, 'b, 'e) load_client =
  lcRequest :: "string \<Rightarrow> 'e option"
  lcDo :: "'s \<Rightarrow> string \<Rightarrow> ('e + int \<times> 'b) \<times> 's"
  lcDecode :: "'b \<Rightarrow> 'e + load_timings"

definition failed_sample :: "f64 \<Rightarrow> load_sample" where
  "failed_sample ms = \<lparr>spWallMs = ms, spServerMs = 0, spEmbedMs = 0, spSqlMs = 0, spRerankMs = 0, spOk = False\<rparr>"

text \<open>\<open>now\<close> is the reading of the clock at the return.\<close>

definition doRequest :: "('s, 'b, 'e) load_client \<Rightarrow> string \<Rightarrow> load_request \<Rightarrow> int \<Rightarrow> int \<Rightarrow> 's \<Rightarrow> load_sample \<times> 's" where
  "doRequest cl base rq target now s =
     (let u = urlFor base rq; failed = failed_sample (msSince now target) in
      case lcRequest cl u of
        Some e \<Rightarrow> (failed, s)
      | None \<Rightarrow>
          (case lcDo cl s u of
             (Inl e, s) \<Rightarrow> (failed, s)
           | (Inr (status, b), s) \<Rightarrow>
               if status \<noteq> 200 then (failed, s)
               else (case lcDecode cl b of
                 Inl e \<Rightarrow> (failed, s)
               | Inr t \<Rightarrow> (\<lparr>spWallMs = msSince now target, spServerMs = ltTotalMS t, spEmbedMs = ltEmbedMS t,
                   spSqlMs = ltSQLMS t, spRerankMs = ltRerankMS t, spOk = True\<rparr>, s))))"

section \<open>Summary\<close>

record rate_result =
  rrTargetRate :: int
  rrAchievedRP :: f64
  rrCount :: nat
  rrErrors :: nat
  rrDropped :: nat
  rrWallP50 :: f64
  rrWallP95 :: f64
  rrWallP99 :: f64
  rrServerP50 :: f64
  rrServerP95 :: f64
  rrEmbedP95 :: f64
  rrSQLP95 :: f64
  rrRerankP95 :: f64

definition pctl :: "f64 list \<Rightarrow> nat \<Rightarrow> f64" where
  "pctl sorted_xs p =
     (if length sorted_xs = 0 then Fin 0
      else (let i = p * length sorted_xs div 100;
                i = (if length sorted_xs \<le> i then length sorted_xs - 1 else i)
            in sorted_xs ! i))"

text \<open>\<open>Duration.Seconds\<close> of a nonnegative duration.\<close>

definition seconds :: "int \<Rightarrow> f64" where
  "seconds d = f_add (f_of_int (d div 1000000000)) (f_div (f_of_int (d mod 1000000000)) (Fin 1000000000))"

definition summarize :: "int \<Rightarrow> load_sample list \<Rightarrow> nat \<Rightarrow> int \<Rightarrow> rate_result" where
  "summarize rate samples dropped_n elapsed_ns =
     (let wall = sort (map spWallMs samples);
          good = filter spOk samples;
          srv = sort (map (\<lambda>s. f_of_int (spServerMs s)) good);
          emb = sort (map (\<lambda>s. f_of_int (spEmbedMs s)) good);
          sqlms = sort (map (\<lambda>s. f_of_int (spSqlMs s)) good);
          rerank = sort (map (\<lambda>s. f_of_int (spRerankMs s)) good)
      in \<lparr>rrTargetRate = rate, rrAchievedRP = f_div (f_of_int (int (length samples))) (seconds elapsed_ns),
          rrCount = length samples, rrErrors = length (filter (\<lambda>s. \<not> spOk s) samples), rrDropped = dropped_n,
          rrWallP50 = pctl wall 50, rrWallP95 = pctl wall 95, rrWallP99 = pctl wall 99,
          rrServerP50 = pctl srv 50, rrServerP95 = pctl srv 95, rrEmbedP95 = pctl emb 95, rrSQLP95 = pctl sqlms 95,
          rrRerankP95 = pctl rerank 95\<rparr>)"

section \<open>Facts\<close>

text \<open>Weights that are not negative and do not overflow.\<close>

definition weights_ok :: "weighted_query list \<Rightarrow> bool" where
  "weights_ok qs \<longleftrightarrow> list_all (\<lambda>x. 0 \<le> wqWeight x) qs \<and> sum_list (map wqWeight qs) < 2 ^ 63"

lemma weights_sum_nonneg: "weights_ok qs \<Longrightarrow> 0 \<le> sum_list (map wqWeight qs)"
  by (auto simp: weights_ok_def list_all_iff intro!: sum_list_nonneg)

lemma weights_ok_Cons:
  assumes "weights_ok (q # qs)"
  shows "weights_ok qs" "0 \<le> wqWeight q" "wqWeight q < 2 ^ 63" "0 \<le> sum_list (map wqWeight qs)"
proof -
  have "0 \<le> sum_list (map wqWeight qs)" using assms by (auto simp: weights_ok_def list_all_iff intro!: sum_list_nonneg)
  with assms show "weights_ok qs" "0 \<le> wqWeight q" "wqWeight q < 2 ^ 63" "0 \<le> sum_list (map wqWeight qs)"
    by (auto simp: weights_ok_def)
qed

lemma weightTotal_sum: "weights_ok (coQueries c) \<Longrightarrow> weightTotal c = sum_list (map wqWeight (coQueries c))"
proof -
  have "foldl (\<lambda>t q. wrap64 (t + wqWeight q)) t qs = t + sum_list (map wqWeight qs)"
    if "weights_ok qs" "0 \<le> t" "t + sum_list (map wqWeight qs) < 2 ^ 63" for t qs
    using that
  proof (induction qs arbitrary: t)
    case (Cons q qs)
    note w = weights_ok_Cons[OF Cons.prems(1)]
    have "wrap64 (t + wqWeight q) = t + wqWeight q" using Cons.prems(2,3) w by (intro wrap64_id) auto
    with Cons w show ?case by simp
  qed simp
  from this[of "coQueries c" 0] show "weights_ok (coQueries c) \<Longrightarrow> weightTotal c = sum_list (map wqWeight (coQueries c))"
    by (simp add: weightTotal_def weights_ok_def)
qed

lemma pick_step:
  assumes "weights_ok (q # qs)" "0 \<le> r" "r < 2 ^ 63"
  shows "pick_loop (q # qs) r d = (if r < wqWeight q then wqQ q else pick_loop qs (r - wqWeight q) d)"
proof -
  have "wrap64 (r - wqWeight q) = r - wqWeight q" using assms weights_ok_Cons[OF assms(1)] by (intro wrap64_id) auto
  then show ?thesis by (simp add: Let_def)
qed

text \<open>The draws that pick a given text: an interval as long as its weight.\<close>

definition picks :: "weighted_query list \<Rightarrow> string \<Rightarrow> int set" where
  "picks qs q = {r. 0 \<le> r \<and> r < sum_list (map wqWeight qs) \<and> pick_loop qs r (wqQ (last qs)) = q}"

lemma pick_loop_default:
  "weights_ok qs \<Longrightarrow> 0 \<le> r \<Longrightarrow> r < sum_list (map wqWeight qs) \<Longrightarrow> pick_loop qs r a = pick_loop qs r b"
proof (induction qs arbitrary: r)
  case (Cons q qs)
  note w = weights_ok_Cons[OF Cons.prems(1)]
  have "r < 2 ^ 63" using Cons.prems(1,3) by (simp add: weights_ok_def)
  with Cons w show ?case by (simp add: pick_step del: pick_loop.simps)
qed simp

lemma pick_loop_mem:
  "weights_ok qs \<Longrightarrow> 0 \<le> r \<Longrightarrow> r < sum_list (map wqWeight qs) \<Longrightarrow> pick_loop qs r a \<in> wqQ ` set qs"
proof (induction qs arbitrary: r)
  case (Cons q qs)
  note w = weights_ok_Cons[OF Cons.prems(1)]
  have "r < 2 ^ 63" using Cons.prems(1,3) by (simp add: weights_ok_def)
  with Cons w show ?case by (auto simp add: pick_step simp del: pick_loop.simps)
qed simp

lemma picks_interval:
  assumes "weights_ok qs" "distinct (map wqQ qs)" "x \<in> set qs"
  shows "\<exists>a. picks qs (wqQ x) = {a ..< a + wqWeight x}"
  using assms
proof (induction qs)
  case (Cons y qs)
  let ?S = "sum_list (map wqWeight qs)"
  note ok = weights_ok_Cons(1)[OF Cons.prems(1)]
  have y: "0 \<le> wqWeight y" "0 \<le> ?S" using weights_ok_Cons[OF Cons.prems(1)] by simp_all
  have total: "wqWeight y + ?S < 2 ^ 63" using Cons.prems(1) by (simp add: weights_ok_def)
  have picks: "picks (y # qs) q = {r. 0 \<le> r \<and> r < wqWeight y + ?S \<and>
      (if r < wqWeight y then wqQ y else pick_loop qs (r - wqWeight y) (wqQ (last (y # qs)))) = q}" for q
    using pick_step[OF Cons.prems(1)] total by (auto simp: picks_def simp del: pick_loop.simps)
  show ?case
  proof (cases "x = y")
    case True
    have "pick_loop qs (r - wqWeight y) d \<noteq> wqQ y" if "wqWeight y \<le> r" "r < wqWeight y + ?S" for r d
      using pick_loop_mem[of qs "r - wqWeight y" d] ok that Cons.prems(2) by auto
    then have "picks (y # qs) (wqQ y) = {0 ..< 0 + wqWeight y}"
      using y unfolding picks by (auto simp: not_less) (metis not_less)+
    with True show ?thesis by blast
  next
    case False
    with Cons.prems(3) have "x \<in> set qs" by simp
    then have x: "x \<in> set qs" "wqQ x \<noteq> wqQ y" using Cons.prems(2) by (auto simp: image_iff)
    from Cons.IH[OF ok] Cons.prems x obtain a where a: "picks qs (wqQ x) = {a ..< a + wqWeight x}" by auto
    have "picks (y # qs) (wqQ x) = (\<lambda>r. r + wqWeight y) ` picks qs (wqQ x)"
    proof (intro equalityI subsetI)
      fix r assume r: "r \<in> picks (y # qs) (wqQ x)"
      with x(2) have "\<not> r < wqWeight y" unfolding picks by auto
      with r have "r - wqWeight y \<in> picks qs (wqQ x)"
        unfolding picks using pick_loop_default[of qs "r - wqWeight y" "wqQ (last (y # qs))" "wqQ (last qs)"] ok by (auto simp: picks_def)
      then show "r \<in> (\<lambda>r. r + wqWeight y) ` picks qs (wqQ x)" by (force intro: image_eqI[of _ _ "r - wqWeight y"])
    next
      fix r assume "r \<in> (\<lambda>r. r + wqWeight y) ` picks qs (wqQ x)"
      then obtain k where "r = k + wqWeight y" "k \<in> picks qs (wqQ x)" by blast
      then show "r \<in> picks (y # qs) (wqQ x)"
        unfolding picks using y pick_loop_default[of qs k "wqQ (last (y # qs))" "wqQ (last qs)"] ok by (auto simp: picks_def)
    qed
    then have "picks (y # qs) (wqQ x) = {a + wqWeight y ..< a + wqWeight y + wqWeight x}"
      unfolding a by (auto simp: image_iff)
    then show ?thesis by blast
  qed
qed simp

lemma pctl_rank:
  fixes p
  assumes "xs \<noteq> []" "sorted xs"
  defines "i \<equiv> min (p * length xs div 100) (length xs - 1)"
  shows "pctl xs p \<in> set xs" "i < length (filter (\<lambda>x. x \<le> pctl xs p) xs)"
    "length xs - i \<le> length (filter (\<lambda>x. pctl xs p \<le> x) xs)"
proof -
  have i: "i < length xs" using assms(1) by (cases xs) (auto simp: i_def)
  have v: "pctl xs p = xs ! i" using assms(1) by (auto simp: pctl_def i_def Let_def min_def)
  show "pctl xs p \<in> set xs" using i v by simp
  show "i < length (filter (\<lambda>x. x \<le> pctl xs p) xs)" "length xs - i \<le> length (filter (\<lambda>x. pctl xs p \<le> x) xs)"
    unfolding v by (rule sorted_rank[OF assms(2) i])+
qed

text \<open>Of one hundred values the fiftieth percentile is the fifty-first, not the nearest rank.\<close>

lemma pctl_above_nearest_rank: "pctl (map f_of_int [1..100]) 50 = Fin 51"
proof -
  have "[1..100] ! 50 = (51 :: int)" by (subst nth_upto) simp_all
  then show ?thesis by (simp add: pctl_def f_of_int_small)
qed

section \<open>Properties\<close>

text \<open>The offered stream has the corpus's distribution: with weights that are not negative and do not overflow, of the
  draws below the total weight exactly a query's weight many choose it.\<close>

theorem pick_weighted:
  assumes "weights_ok (coQueries c)" "distinct (map wqQ (coQueries c))" "x \<in> set (coQueries c)"
  shows "card {r \<in> {0 ..< weightTotal c}. pick_loop (coQueries c) r (wqQ (last (coQueries c))) = wqQ x} = nat (wqWeight x)"
proof -
  obtain a where "picks (coQueries c) (wqQ x) = {a ..< a + wqWeight x}" using picks_interval[OF assms] by blast
  moreover have "{r \<in> {0 ..< weightTotal c}. pick_loop (coQueries c) r (wqQ (last (coQueries c))) = wqQ x} =
      picks (coQueries c) (wqQ x)"
    by (auto simp: picks_def weightTotal_sum[OF assms(1)])
  ultimately show ?thesis by simp
qed

definition two_queries :: corpus where
  "two_queries = \<lparr>coPoints = [\<lparr>ptLat = Fin 25, ptLng = Fin (- 80), ptLabel = ''downtown''\<rparr>], coNows = [[]],
     coQueries = [\<lparr>wqQ = ''pizza'', wqWeight = 3, wqKind = ''name''\<rparr>, \<lparr>wqQ = ''sushi'', wqWeight = 1, wqKind = ''name''\<rparr>]\<rparr>"

theorem pick_weighted_witness:
  "card {r \<in> {0 ..< weightTotal two_queries}. pick_loop (coQueries two_queries) r (wqQ (last (coQueries two_queries))) = ''pizza''} = 3"
  using pick_weighted[of two_queries "\<lparr>wqQ = ''pizza'', wqWeight = 3, wqKind = ''name''\<rparr>"] by (simp add: two_queries_def weights_ok_def)

end
