(* ===== verification/Load_Dispatch.thy ===== *)
theory Load_Dispatch
  imports Load_Bench
begin

text \<open>
  \<open>dispatch\<close>, \<open>runRate\<close> and the sweep of \<open>run\<close> in \<open>cmd/loadbench/main.go\<close>. A window is a transition
  system over all interleavings of the scheduling loop and its goroutines; the network answers
  each request as it likes. What passes of time is not in the state: a request carries the
  instant it was scheduled for.
\<close>

section \<open>A window\<close>

text \<open>The number of requests of a window. The interval of a rate above \<open>10 ^ 9\<close> is zero and the division
  panics, as does \<open>make\<close> for the negative size a negative duration gives and for more samples of 48 bytes than the
  address space of \<open>2 ^ 48\<close> bytes has room for beside the channel's header.\<close>

definition max_samples :: int where "max_samples = 5864062014803"

definition planned :: "int \<Rightarrow> int \<Rightarrow> (int \<times> nat) option" where
  "planned rate dur =
     (let interval = 1000000000 div rate in
      if interval = 0 then None
      else (let n = (if dur < 0 then - (- dur div interval) else dur div interval)
            in if n < 0 \<or> max_samples < n then None else Some (interval, nat n)))"

definition maxInflight :: nat where "maxInflight = 8000"

record ('g, 's, 'b, 'e) window =
  wdClient :: "('s, 'b, 'e) load_client"
  wdBase :: string
  wdCorpus :: corpus
  wdIntn :: "'g \<Rightarrow> int \<Rightarrow> int \<times> 'g"
  wdTotal :: int
  wdStart :: int
  wdInterval :: int
  wdN :: nat

text \<open>
  The loop counter, the random source, the goroutines with their request and instant, those that
  have sent but not yet released, the channel \<open>out\<close> with capacity \<open>wdN\<close>, which is drained only when
  closed, and the local variables. A slot of \<open>sem\<close> is held from admission to release.
\<close>

record 'g dispatch =
  dpI :: nat
  dpRng :: 'g
  dpFlying :: "(load_request \<times> int) list"
  dpSent :: nat
  dpOut :: "load_sample list"
  dpDropped :: nat
  dpElapsed :: "int option"
  dpClosed :: bool
  dpPanicked :: bool

definition sem_used :: "'g dispatch \<Rightarrow> nat" where
  "sem_used d = length (dpFlying d) + dpSent d"

definition next_pick :: "('g, 's, 'b, 'e) window \<Rightarrow> 'g dispatch \<Rightarrow> (load_request \<times> 'g) option" where
  "next_pick w d = pick (wdIntn w) (wdCorpus w) (wdTotal w) (dpRng d)"

definition target :: "('g, 's, 'b, 'e) window \<Rightarrow> nat \<Rightarrow> int" where
  "target w i = wdStart w + int i * wdInterval w"

inductive dispatch_step :: "('g, 's, 'b, 'e) window \<Rightarrow> 'g dispatch \<Rightarrow> 'g dispatch \<Rightarrow> bool" for w where
  admit: "\<not> dpPanicked d \<Longrightarrow> dpI d < wdN w \<Longrightarrow> next_pick w d = Some (rq, g) \<Longrightarrow> sem_used d < maxInflight \<Longrightarrow>
    dispatch_step w d (d\<lparr>dpI := dpI d + 1, dpRng := g, dpFlying := dpFlying d @ [(rq, target w (dpI d))]\<rparr>)"
| drop: "\<not> dpPanicked d \<Longrightarrow> dpI d < wdN w \<Longrightarrow> next_pick w d = Some (rq, g) \<Longrightarrow> \<not> sem_used d < maxInflight \<Longrightarrow>
    dispatch_step w d (d\<lparr>dpI := dpI d + 1, dpRng := g, dpDropped := dpDropped d + 1\<rparr>)"
| panic: "\<not> dpPanicked d \<Longrightarrow> dpI d < wdN w \<Longrightarrow> next_pick w d = None \<Longrightarrow>
    dispatch_step w d (d\<lparr>dpPanicked := True\<rparr>)"
| deliver: "\<not> dpPanicked d \<Longrightarrow> k < length (dpFlying d) \<Longrightarrow> dpFlying d ! k = (rq, t) \<Longrightarrow>
    length (dpOut d) < wdN w \<Longrightarrow> \<not> dpClosed d \<Longrightarrow> smp = fst (doRequest (wdClient w) (wdBase w) rq t now net) \<Longrightarrow>
    dispatch_step w d (d\<lparr>dpFlying := take k (dpFlying d) @ drop (Suc k) (dpFlying d), dpSent := dpSent d + 1,
      dpOut := dpOut d @ [smp]\<rparr>)"
| release: "\<not> dpPanicked d \<Longrightarrow> 0 < dpSent d \<Longrightarrow> dispatch_step w d (d\<lparr>dpSent := dpSent d - 1\<rparr>)"
| measure: "\<not> dpPanicked d \<Longrightarrow> dpI d = wdN w \<Longrightarrow> dpElapsed d = None \<Longrightarrow>
    dispatch_step w d (d\<lparr>dpElapsed := Some e\<rparr>)"
| close: "\<not> dpPanicked d \<Longrightarrow> dpElapsed d \<noteq> None \<Longrightarrow> sem_used d = 0 \<Longrightarrow> \<not> dpClosed d \<Longrightarrow>
    dispatch_step w d (d\<lparr>dpClosed := True\<rparr>)"

definition dispatch_start :: "'g \<Rightarrow> 'g dispatch" where
  "dispatch_start g = \<lparr>dpI = 0, dpRng = g, dpFlying = [], dpSent = 0, dpOut = [], dpDropped = 0,
     dpElapsed = None, dpClosed = False, dpPanicked = False\<rparr>"

section \<open>The sweep\<close>

record load_config =
  lgBaseURL :: string
  lgDuration :: int
  lgWarmup :: int

text \<open>A window with the number of requests \<open>planned\<close> gives, from a state of the random source to the
  samples, the drops, the elapsed time and the new state; a panic has no outcome.\<close>

inductive dispatch_run :: "('s, 'b, 'e) load_client \<Rightarrow> load_config \<Rightarrow> corpus \<Rightarrow> ('g \<Rightarrow> int \<Rightarrow> int \<times> 'g) \<Rightarrow>
    int \<Rightarrow> int \<Rightarrow> 'g \<Rightarrow> load_sample list \<Rightarrow> nat \<Rightarrow> int \<Rightarrow> 'g \<Rightarrow> bool" for cl cfg cp intn where
  "planned rate dur = Some (interval, n) \<Longrightarrow>
   w = \<lparr>wdClient = cl, wdBase = lgBaseURL cfg, wdCorpus = cp, wdIntn = intn, wdTotal = weightTotal cp,
        wdStart = start, wdInterval = interval, wdN = n\<rparr> \<Longrightarrow>
   (dispatch_step w)\<^sup>*\<^sup>* (dispatch_start g) d \<Longrightarrow> dpClosed d \<Longrightarrow> dpElapsed d = Some e \<Longrightarrow>
   dispatch_run cl cfg cp intn rate dur g (dpOut d) (dpDropped d) e (dpRng d)"

text \<open>\<open>runRate\<close>: the warm-up is discarded, but it advances the random source.\<close>

inductive runRate :: "('s, 'b, 'e) load_client \<Rightarrow> load_config \<Rightarrow> corpus \<Rightarrow> ('g \<Rightarrow> int \<Rightarrow> int \<times> 'g) \<Rightarrow>
    int \<Rightarrow> 'g \<Rightarrow> rate_result \<Rightarrow> 'g \<Rightarrow> bool" for cl cfg cp intn where
  "dispatch_run cl cfg cp intn rate (lgWarmup cfg) g warm wdropped we g' \<Longrightarrow>
   dispatch_run cl cfg cp intn rate (lgDuration cfg) g' samples dropped_n e g'' \<Longrightarrow>
   runRate cl cfg cp intn rate g (summarize rate samples dropped_n e) g''"

inductive sweep :: "('s, 'b, 'e) load_client \<Rightarrow> load_config \<Rightarrow> corpus \<Rightarrow> ('g \<Rightarrow> int \<Rightarrow> int \<times> 'g) \<Rightarrow>
    int list \<Rightarrow> 'g \<Rightarrow> rate_result list \<Rightarrow> 'g \<Rightarrow> bool" for cl cfg cp intn where
  "sweep cl cfg cp intn [] g [] g"
| "runRate cl cfg cp intn rate g rr g' \<Longrightarrow> sweep cl cfg cp intn rates g' rrs g'' \<Longrightarrow>
   sweep cl cfg cp intn (rate # rates) g (rr # rrs) g''"

section \<open>Facts on one window\<close>

inductive_cases dispatch_stepE: "dispatch_step w d d'"

definition dispatch_reach :: "('g, 's, 'b, 'e) window \<Rightarrow> 'g \<Rightarrow> 'g dispatch \<Rightarrow> bool" where
  "dispatch_reach w g d \<longleftrightarrow> (dispatch_step w)\<^sup>*\<^sup>* (dispatch_start g) d"

definition dispatch_inv :: "('g, 's, 'b, 'e) window \<Rightarrow> 'g dispatch \<Rightarrow> bool" where
  "dispatch_inv w d \<longleftrightarrow> dpI d \<le> wdN w \<and> length (dpOut d) + length (dpFlying d) + dpDropped d = dpI d \<and>
     sem_used d \<le> maxInflight \<and> (dpElapsed d \<noteq> None \<longrightarrow> dpI d = wdN w) \<and>
     (dpClosed d \<longrightarrow> dpElapsed d \<noteq> None \<and> sem_used d = 0)"

lemma dispatch_inv_step: "dispatch_step w d d' \<Longrightarrow> dispatch_inv w d \<Longrightarrow> dispatch_inv w d'"
  by (erule dispatch_stepE) (auto simp: dispatch_inv_def sem_used_def)

lemma dispatch_reach_inv: "dispatch_reach w g d \<Longrightarrow> dispatch_inv w d"
  unfolding dispatch_reach_def
proof (induction rule: rtranclp_induct)
  case base
  show ?case by (simp add: dispatch_inv_def dispatch_start_def sem_used_def)
next
  case (step d d')
  then show ?case using dispatch_inv_step by blast
qed

definition dispatch_left :: "('g, 's, 'b, 'e) window \<Rightarrow> 'g dispatch \<Rightarrow> nat" where
  "dispatch_left w d = 4 * (wdN w - dpI d) + 2 * length (dpFlying d) + dpSent d +
     (if dpClosed d then 0 else 1) + (if dpElapsed d = None then 1 else 0) + (if dpPanicked d then 0 else 1)"

lemma dispatch_left_step: "dispatch_step w d d' \<Longrightarrow> dispatch_left w d' < dispatch_left w d"
  by (erule dispatch_stepE) (auto simp: dispatch_left_def)

lemma dispatch_progress:
  assumes "dispatch_inv w d" "\<not> dpClosed d" "\<not> dpPanicked d"
  shows "\<exists>d'. dispatch_step w d d'"
proof (cases "dpI d < wdN w")
  case True
  show ?thesis
  proof (cases "next_pick w d")
    case None
    with True assms(3) show ?thesis by (blast intro: dispatch_step.panic)
  next
    case (Some p)
    obtain rq g where "p = (rq, g)" by (cases p)
    with Some True assms(3) show ?thesis
      by (cases "sem_used d < maxInflight") (blast intro: dispatch_step.admit dispatch_step.drop)+
  qed
next
  case False
  with assms(1) have i: "dpI d = wdN w" by (simp add: dispatch_inv_def)
  show ?thesis
  proof (cases "dpElapsed d")
    case None
    with i assms(3) show ?thesis by (blast intro: dispatch_step.measure)
  next
    case (Some e)
    show ?thesis
    proof (cases "dpFlying d")
      case Nil
      show ?thesis
      proof (cases "dpSent d = 0")
        case True
        with Nil have "sem_used d = 0" by (simp add: sem_used_def)
        with Some assms show ?thesis by (intro exI) (rule dispatch_step.close, simp_all)
      next
        case False
        with assms show ?thesis by (intro exI) (rule dispatch_step.release, simp_all)
      qed
    next
      case (Cons r rs)
      obtain rq t where "r = (rq, t)" by (cases r)
      moreover from Cons i assms(1) have "length (dpOut d) < wdN w" by (simp add: dispatch_inv_def)
      ultimately show ?thesis
        using Cons assms dispatch_step.deliver[of d 0 rq t w, OF assms(3) _ _ _ assms(2) refl] by auto
    qed
  qed
qed


lemma dispatch_ends_aux:
  "dispatch_reach w g d \<Longrightarrow> \<exists>d'. dispatch_reach w g d' \<and> (dpClosed d' \<or> dpPanicked d')"
proof (induction "dispatch_left w d" arbitrary: d rule: less_induct)
  case less
  show ?case
  proof (cases "dpClosed d \<or> dpPanicked d")
    case False
    with dispatch_progress[OF dispatch_reach_inv[OF less.prems]] obtain d' where d': "dispatch_step w d d'" by blast
    with less.prems have "dispatch_reach w g d'" unfolding dispatch_reach_def by simp
    with less.hyps[OF dispatch_left_step[OF d']] show ?thesis by blast
  qed (use less.prems in blast)
qed

text \<open>A pick fails exactly where one of its three draws has an empty range.\<close>

lemma pick_eq_None:
  "pick intn c tw g = None \<longleftrightarrow> tw \<le> 0 \<or> coQueries c = [] \<or> coPoints c = [] \<or> coNows c = []"
  by (auto simp: pick_def draw_below_def Let_def split: prod.splits)

lemma no_panic:
  assumes "dispatch_reach w g d" "0 < wdTotal w" "coQueries (wdCorpus w) \<noteq> []" "coPoints (wdCorpus w) \<noteq> []"
    "coNows (wdCorpus w) \<noteq> []"
  shows "\<not> dpPanicked d"
  using assms(1) unfolding dispatch_reach_def
proof (induction rule: rtranclp_induct)
  case base
  show ?case by (simp add: dispatch_start_def)
next
  case (step d d')
  have "next_pick w d \<noteq> None" using assms(2-5) by (simp add: next_pick_def pick_eq_None)
  with step show ?case by (auto elim!: dispatch_stepE)
qed

section \<open>The stream of requests\<close>

text \<open>The first \<open>n\<close> picks from a state of the random source.\<close>

fun picks_n :: "('g, 's, 'b, 'e) window \<Rightarrow> nat \<Rightarrow> 'g \<Rightarrow> (load_request list \<times> 'g) option" where
  "picks_n w 0 g = Some ([], g)"
| "picks_n w (Suc n) g = Option.bind (picks_n w n g) (\<lambda>(rqs, g).
     map_option (\<lambda>(rq, g). (rqs @ [rq], g)) (pick (wdIntn w) (wdCorpus w) (wdTotal w) g))"

lemma picks_n_length: "picks_n w n g = Some (rqs, g') \<Longrightarrow> length rqs = n"
proof (induction n arbitrary: rqs g')
  case (Suc n)
  then show ?case by (fastforce simp: bind_eq_Some_conv)
qed simp

definition answers :: "('g, 's, 'b, 'e) window \<Rightarrow> load_request \<Rightarrow> int \<Rightarrow> load_sample \<Rightarrow> bool" where
  "answers w rq t smp \<longleftrightarrow> (\<exists>now net. smp = fst (doRequest (wdClient w) (wdBase w) rq t now net))"

text \<open>What is in flight and what was sampled are picks of the stream, each at most once.\<close>

definition stream_inv :: "('g, 's, 'b, 'e) window \<Rightarrow> 'g \<Rightarrow> 'g dispatch \<Rightarrow> load_request list \<Rightarrow> nat list \<Rightarrow> nat list \<Rightarrow> bool" where
  "stream_inv w g d rqs fi oi \<longleftrightarrow>
     picks_n w (dpI d) g = Some (rqs, dpRng d) \<and> distinct (fi @ oi) \<and> set (fi @ oi) \<subseteq> {..< dpI d} \<and>
     dpFlying d = map (\<lambda>i. (rqs ! i, target w i)) fi \<and>
     list_all2 (\<lambda>i. answers w (rqs ! i) (target w i)) oi (dpOut d)"

lemma stream_extend:
  assumes "stream_inv w g d rqs fi oi" "next_pick w d = Some (rq, g')"
  shows "picks_n w (Suc (dpI d)) g = Some (rqs @ [rq], g')"
    "map (\<lambda>i. (rqs ! i, target w i)) fi = map (\<lambda>i. ((rqs @ [rq]) ! i, target w i)) fi"
    "list_all2 (\<lambda>i. answers w ((rqs @ [rq]) ! i) (target w i)) oi (dpOut d)"
    "(rqs @ [rq]) ! dpI d = rq"
proof -
  note inv = assms(1)[unfolded stream_inv_def]
  have l: "length rqs = dpI d" by (rule picks_n_length[OF conjunct1[OF inv]])
  show "picks_n w (Suc (dpI d)) g = Some (rqs @ [rq], g')"
    using inv assms(2) by (simp add: next_pick_def)
  show "map (\<lambda>i. (rqs ! i, target w i)) fi = map (\<lambda>i. ((rqs @ [rq]) ! i, target w i)) fi"
    using inv l by (auto simp: nth_append)
  have "list_all2 (\<lambda>i. answers w (rqs ! i) (target w i)) oi (dpOut d)" using inv by blast
  then show "list_all2 (\<lambda>i. answers w ((rqs @ [rq]) ! i) (target w i)) oi (dpOut d)"
    using inv l by (auto simp: list_all2_conv_all_nth nth_append subset_iff)
  show "(rqs @ [rq]) ! dpI d = rq" using l by (simp add: nth_append)
qed

lemma stream_deliver:
  assumes "stream_inv w g d rqs fi oi" "k < length (dpFlying d)" "dpFlying d ! k = (rq, t)" "answers w rq t smp"
  shows "stream_inv w g (d\<lparr>dpFlying := take k (dpFlying d) @ drop (Suc k) (dpFlying d), dpSent := m, dpOut := dpOut d @ [smp]\<rparr>)
    rqs (take k fi @ drop (Suc k) fi) (oi @ [fi ! k])"
proof -
  note inv = assms(1)[unfolded stream_inv_def]
  from inv assms(2) have k: "k < length fi" by simp
  with inv assms(3) have rq: "rq = rqs ! (fi ! k)" "t = target w (fi ! k)" by simp_all
  define pre post where "pre = take k fi" and "post = drop (Suc k) fi"
  have fi: "fi = pre @ fi ! k # post" unfolding pre_def post_def by (rule id_take_nth_drop[OF k])
  have len: "length pre = k" using k by (simp add: pre_def)
  have fly: "take k (dpFlying d) @ drop (Suc k) (dpFlying d) = map (\<lambda>i. (rqs ! i, target w i)) (pre @ post)"
    using inv by (simp add: pre_def post_def take_map drop_map)
  have d: "distinct ((pre @ fi ! k # post) @ oi)" "set ((pre @ fi ! k # post) @ oi) \<subseteq> {..< dpI d}"
    using inv fi by simp_all
  have out: "list_all2 (\<lambda>i. answers w (rqs ! i) (target w i)) (oi @ [fi ! k]) (dpOut d @ [smp])"
    using inv assms(4) rq by (intro list_all2_appendI) simp_all
  show ?thesis
    unfolding stream_inv_def pre_def[symmetric] post_def[symmetric] using inv fly out d by auto
qed

lemma stream_step:
  assumes "dispatch_step w d d'" "stream_inv w g d rqs fi oi"
  shows "\<exists>rqs fi oi. stream_inv w g d' rqs fi oi"
  using assms(1)
proof cases
  case (admit rq g')
  note ext = stream_extend[OF assms(2) admit(4)]
  from assms(2) have "stream_inv w g d' (rqs @ [rq]) (fi @ [dpI d]) oi"
    unfolding stream_inv_def admit(1) using ext by auto
  then show ?thesis by blast
next
  case (drop rq g')
  note ext = stream_extend[OF assms(2) drop(4)]
  from assms(2) have "stream_inv w g d' (rqs @ [rq]) fi oi"
    unfolding stream_inv_def drop(1) using ext by auto
  then show ?thesis by blast
next
  case (deliver k rq t smp now net)
  from stream_deliver[OF assms(2) deliver(3,4)] deliver(1,7) show ?thesis
    by (auto simp: answers_def) blast
qed (use assms(2) in \<open>auto simp: stream_inv_def\<close>)

lemma stream_reach: "dispatch_reach w g d \<Longrightarrow> \<exists>rqs fi oi. stream_inv w g d rqs fi oi"
  unfolding dispatch_reach_def
proof (induction rule: rtranclp_induct)
  case base
  have "stream_inv w g (dispatch_start g) [] [] []" by (simp add: stream_inv_def dispatch_start_def)
  then show ?case by blast
next
  case (step d d')
  then obtain rqs fi oi where "stream_inv w g d rqs fi oi" by blast
  from stream_step[OF step.hyps(2) this] show ?case .
qed


section \<open>Facts on the sweep\<close>

inductive_cases dispatch_runE: "dispatch_run cl cfg cp intn rate dur g samples dr e g'"
inductive_cases runRateE: "runRate cl cfg cp intn rate g rr g'"
inductive_cases sweep_NilE: "sweep cl cfg cp intn [] g rrs g'"
inductive_cases sweep_ConsE: "sweep cl cfg cp intn (rate # rates) g rrs g'"

text \<open>The part of a window that does not depend on the server.\<close>

definition offered :: "corpus \<Rightarrow> ('g \<Rightarrow> int \<Rightarrow> int \<times> 'g) \<Rightarrow> nat \<Rightarrow> 'g \<Rightarrow> (load_request list \<times> 'g) option" where
  "offered cp intn n g = picks_n \<lparr>wdClient = undefined :: (unit, unit, unit) load_client, wdBase = [], wdCorpus = cp,
     wdIntn = intn, wdTotal = weightTotal cp, wdStart = 0, wdInterval = 0, wdN = 0\<rparr> n g"

lemma picks_n_offered:
  "wdTotal w = weightTotal (wdCorpus w) \<Longrightarrow> picks_n w n g = offered (wdCorpus w) (wdIntn w) n g"
  unfolding offered_def by (induction n) simp_all

lemma dispatch_run_offers:
  assumes "dispatch_run cl cfg cp intn rate dur g samples dr e g'"
  shows "\<exists>interval n rqs. planned rate dur = Some (interval, n) \<and> offered cp intn n g = Some (rqs, g') \<and>
    length samples + dr = n"
  using assms
proof (rule dispatch_runE)
  fix interval n start d
  define w where "w = \<lparr>wdClient = cl, wdBase = lgBaseURL cfg, wdCorpus = cp, wdIntn = intn, wdTotal = weightTotal cp,
      wdStart = start, wdInterval = interval, wdN = n\<rparr>"
  note w = w_def
  assume out: "samples = dpOut d" "dr = dpDropped d" "g' = dpRng d"
    and pl: "planned rate dur = Some (interval, n)"
    and "(dispatch_step \<lparr>wdClient = cl, wdBase = lgBaseURL cfg, wdCorpus = cp, wdIntn = intn, wdTotal = weightTotal cp,
      wdStart = start, wdInterval = interval, wdN = n\<rparr>)\<^sup>*\<^sup>* (dispatch_start g) d"
    and cl: "dpClosed d"
  then have r: "(dispatch_step w)\<^sup>*\<^sup>* (dispatch_start g) d" by (simp add: w)
  have r': "dispatch_reach w g d" using r by (simp add: dispatch_reach_def)
  from dispatch_reach_inv[OF r'] cl w have i: "dpI d = n" "length (dpOut d) + dpDropped d = n"
    by (auto simp: dispatch_inv_def sem_used_def)
  obtain rqs fi oi where "stream_inv w g d rqs fi oi" using stream_reach[OF r'] by blast
  then have "picks_n w n g = Some (rqs, dpRng d)" by (simp add: stream_inv_def i)
  moreover have "picks_n w n g = offered cp intn n g" using picks_n_offered[of w n g] w by simp
  ultimately show ?thesis using pl i out by auto
qed

lemma dispatch_run_exists:
  fixes intn :: "'g \<Rightarrow> int \<Rightarrow> int \<times> 'g"
  assumes "planned rate dur = Some (interval, n)" "0 < weightTotal cp" "coQueries cp \<noteq> []" "coPoints cp \<noteq> []" "coNows cp \<noteq> []"
  shows "\<exists>samples dr e g'. dispatch_run cl cfg cp intn rate dur g samples dr e g'"
proof -
  define w where "w = \<lparr>wdClient = cl, wdBase = lgBaseURL cfg, wdCorpus = cp, wdIntn = intn, wdTotal = weightTotal cp,
      wdStart = 0, wdInterval = interval, wdN = n\<rparr>"
  have "dispatch_reach w g (dispatch_start g)" by (simp add: dispatch_reach_def)
  from dispatch_ends_aux[OF this] obtain d where r: "dispatch_reach w g d" and cl: "dpClosed d \<or> dpPanicked d" by blast
  from no_panic[OF r] assms(2-) have "\<not> dpPanicked d" by (simp add: w_def)
  with cl have cl: "dpClosed d" by simp
  with dispatch_reach_inv[OF r] obtain e where e: "dpElapsed d = Some e" by (auto simp: dispatch_inv_def)
  from dispatch_run.intros[OF assms(1) w_def r[unfolded dispatch_reach_def] cl e] show ?thesis by blast
qed

lemma runRate_offers:
  assumes "runRate cl cfg cp intn rate g rr g'"
  shows "\<exists>i n rqs i' n' rqs' g1. planned rate (lgWarmup cfg) = Some (i, n) \<and> offered cp intn n g = Some (rqs, g1) \<and>
    planned rate (lgDuration cfg) = Some (i', n') \<and> offered cp intn n' g1 = Some (rqs', g') \<and>
    rrTargetRate rr = rate \<and> rrCount rr + rrDropped rr = n' \<and> rrErrors rr \<le> rrCount rr"
  using assms
proof (rule runRateE)
  fix warm wdropped we g1 samples dr e
  assume "dispatch_run cl cfg cp intn rate (lgWarmup cfg) g warm wdropped we g1"
    "dispatch_run cl cfg cp intn rate (lgDuration cfg) g1 samples dr e g'" "rr = summarize rate samples dr e"
  moreover have "rrTargetRate (summarize rate samples dr e) = rate" "rrCount (summarize rate samples dr e) = length samples"
    "rrDropped (summarize rate samples dr e) = dr" "rrErrors (summarize rate samples dr e) \<le> length samples"
    by (simp_all add: summarize_def Let_def)
  ultimately show ?thesis using dispatch_run_offers[of cl cfg cp intn rate "lgWarmup cfg" g warm wdropped we g1]
    dispatch_run_offers[of cl cfg cp intn rate "lgDuration cfg" g1 samples dr e g'] by fastforce
qed

lemma runRate_det:
  assumes "runRate cl cfg cp intn rate g rr g1" "runRate cl' cfg cp intn rate g rr' g2"
  shows "g1 = g2 \<and> rrCount rr + rrDropped rr = rrCount rr' + rrDropped rr'"
  using runRate_offers[OF assms(1)] runRate_offers[OF assms(2)] by auto

lemma sweep_det:
  "sweep cl cfg cp intn rates g rrs g1 \<Longrightarrow> sweep cl' cfg cp intn rates g rrs' g2 \<Longrightarrow>
    g1 = g2 \<and> map rrTargetRate rrs = rates \<and> map rrTargetRate rrs' = rates \<and>
    map (\<lambda>rr. rrCount rr + rrDropped rr) rrs = map (\<lambda>rr. rrCount rr + rrDropped rr) rrs'"
proof (induction rates arbitrary: g rrs rrs')
  case Nil
  then show ?case by (auto elim!: sweep_NilE)
next
  case (Cons rate rates)
  from Cons.prems(1) obtain rr rrs1 h where a: "rrs = rr # rrs1" "runRate cl cfg cp intn rate g rr h" "sweep cl cfg cp intn rates h rrs1 g1"
    by (auto elim!: sweep_ConsE)
  from Cons.prems(2) obtain rr' rrs2 h' where b: "rrs' = rr' # rrs2" "runRate cl' cfg cp intn rate g rr' h'" "sweep cl' cfg cp intn rates h' rrs2 g2"
    by (auto elim!: sweep_ConsE)
  from runRate_det[OF a(2) b(2)] have h: "h' = h" "rrCount rr + rrDropped rr = rrCount rr' + rrDropped rr'" by simp_all
  from Cons.IH[OF a(3) b(3)[unfolded h(1)]] a b h runRate_offers[OF a(2)] runRate_offers[OF b(2)] show ?case by auto
qed

lemma planned_rate: "0 < rate \<Longrightarrow> rate \<le> 1000000000 \<Longrightarrow> 0 \<le> dur \<Longrightarrow> dur \<le> max_samples \<Longrightarrow> \<exists>i n. planned rate dur = Some (i, n)"
proof -
  assume "0 < rate" "rate \<le> 1000000000" "0 \<le> dur" "dur \<le> max_samples"
  then have i: "0 < 1000000000 div rate" by (simp add: pos_imp_zdiv_pos_iff)
  moreover from this \<open>0 \<le> dur\<close> have "0 \<le> dur div (1000000000 div rate)" by (intro pos_imp_zdiv_nonneg_iff[THEN iffD2])
  moreover have "dur div (1000000000 div rate) \<le> dur"
    using zdiv_mono2[of dur 1 "1000000000 div rate"] i \<open>0 \<le> dur\<close> by simp
  ultimately show ?thesis using \<open>0 \<le> dur\<close> \<open>dur \<le> max_samples\<close> by (simp add: planned_def Let_def)
qed

lemma sweep_exists:
  assumes "list_all (\<lambda>r. 0 < r \<and> r \<le> 1000000000) rates" "0 \<le> lgWarmup cfg" "lgWarmup cfg \<le> max_samples" "0 \<le> lgDuration cfg" "lgDuration cfg \<le> max_samples"
    and cp: "0 < weightTotal cp" "coQueries cp \<noteq> []" "coPoints cp \<noteq> []" "coNows cp \<noteq> []"
  shows "\<exists>rrs g'. sweep cl cfg cp intn rates g rrs g'"
  using assms(1)
proof (induction rates arbitrary: g)
  case Nil
  show ?case by (intro exI) (rule sweep.intros)
next
  case (Cons rate rates)
  from Cons.prems assms(2-5) obtain i n i' n' where
    pl: "planned rate (lgWarmup cfg) = Some (i, n)" "planned rate (lgDuration cfg) = Some (i', n')"
    using planned_rate[of rate] by fastforce
  from dispatch_run_exists[where cl=cl and cfg=cfg and intn=intn and g=g, OF pl(1) cp] obtain a b c g1 where
    1: "dispatch_run cl cfg cp intn rate (lgWarmup cfg) g a b c g1" by blast
  from dispatch_run_exists[where cl=cl and cfg=cfg and intn=intn and g=g1, OF pl(2) cp] obtain a' b' c' g2 where
    2: "dispatch_run cl cfg cp intn rate (lgDuration cfg) g1 a' b' c' g2" by blast
  have "\<exists>rrs g'. sweep cl cfg cp intn rates g2 rrs g'" using Cons by simp
  then obtain rrs g' where "sweep cl cfg cp intn rates g2 rrs g'" by blast
  with sweep.intros(2)[OF runRate.intros[OF 1 2]] show ?case by blast
qed


text \<open>A rate above \<open>10 ^ 9\<close> passes \<open>parseRates\<close> and panics in \<open>dispatch\<close>.\<close>

lemma high_rate_panics: "parseRates ''2000000000'' = Inr [2000000000]" "planned 2000000000 dur = None"
proof -
  have "trim_space ''2000000000'' = ''2000000000''" by (rule trim_space_ascii_fixed) code_simp+
  moreover have "Atoi ''2000000000'' = Some 2000000000" by (simp add: Atoi_def)
  ultimately show "parseRates ''2000000000'' = Inr [2000000000]" by (simp add: parseRates_def)
  show "planned 2000000000 dur = None" by (simp add: planned_def)
qed


section \<open>Properties\<close>

text \<open>C18. However requests finish, the dispatcher keeps its books: at most 8000 slots are held, the sample
  channel never blocks a send, and when it is closed every scheduled request is a sample or a
  drop, with none still in flight to send on it.\<close>

theorem dispatch_accounts:
  assumes "dispatch_reach w g d"
  shows "sem_used d \<le> maxInflight \<and> length (dpOut d) + length (dpFlying d) \<le> wdN w \<and>
    (dpClosed d \<longrightarrow> length (dpOut d) + dpDropped d = wdN w \<and> dpFlying d = [])"
  using dispatch_reach_inv[OF assms] by (auto simp: dispatch_inv_def sem_used_def)

definition two_window :: "(int, unit, unit, unit) window" where
  "two_window = \<lparr>wdClient = \<lparr>lcRequest = (\<lambda>u. None), lcDo = (\<lambda>s u. (Inl (), s)), lcDecode = (\<lambda>b. Inl ())\<rparr>,
     wdBase = ''http://localhost:8080'', wdCorpus = two_queries, wdIntn = (\<lambda>g n. (g mod n, g + 1)), wdTotal = 4,
     wdStart = 0, wdInterval = 40000000, wdN = 3\<rparr>"

lemma two_window_start: "dispatch_reach two_window g (dispatch_start g)"
  by (simp add: dispatch_reach_def)

text \<open>A closed window is reached.\<close>

lemma two_window_closed: "\<exists>d. dispatch_reach two_window 7 d \<and> dpClosed d \<and> dpI d = 3"
proof -
  obtain d where d: "dispatch_reach two_window 7 d" "dpClosed d \<or> dpPanicked d"
    using dispatch_ends_aux[OF two_window_start, of 7] by blast
  have "\<not> dpPanicked d" by (rule no_panic[OF d(1)]) (simp_all add: two_window_def two_queries_def)
  moreover have "dpClosed d \<Longrightarrow> dpI d = 3"
    using dispatch_reach_inv[OF d(1)] by (simp add: dispatch_inv_def two_window_def)
  ultimately show ?thesis using d by blast
qed

theorem dispatch_accounts_witness:
  "\<exists>d. dispatch_reach two_window 7 d \<and> dpClosed d \<and> length (dpOut d) + dpDropped d = 3"
proof -
  obtain d where d: "dispatch_reach two_window 7 d" "dpClosed d" using two_window_closed by blast
  with dispatch_accounts[OF d(1)] show ?thesis by (auto simp: two_window_def)
qed

text \<open>Every window ends: no run of the dispatcher is infinite, and it is never stuck before it has
  closed its channel or panicked, which takes an empty draw.\<close>

theorem dispatch_ends:
  assumes "dispatch_reach w g d"
  shows "wfp (\<lambda>d' d. dispatch_step w d d') \<and> (dpClosed d \<or> dpPanicked d \<or> (\<exists>d'. dispatch_step w d d')) \<and>
    (dpPanicked d \<longrightarrow> wdTotal w \<le> 0 \<or> coQueries (wdCorpus w) = [] \<or> coPoints (wdCorpus w) = [] \<or>
      coNows (wdCorpus w) = [])"
proof (intro conjI)
  have "wf (measure (dispatch_left w))" by simp
  then show "wfp (\<lambda>d' d. dispatch_step w d d')"
    unfolding wfp_def by (rule wf_subset) (auto dest: dispatch_left_step)
  show "dpClosed d \<or> dpPanicked d \<or> (\<exists>d'. dispatch_step w d d')"
    using dispatch_progress[OF dispatch_reach_inv[OF assms]] by blast
  show "dpPanicked d \<longrightarrow> wdTotal w \<le> 0 \<or> coQueries (wdCorpus w) = [] \<or> coPoints (wdCorpus w) = [] \<or>
      coNows (wdCorpus w) = []"
    using no_panic[OF assms] by (meson not_less)
qed

theorem dispatch_ends_witness: "\<exists>d'. dispatch_step two_window (dispatch_start 7) d'"
proof -
  have "\<not> dpClosed (dispatch_start 7)" "\<not> dpPanicked (dispatch_start 7)" by (simp_all add: dispatch_start_def)
  with dispatch_ends[OF two_window_start, of 7] show ?thesis by blast
qed

text \<open>C22. The load is open-loop: whatever the server answers and when, the request number \<open>i\<close> of a window
  is the \<open>i\<close>th pick of the random source and is scheduled for \<open>start + i * interval\<close>; each is in
  flight or sampled at most once, and each sample is the answer to the request it is counted for.\<close>

theorem dispatch_stream:
  assumes "dispatch_reach w g d"
  shows "\<exists>rqs fi oi. picks_n w (dpI d) g = Some (rqs, dpRng d) \<and> distinct (fi @ oi) \<and> set (fi @ oi) \<subseteq> {..< dpI d} \<and>
    dpFlying d = map (\<lambda>i. (rqs ! i, wdStart w + int i * wdInterval w)) fi \<and>
    list_all2 (\<lambda>i smp. \<exists>now net. smp = fst (doRequest (wdClient w) (wdBase w) (rqs ! i)
      (wdStart w + int i * wdInterval w) now net)) oi (dpOut d)"
  using stream_reach[OF assms] unfolding stream_inv_def target_def answers_def by blast

theorem dispatch_stream_witness:
  "\<exists>d rqs oi. dispatch_reach two_window 7 d \<and> dpClosed d \<and> picks_n two_window 3 7 = Some (rqs, dpRng d) \<and>
     distinct oi \<and> set oi \<subseteq> {..< 3 :: nat} \<and> length (dpOut d) = length oi"
proof -
  obtain d where d: "dispatch_reach two_window 7 d" "dpClosed d" "dpI d = 3" using two_window_closed by blast
  from dispatch_stream[OF d(1)] obtain rqs fi oi where "picks_n two_window 3 7 = Some (rqs, dpRng d)" "distinct (fi @ oi)"
    "set (fi @ oi) \<subseteq> {..< 3 :: nat}" "length oi = length (dpOut d)"
    unfolding d(3) by (blast dest: list_all2_lengthD)
  with d(1,2) show ?thesis by (intro exI[of _ d] exI[of _ rqs] exI[of _ oi]) simp
qed

text \<open>C35. A seed makes a sweep reproducible: against any two servers, the same rates from the same random
  state end in the same random state, and report for each rate as many requests, answered,
  failed or dropped.\<close>

theorem sweep_reproducible:
  assumes "sweep cl cfg cp intn rates g rrs g1" "sweep cl' cfg cp intn rates g rrs' g2"
  shows "g1 = g2 \<and> map rrTargetRate rrs = rates \<and> map rrTargetRate rrs' = rates \<and>
    map (\<lambda>rr. rrCount rr + rrDropped rr) rrs = map (\<lambda>rr. rrCount rr + rrDropped rr) rrs'"
  by (rule sweep_det[OF assms])

definition up_client :: "(unit, unit, unit) load_client" where
  "up_client = \<lparr>lcRequest = (\<lambda>u. None), lcDo = (\<lambda>s u. (Inr (200, ()), s)),
     lcDecode = (\<lambda>b. Inr \<lparr>ltEmbedMS = 1, ltSQLMS = 2, ltRerankMS = 3, ltTotalMS = 6\<rparr>)\<rparr>"

definition two_config :: load_config where
  "two_config = \<lparr>lgBaseURL = ''http://localhost:8080'', lgDuration = 30000000000, lgWarmup = 5000000000\<rparr>"

theorem sweep_reproducible_witness:
  "\<exists>rrs rrs' g'. sweep up_client two_config two_queries (\<lambda>g n. (g mod n, g + 1)) [25, 50] (7 :: int) rrs g' \<and>
     sweep (wdClient two_window) two_config two_queries (\<lambda>g n. (g mod n, g + 1)) [25, 50] 7 rrs' g'"
proof -
  have ok: "list_all (\<lambda>r. 0 < r \<and> r \<le> 1000000000) [25, 50 :: int]" "0 \<le> lgWarmup two_config" "lgWarmup two_config \<le> max_samples"
    "0 \<le> lgDuration two_config" "lgDuration two_config \<le> max_samples"
    "0 < weightTotal two_queries" "coQueries two_queries \<noteq> []" "coPoints two_queries \<noteq> []" "coNows two_queries \<noteq> []"
    by (simp_all add: two_config_def two_queries_def weightTotal_def max_samples_def)
  obtain rrs g1 where 1: "sweep up_client two_config two_queries (\<lambda>g n. (g mod n, g + 1)) [25, 50] (7 :: int) rrs g1"
    using sweep_exists[OF ok, of up_client "\<lambda>g n. (g mod n, g + 1)" 7] by blast
  obtain rrs' g2 where 2: "sweep (wdClient two_window) two_config two_queries (\<lambda>g n. (g mod n, g + 1)) [25, 50] (7 :: int) rrs' g2"
    using sweep_exists[OF ok, of "wdClient two_window" "\<lambda>g n. (g mod n, g + 1)" 7] by blast
  from sweep_reproducible[OF 1 2] 1 2 show ?thesis by blast
qed

text \<open>A sweep completes against every server: with durations that are neither negative nor too long for the sample channel, rates up to
  \<open>10 ^ 9\<close>, and a corpus with queries of positive total weight, points and times, there is a
  run that reports every rate.\<close>

theorem sweep_completes:
  assumes "list_all (\<lambda>r. 0 < r \<and> r \<le> 1000000000) rates" "0 \<le> lgWarmup cfg" "lgWarmup cfg \<le> max_samples"
    "0 \<le> lgDuration cfg" "lgDuration cfg \<le> max_samples" "0 < weightTotal cp" "coQueries cp \<noteq> []" "coPoints cp \<noteq> []" "coNows cp \<noteq> []"
  shows "\<exists>rrs g'. sweep cl cfg cp intn rates g rrs g' \<and> map rrTargetRate rrs = rates"
proof -
  obtain rrs g' where "sweep cl cfg cp intn rates g rrs g'"
    using sweep_exists[OF assms, of cl intn g] by blast
  with sweep_det[OF this this] show ?thesis by blast
qed

theorem sweep_completes_witness:
  "\<exists>rrs g'. sweep up_client two_config two_queries (\<lambda>g n. (g mod n, g + 1)) [25, 50] (7 :: int) rrs g' \<and>
     map rrTargetRate rrs = [25, 50]"
  by (rule sweep_completes) (simp_all add: two_config_def two_queries_def weightTotal_def max_samples_def)

end
