(* ===== verification/Load_Main.thy ===== *)
theory Load_Main
  imports Load_Dispatch
begin

text \<open>
  The command \<open>cmd/loadbench\<close> around the sweep: what is read before it, and the artifact, the
  lines and the table that report it. The bytes of the JSON encoding are a parameter; it fails, as
  \<open>encoding/json\<close> does, exactly on a float that is no number.
\<close>

datatype 'e load_error =
    CorpusFailed "'e corpus_error"
  | InvalidRate string
  | EncodingArtifact
  | WritingArtifact string 'e

definition load_prepare :: "(string \<Rightarrow> 'e + string) \<Rightarrow> (string \<Rightarrow> 'e + corpus) \<Rightarrow> string \<Rightarrow> string \<Rightarrow>
    'e load_error + corpus \<times> int list" where
  "load_prepare read_file unmarshal corpus_path rates =
     res_bind (map_err CorpusFailed (loadCorpus read_file unmarshal corpus_path)) (\<lambda>cp.
     res_bind (map_err InvalidRate (parseRates rates)) (\<lambda>rs. Inr (cp, rs)))"

section \<open>Output\<close>

definition printRow :: "rate_result \<Rightarrow> string" where
  "printRow r =
     ''  rate '' @ width 5 (format_int (rrTargetRate r)) @ '' '' @ arrow @ '' '' @ width 6 (format_fixed 0 (rrAchievedRP r)) @
     '' rps | wall p50/p95/p99 '' @ width 5 (format_fixed 0 (rrWallP50 r)) @ ''/'' @
     width 5 (format_fixed 0 (rrWallP95 r)) @ ''/'' @ width 5 (format_fixed 0 (rrWallP99 r)) @
     '' ms | srv p95 '' @ width 4 (format_fixed 0 (rrServerP95 r)) @
     '' (sql '' @ width 3 (format_fixed 0 (rrSQLP95 r)) @ '' embed '' @ width 3 (format_fixed 0 (rrEmbedP95 r)) @
     '') | err '' @ format_int (int (rrErrors r)) @ '' drop '' @ format_int (int (rrDropped r)) @ nl"

definition markdown_head :: string where
  "markdown_head =
     nl @
       ''| rate | rps | wall p50 | wall p95 | wall p99 | srv p95 | sql p95 | embed p95 | err | drop '' @
       ''|''"

definition markdown_rule :: string where
  "markdown_rule = ''|---|---|---|---|---|---|---|---|---|---|''"

definition markdown_row :: "rate_result \<Rightarrow> string" where
  "markdown_row r =
     ''| '' @ format_int (rrTargetRate r) @ '' | '' @ format_fixed 0 (rrAchievedRP r) @
     '' | '' @ format_fixed 0 (rrWallP50 r) @ '' | '' @ format_fixed 0 (rrWallP95 r) @
     '' | '' @ format_fixed 0 (rrWallP99 r) @ '' | '' @ format_fixed 0 (rrServerP95 r) @
     '' | '' @ format_fixed 0 (rrSQLP95 r) @ '' | '' @ format_fixed 0 (rrEmbedP95 r) @
     '' | '' @ format_int (int (rrErrors r)) @ '' | '' @ format_int (int (rrDropped r)) @ '' |''"

definition printMarkdown :: "rate_result list \<Rightarrow> string" where
  "printMarkdown results =
     markdown_head @ nl @ markdown_rule @ nl @ concat (map (\<lambda>r. markdown_row r @ nl) results)"

section \<open>The artifact\<close>

definition encodable_rate :: "rate_result \<Rightarrow> bool" where
  "encodable_rate r \<longleftrightarrow> list_all finite_f
     [rrAchievedRP r, rrWallP50 r, rrWallP95 r, rrWallP99 r, rrServerP50 r, rrServerP95 r, rrEmbedP95 r,
      rrSQLP95 r, rrRerankP95 r]"

text \<open>The error, if any, and what is printed.\<close>

definition writeArtifact :: "(int list \<Rightarrow> rate_result list \<Rightarrow> string) \<Rightarrow> (string \<Rightarrow> string \<Rightarrow> 'e option) \<Rightarrow>
    string \<Rightarrow> int list \<Rightarrow> rate_result list \<Rightarrow> 'e load_error option \<times> string" where
  "writeArtifact marshal write_file out rates results =
     (if \<not> list_all encodable_rate results then (Some EncodingArtifact, [])
      else (case write_file out (marshal rates results) of
          Some e \<Rightarrow> (Some (WritingArtifact out e), [])
        | None \<Rightarrow> (None, nl @ ''wrote '' @ out @ nl)))"

text \<open>\<open>[25 50]\<close>, as \<open>%v\<close> prints a slice.\<close>

definition rates_text :: "int list \<Rightarrow> string" where
  "rates_text rates = ''['' @ join '' '' (map format_int rates) @ '']''"

definition load_banner :: "string \<Rightarrow> corpus \<Rightarrow> int list \<Rightarrow> string \<Rightarrow> string" where
  "load_banner base cp rates duration_text =
     ''loadbench '' @ arrow @ '' '' @ base @ ''  (corpus '' @ format_int (int (length (coQueries cp))) @ '' queries, rates '' @
     rates_text rates @ '', '' @ duration_text @ ''/rate)'' @ nl"

text \<open>A run of the command: the error it returns and the text on stdout.\<close>

inductive load_run :: "(string \<Rightarrow> 'x + string) \<Rightarrow> (string \<Rightarrow> 'x + corpus) \<Rightarrow> (int list \<Rightarrow> rate_result list \<Rightarrow> string) \<Rightarrow>
    (string \<Rightarrow> string \<Rightarrow> 'x option) \<Rightarrow> (int \<Rightarrow> string) \<Rightarrow> ('s, 'b, 'e) load_client \<Rightarrow> ('g \<Rightarrow> int \<Rightarrow> int \<times> 'g) \<Rightarrow>
    load_config \<Rightarrow> string \<Rightarrow> string \<Rightarrow> string \<Rightarrow> 'g \<Rightarrow> 'x load_error option \<Rightarrow> string \<Rightarrow> bool"
  for read_file unmarshal marshal write_file show_duration cl intn cfg corpus_path rates_arg out g where
  refused: "load_prepare read_file unmarshal corpus_path rates_arg = Inl e \<Longrightarrow>
    load_run read_file unmarshal marshal write_file show_duration cl intn cfg corpus_path rates_arg out g (Some e) []"
| unwritten: "load_prepare read_file unmarshal corpus_path rates_arg = Inr (cp, rates) \<Longrightarrow>
    sweep cl cfg cp intn rates g results g' \<Longrightarrow> writeArtifact marshal write_file out rates results = (Some e, t) \<Longrightarrow>
    load_run read_file unmarshal marshal write_file show_duration cl intn cfg corpus_path rates_arg out g (Some e)
      (load_banner (lgBaseURL cfg) cp rates (show_duration (lgDuration cfg)) @ concat (map printRow results) @ t)"
| reported: "load_prepare read_file unmarshal corpus_path rates_arg = Inr (cp, rates) \<Longrightarrow>
    sweep cl cfg cp intn rates g results g' \<Longrightarrow> writeArtifact marshal write_file out rates results = (None, t) \<Longrightarrow>
    load_run read_file unmarshal marshal write_file show_duration cl intn cfg corpus_path rates_arg out g None
      (load_banner (lgBaseURL cfg) cp rates (show_duration (lgDuration cfg)) @ concat (map printRow results) @ t @
       printMarkdown results)"

definition load_exit :: "'e load_error option \<Rightarrow> int" where
  "load_exit err = (case err of None \<Rightarrow> 0 | Some _ \<Rightarrow> 1)"

section \<open>Facts\<close>

inductive_cases load_runE:
  "load_run read_file unmarshal marshal write_file show_duration cl intn cfg corpus_path rates_arg out g err text"

lemma rates_loop_result:
  "rates_loop parts out = Inr rs \<Longrightarrow> \<exists>ns. rs = out @ ns \<and> length ns = length parts \<and>
    list_all2 (\<lambda>p n. Atoi (trim_space p) = Some n \<and> 0 < n) parts ns"
proof (induction parts arbitrary: out)
  case (Cons p parts)
  then obtain n where n: "Atoi (trim_space p) = Some n" "0 < n" "rates_loop parts (out @ [n]) = Inr rs"
    by (auto split: option.splits if_splits)
  from Cons.IH[OF n(3)] obtain ns where "rs = (out @ [n]) @ ns" "length ns = length parts"
    "list_all2 (\<lambda>p n. Atoi (trim_space p) = Some n \<and> 0 < n) parts ns" by blast
  with n show ?case by (intro exI[of _ "n # ns"]) simp
qed simp

lemma split_commas_ne: "split_commas acc s \<noteq> []"
  by (induction acc s rule: split_commas.induct) simp_all

lemma parseRates_ok:
  assumes "parseRates s = Inr rs"
  shows "rs \<noteq> [] \<and> list_all (\<lambda>n. 0 < n) rs"
proof -
  from assms rates_loop_result[of "split_commas [] s" "[]" rs] have
    l: "length rs = length (split_commas [] s)" and
    ok: "list_all2 (\<lambda>p n. Atoi (trim_space p) = Some n \<and> 0 < n) (split_commas [] s) rs"
    by (auto simp only: parseRates_def append_Nil)
  from ok have "list_all (\<lambda>n. 0 < n) rs" by (induction rule: list_all2_induct) simp_all
  with l split_commas_ne[of "[]" s] show ?thesis by (cases rs) auto
qed

lemma load_prepare_ok:
  "load_prepare read_file unmarshal corpus_path rates_arg = Inr (cp, rates) \<Longrightarrow>
    rates \<noteq> [] \<and> list_all (\<lambda>n. 0 < n) rates \<and> coQueries cp \<noteq> [] \<and> coPoints cp \<noteq> []"
  by (auto simp: load_prepare_def loadCorpus_def res_bind_eq_Inr dest: parseRates_ok split: if_splits)

lemma markdown_bars: "bars markdown_head = 11" "bars markdown_rule = 11" "bars (markdown_row r) = 11"
  by (simp_all add: markdown_head_def markdown_rule_def markdown_row_def nl_def)


section \<open>Properties\<close>

text \<open>What a run of the generator reports: a bad corpus or rate is refused before anything is printed;
  else every rate, in the given order, is swept and printed, and the table of all of them follows
  exactly if the artifact was written. An artifact is refused exactly for a number JSON cannot
  hold.\<close>

theorem load_run_reports:
  assumes "load_run read_file unmarshal marshal write_file show_duration cl intn cfg corpus_path rates_arg out g err out_text"
  shows "case load_prepare read_file unmarshal corpus_path rates_arg of
      Inl e \<Rightarrow> err = Some e \<and> out_text = []
    | Inr (cp, rates) \<Rightarrow> (\<exists>results g' t.
        sweep cl cfg cp intn rates g results g' \<and> map rrTargetRate results = rates \<and>
        (let lines = load_banner (lgBaseURL cfg) cp rates (show_duration (lgDuration cfg)) @ concat (map printRow results) @ t
         in case err of
              None \<Rightarrow> out_text = lines @ printMarkdown results \<and> list_all encodable_rate results
            | Some e \<Rightarrow> out_text = lines \<and>
                (if list_all encodable_rate results then \<exists>x. e = WritingArtifact out x else e = EncodingArtifact)))"
  using assms
proof (rule load_runE)
  fix e
  assume "load_prepare read_file unmarshal corpus_path rates_arg = Inl e" "err = Some e" "out_text = []"
  then show ?thesis by simp
next
  fix cp rates results g' e t
  assume a: "load_prepare read_file unmarshal corpus_path rates_arg = Inr (cp, rates)"
    "sweep cl cfg cp intn rates g results g'" "writeArtifact marshal write_file out rates results = (Some e, t)"
    "err = Some e"
    "out_text = load_banner (lgBaseURL cfg) cp rates (show_duration (lgDuration cfg)) @ concat (map printRow results) @ t"
  have "map rrTargetRate results = rates" using sweep_det[OF a(2) a(2)] by simp
  moreover have "if list_all encodable_rate results then \<exists>x. e = WritingArtifact out x else e = EncodingArtifact"
    using a(3) by (auto simp: writeArtifact_def split: option.splits if_splits)
  ultimately show ?thesis using a by (auto simp: Let_def)
next
  fix cp rates results g' t
  assume a: "load_prepare read_file unmarshal corpus_path rates_arg = Inr (cp, rates)"
    "sweep cl cfg cp intn rates g results g'" "writeArtifact marshal write_file out rates results = (None, t)"
    "err = None"
    "out_text = load_banner (lgBaseURL cfg) cp rates (show_duration (lgDuration cfg)) @ concat (map printRow results) @ t @
      printMarkdown results"
  have "map rrTargetRate results = rates" using sweep_det[OF a(2) a(2)] by simp
  moreover have "list_all encodable_rate results"
    using a(3) by (auto simp: writeArtifact_def split: if_splits)
  ultimately show ?thesis using a by (auto simp: Let_def)
qed

lemma prepare_two: "load_prepare (\<lambda>p. Inr p) (\<lambda>raw. Inr two_queries) ''corpus.json'' ''25'' = Inr (two_queries, [25])"
proof -
  have "trim_space ''25'' = ''25''" by (rule trim_space_ascii_fixed) code_simp+
  moreover have "Atoi ''25'' = Some 25" by (simp add: Atoi_def)
  ultimately have "parseRates ''25'' = Inr [25]" by (simp add: parseRates_def)
  then show ?thesis by (simp add: load_prepare_def loadCorpus_def two_queries_def)
qed

theorem load_run_reports_witness:
  "\<exists>results g'. sweep up_client two_config two_queries (\<lambda>g n. (g mod n, g + 1)) [25] (7 :: int) results g' \<and>
     map rrTargetRate results = [25]"
proof -
  define run where "run = load_run (\<lambda>p. Inr p) (\<lambda>raw. Inr two_queries) (\<lambda>rs rrs. ''{}'') (\<lambda>p b. None :: unit option)
    (\<lambda>d. ''30s'') up_client (\<lambda>g n. (g mod n, g + 1)) two_config ''corpus.json'' ''25'' ''out.json'' (7 :: int)"
  obtain results g' where s: "sweep up_client two_config two_queries (\<lambda>g n. (g mod n, g + 1)) [25] (7 :: int) results g'"
    using sweep_exists[of "[25]" two_config two_queries up_client "\<lambda>g n. (g mod n, g + 1)" 7]
    by (auto simp: two_config_def two_queries_def weightTotal_def max_samples_def)
  obtain e t where w: "writeArtifact (\<lambda>rs rrs. ''{}'') (\<lambda>p b. None :: unit option) ''out.json'' [25] results = (e, t)" by fastforce
  have "\<exists>out_text. run e out_text"
  proof (cases e)
    case None
    with load_run.reported[OF prepare_two s w[unfolded None]] show ?thesis unfolding run_def by blast
  next
    case (Some x)
    with load_run.unwritten[OF prepare_two s w[unfolded Some]] show ?thesis unfolding run_def by blast
  qed
  then obtain out_text where "run e out_text" by blast
  from load_run_reports[OF this[unfolded run_def]] show ?thesis unfolding prepare_two by (auto simp: Let_def)
qed

end
