(* ===== verification/Commands.thy ===== *)
theory Commands
  imports Go_Flag Ingest_Main Bench_Main Load_Main
begin

text \<open>
  The \<open>main\<close> functions of the commands with flags: \<open>cmd/ingest\<close>, \<open>cmd/bench-runner\<close> and
  \<open>cmd/loadbench\<close>, from the command line to the exit status. \<open>time.ParseDuration\<close> is a parameter; the usage
  text goes to standard error and is left out.
\<close>

section \<open>The bench runner\<close>

definition bench_flag_set :: "bench_flags flag_spec list" where
  "bench_flag_set =
    [string_var ''bench'' (\<lambda>v fl. fl\<lparr>boBenchPath := v\<rparr>),
     string_var ''config'' (\<lambda>v fl. fl\<lparr>boCfgPath := v\<rparr>),
     string_var ''label'' (\<lambda>v fl. fl\<lparr>boLabel := v\<rparr>),
     int_var ''generate'' (\<lambda>v fl. fl\<lparr>boGenerate := v\<rparr>),
     int_var ''seed'' (\<lambda>v fl. fl\<lparr>boSeed := v\<rparr>),
     string_var ''engine'' (\<lambda>v fl. fl\<lparr>boEngine := v\<rparr>),
     string_var ''formula'' (\<lambda>v fl. fl\<lparr>boFormula := v\<rparr>),
     string_var ''report-out'' (\<lambda>v fl. fl\<lparr>boReportOut := v\<rparr>),
     bool_var ''index'' (\<lambda>v fl. fl\<lparr>boIndex := v\<rparr>),
     string_var ''meili-url'' (\<lambda>v fl. fl\<lparr>boMeiliURL := v\<rparr>),
     string_var ''meili-key'' (\<lambda>v fl. fl\<lparr>boMeiliKey := v\<rparr>),
     bool_var ''semantic'' (\<lambda>v fl. fl\<lparr>boSemantic := v\<rparr>),
     string_var ''semantic-bench'' (\<lambda>v fl. fl\<lparr>boSemanticBench := v\<rparr>),
     string_var ''semantic-out'' (\<lambda>v fl. fl\<lparr>boSemanticOut := v\<rparr>),
     bool_var ''quality'' (\<lambda>v fl. fl\<lparr>boQuality := v\<rparr>),
     string_var ''quality-bench'' (\<lambda>v fl. fl\<lparr>boQualityBench := v\<rparr>),
     string_var ''quality-out'' (\<lambda>v fl. fl\<lparr>boQualityOut := v\<rparr>)]"

text \<open>The exit status, and the outcome of \<open>run\<close> when it ran; no value while an indexing task is polled.\<close>

definition main_bench :: "nat \<Rightarrow> ('s, 'row, 'n, 'b, 'h, 'hb, 'o, 'g, 'nrow, 'drow, 'f, 'e) bench_host \<Rightarrow> string list \<Rightarrow> 'n \<Rightarrow>
    (int \<times> 'e bench_outcome option) option" where
  "main_bench fuel bh args net =
     (case parse_flags bench_flag_set args default_flags of
        Parsed fl rest \<Rightarrow> map_option (\<lambda>r. (bench_exit r, Some r)) (bench_run fuel bh fl net)
      | HelpAsked \<Rightarrow> Some (0, None)
      | Refused \<Rightarrow> Some (2, None))"

section \<open>The ingest\<close>

record ingest_flags =
  ifInput :: string
  ifEmbed :: bool
  ifEmbedAll :: bool
  ifEmbedLimit :: int

definition ingest_defaults :: ingest_flags where
  "ingest_defaults = \<lparr>ifInput = [], ifEmbed = False, ifEmbedAll = False, ifEmbedLimit = 0\<rparr>"

definition ingest_flag_set :: "ingest_flags flag_spec list" where
  "ingest_flag_set =
    [string_var ''input'' (\<lambda>v fl. fl\<lparr>ifInput := v\<rparr>),
     bool_var ''embed'' (\<lambda>v fl. fl\<lparr>ifEmbed := v\<rparr>),
     bool_var ''embed-all'' (\<lambda>v fl. fl\<lparr>ifEmbedAll := v\<rparr>),
     int_var ''embed-limit'' (\<lambda>v fl. fl\<lparr>ifEmbedLimit := v\<rparr>)]"

text \<open>\<open>s\<close> is the finished pipeline of the load mode, \<open>pass\<close> the run of the backfiller.\<close>

definition main_ingest :: "('f, 'p, 'e) cli_host \<Rightarrow>
    (embed_opts \<Rightarrow> ollama \<Rightarrow> 'p \<Rightarrow> 'e pass_error backfill_error option \<times> embed_stats) \<Rightarrow> 'e ingest_sys \<Rightarrow> int \<Rightarrow>
    string list \<Rightarrow> int" where
  "main_ingest h pass s elapsed_ns args =
     (case parse_flags ingest_flag_set args ingest_defaults of
        Parsed fl rest \<Rightarrow> ingest_exit
          (if ifEmbed fl then run_embed_mode h (pass \<lparr>eoAll = ifEmbedAll fl, eoLimit = ifEmbedLimit fl\<rparr>) elapsed_ns
           else run_ingest h (ifInput fl) s elapsed_ns)
      | HelpAsked \<Rightarrow> 0
      | Refused \<Rightarrow> 2)"

section \<open>The load generator\<close>

record load_flags =
  lfBaseURL :: string
  lfCorpus :: string
  lfRates :: string
  lfDuration :: int
  lfWarmup :: int
  lfTimeout :: int
  lfSeed :: int
  lfOut :: string

definition load_defaults :: load_flags where
  "load_defaults = \<lparr>lfBaseURL = ''http://localhost:8080'', lfCorpus = ''../bench/load-corpus.json'',
     lfRates = ''25,50,100,200,400'', lfDuration = 30 * 1000000000, lfWarmup = 5 * 1000000000, lfTimeout = 3 * 1000000000,
     lfSeed = 42, lfOut = ''../bench/load-results.json''\<rparr>"

definition parseFlags :: "(string \<Rightarrow> int option) \<Rightarrow> load_flags flag_spec list" where
  "parseFlags parse_duration =
    [string_var ''base-url'' (\<lambda>v c. c\<lparr>lfBaseURL := v\<rparr>),
     string_var ''corpus'' (\<lambda>v c. c\<lparr>lfCorpus := v\<rparr>),
     string_var ''rates'' (\<lambda>v c. c\<lparr>lfRates := v\<rparr>),
     duration_var parse_duration ''duration'' (\<lambda>v c. c\<lparr>lfDuration := v\<rparr>),
     duration_var parse_duration ''warmup'' (\<lambda>v c. c\<lparr>lfWarmup := v\<rparr>),
     duration_var parse_duration ''timeout'' (\<lambda>v c. c\<lparr>lfTimeout := v\<rparr>),
     int_var ''seed'' (\<lambda>v c. c\<lparr>lfSeed := v\<rparr>),
     string_var ''out'' (\<lambda>v c. c\<lparr>lfOut := v\<rparr>)]"

text \<open>A run of the command: the exit status and the text on standard output. The client is that of the
  timeout, the random source that of the seed.\<close>

inductive main_load :: "(string \<Rightarrow> int option) \<Rightarrow> (string \<Rightarrow> 'x + string) \<Rightarrow> (string \<Rightarrow> 'x + corpus) \<Rightarrow>
    (int list \<Rightarrow> rate_result list \<Rightarrow> string) \<Rightarrow> (string \<Rightarrow> string \<Rightarrow> 'x option) \<Rightarrow> (int \<Rightarrow> string) \<Rightarrow>
    (int \<Rightarrow> ('s, 'b, 'e) load_client) \<Rightarrow> ('g \<Rightarrow> int \<Rightarrow> int \<times> 'g) \<Rightarrow> (int \<Rightarrow> 'g) \<Rightarrow> string list \<Rightarrow> int \<Rightarrow> string \<Rightarrow> bool"
  for parse_duration read_file unmarshal marshal write_file show_duration newClient intn newRand args where
  ran: "parse_flags (parseFlags parse_duration) args load_defaults = Parsed c rest \<Longrightarrow>
    load_run read_file unmarshal marshal write_file show_duration (newClient (lfTimeout c)) intn
      \<lparr>lgBaseURL = lfBaseURL c, lgDuration = lfDuration c, lgWarmup = lfWarmup c\<rparr>
      (lfCorpus c) (lfRates c) (lfOut c) (newRand (lfSeed c)) err text_out \<Longrightarrow>
    main_load parse_duration read_file unmarshal marshal write_file show_duration newClient intn newRand args (load_exit err) text_out"
| asked: "parse_flags (parseFlags parse_duration) args load_defaults = HelpAsked \<Longrightarrow>
    main_load parse_duration read_file unmarshal marshal write_file show_duration newClient intn newRand args 0 []"
| refused_flags: "parse_flags (parseFlags parse_duration) args load_defaults = Refused \<Longrightarrow>
    main_load parse_duration read_file unmarshal marshal write_file show_duration newClient intn newRand args 2 []"

section \<open>Every setting can be given\<close>

lemma ParseBool_bool [simp]: "ParseBool (if b then ''true'' else ''false'') = Some b"
  by (simp add: ParseBool_def)

definition bool_text :: "bool \<Rightarrow> string" where
  "bool_text b = (if b then ''true'' else ''false'')"

lemma ParseBool_text [simp]: "ParseBool (bool_text b) = Some b"
  by (simp add: bool_text_def ParseBool_def)

text \<open>The command line that sets every flag to the value it has in a record of options.\<close>

definition bench_settings :: "bench_flags \<Rightarrow> (string \<times> string) list" where
  "bench_settings fl =
    [(''bench'', boBenchPath fl), (''config'', boCfgPath fl), (''label'', boLabel fl),
     (''generate'', format_int (boGenerate fl)), (''seed'', format_int (boSeed fl)), (''engine'', boEngine fl),
     (''formula'', boFormula fl), (''report-out'', boReportOut fl), (''index'', bool_text (boIndex fl)),
     (''meili-url'', boMeiliURL fl), (''meili-key'', boMeiliKey fl), (''semantic'', bool_text (boSemantic fl)),
     (''semantic-bench'', boSemanticBench fl), (''semantic-out'', boSemanticOut fl), (''quality'', bool_text (boQuality fl)),
     (''quality-bench'', boQualityBench fl), (''quality-out'', boQualityOut fl)]"

definition int64 :: "int \<Rightarrow> bool" where
  "int64 n \<longleftrightarrow> - (2 ^ 63) \<le> n \<and> n < 2 ^ 63"

lemma bench_settings_set:
  assumes "int64 (boGenerate fl)" "int64 (boSeed fl)"
  shows "set_flags bench_flag_set (bench_settings fl) st = Some fl"
  using assms by (simp add: bench_settings_def bench_flag_set_def set_flag_def var_defs int64_def ParseInt0_format)

lemma bench_settings_parse:
  assumes "int64 (boGenerate fl)" "int64 (boSeed fl)"
  shows "parse_flags bench_flag_set (map setting (bench_settings fl) @ args) st = parse_flags bench_flag_set args fl"
proof -
  have "list_all (\<lambda>kv. plain_name (fst kv) \<and> fst kv \<in> fsName ` set bench_flag_set) (bench_settings fl)"
    by (simp add: bench_settings_def bench_flag_set_def plain_name_def var_defs)
  from parse_settings[OF this] show ?thesis by (simp add: bench_settings_set[OF assms])
qed

section \<open>Properties\<close>

text \<open>C33. The command line of the bench runner: every choice of the 17 options, its two numbers in 64 bits,
  can be given as \<open>-name=value\<close> arguments, and the command runs with exactly that choice; an
  argument that names no flag makes it exit with status 2 before anything is run.\<close>

theorem bench_command_line:
  assumes "int64 (boGenerate fl)" "int64 (boSeed fl)"
    and "plain_name n" "n \<notin> fsName ` set bench_flag_set" "n \<noteq> ''help''" "n \<noteq> ''h''"
  shows "main_bench fuel bh (map setting (bench_settings fl)) net =
      map_option (\<lambda>r. (bench_exit r, Some r)) (bench_run fuel bh fl net) \<and>
    main_bench fuel bh (map setting (bench_settings fl) @ [''-'' @ n]) net = Some (2, None)"
  using bench_settings_parse[OF assms(1,2), of "[]"] bench_settings_parse[OF assms(1,2), of "[''-'' @ n]"]
    parse_unknown[OF assms(3,4), of "[]"] assms(5,6)
  by (simp add: main_bench_def del: parse_flags.simps(2))

theorem bench_command_line_witness:
  "\<forall>bh net. main_bench 0 bh (map setting (bench_settings default_flags) @ [''-verbose'']) net = Some (2, None)"
proof (intro allI)
  fix bh net
  have "int64 (boGenerate default_flags)" "int64 (boSeed default_flags)" by (simp_all add: default_flags_def int64_def)
  moreover have "plain_name ''verbose''" "''verbose'' \<notin> fsName ` set bench_flag_set" "''verbose'' \<noteq> ''help''" "''verbose'' \<noteq> ''h''"
    by (simp_all add: plain_name_def bench_flag_set_def var_defs)
  ultimately show "main_bench 0 bh (map setting (bench_settings default_flags) @ [''-verbose'']) net = Some (2, None)"
    using bench_command_line[of default_flags "''verbose''" 0 bh net] by simp
qed

text \<open>C20. What status 0 of the ingest command means, on every schedule of its goroutines: help was asked
  for, or the embedding pass of the given options ended without an error, or the whole
  file was read to its clean end and the table holds exactly the rows it produces, upserted as the columns
  keep them.\<close>

theorem ingest_status_zero:
  assumes "ingest_reach env (ingest_start p0 T0) s" "ingest_final s" "main_ingest h pass s elapsed_ns args = 0"
  shows "parse_flags ingest_flag_set args ingest_defaults = HelpAsked \<or>
    (\<exists>fl rest. parse_flags ingest_flag_set args ingest_defaults = Parsed fl rest \<and>
      (if ifEmbed fl then \<exists>oll pool st. pass \<lparr>eoAll = ifEmbedAll fl, eoLimit = ifEmbedLimit fl\<rparr> oll pool = (None, st)
       else \<exists>raws bs st. parse_all p0 = (raws, EndOfStream) \<and> produce (giStages env) raws no_stats = (bs, st) \<and>
         list_all (loadable (giDb env)) bs \<and> gsTable s = loaded_table (giDb env) bs T0))"
proof (cases "parse_flags ingest_flag_set args ingest_defaults")
  case (Parsed fl rest)
  show ?thesis
  proof (cases "ifEmbed fl")
    case True
    with Parsed assms(3) have "run_embed_mode h (pass \<lparr>eoAll = ifEmbedAll fl, eoLimit = ifEmbedLimit fl\<rparr>) elapsed_ns = None"
      by (auto simp: main_ingest_def ingest_exit_def split: option.splits)
    then have "\<exists>oll pool st. pass \<lparr>eoAll = ifEmbedAll fl, eoLimit = ifEmbedLimit fl\<rparr> oll pool = (None, st)"
      by (auto simp: run_embed_mode_def Let_def split: if_splits sum.splits prod.splits option.splits)
    with Parsed True show ?thesis by auto
  next
    case False
    with Parsed assms(3) have none: "run_ingest h (ifInput fl) s elapsed_ns = None"
      by (auto simp: main_ingest_def ingest_exit_def split: option.splits)
    then obtain fp where "ingest_prepare h (ifInput fl) = Inr fp" by (auto simp: run_ingest_def split: sum.splits)
    from ingest_exit_meaning[OF assms(1,2) this, of elapsed_ns] none
    have "\<exists>raws bs st. parse_all p0 = (raws, EndOfStream) \<and> produce (giStages env) raws no_stats = (bs, st) \<and>
         list_all (loadable (giDb env)) bs \<and> gsTable s = loaded_table (giDb env) bs T0" by (auto intro: prod.collapse[symmetric])
    with Parsed False show ?thesis by auto
  qed
next
  case HelpAsked
  then show ?thesis by simp
next
  case Refused
  with assms(3) show ?thesis by (simp add: main_ingest_def)
qed

text \<open>A load of one shop on a healthy database.\<close>

definition calm_cli :: "(unit, unit, unit) cli_host" where
  "calm_cli = \<lparr>chEnv = (\<lambda>_. ''postgres://localhost''), chOpen = (\<lambda>_. Inr ()), chParseURL = (\<lambda>_. None),
     chNewPool = (\<lambda>_. Inr ()), chWrite = (\<lambda>_. None), chDuration = (\<lambda>_. ''1s'')\<rparr>"

definition no_pass :: "embed_opts \<Rightarrow> ollama \<Rightarrow> unit \<Rightarrow> unit pass_error backfill_error option \<times> embed_stats" where
  "no_pass opts oll pool = (None, \<lparr>esScanned = 0, esEmbedded = 0, esSkipped = 0\<rparr>)"

lemma input_args: "parse_flags ingest_flag_set [''-input=shops.json''] ingest_defaults =
    Parsed \<lparr>ifInput = ''shops.json'', ifEmbed = False, ifEmbedAll = False, ifEmbedLimit = 0\<rparr> []"
  by (simp add: ingest_flag_set_def var_defs flag_body_def ingest_defaults_def)

theorem ingest_status_zero_witness:
  "\<exists>s. ingest_reach pet_env (ingest_start pet_file Map.empty) s \<and> main_ingest calm_cli no_pass s 0 [''-input=shops.json''] = 0 \<and>
     gsTable s 1 \<noteq> None"
proof -
  obtain s where s: "ingest_reach pet_env (ingest_start pet_file Map.empty) s" "ingest_final s" using reach_final by blast
  obtain b st where b: "produce (giStages pet_env) [''{}''] no_stats = ([b], st)" "bzID b = 1" "loadable (giDb pet_env) b" using pet_kept by blast
  have calm: "undisturbed pet_env" using healthy_calm_db by (simp add: undisturbed_def pet_env_def)
  have "run_result s = Inr (st\<lparr>isLoaded := int (length [b])\<rparr>)" using undisturbed_loaded[OF calm parse_pet b(1) _ _ s] b(3) by simp
  then have zero: "main_ingest calm_cli no_pass s 0 [''-input=shops.json''] = 0"
    by (simp add: main_ingest_def input_args run_ingest_def ingest_prepare_def openPool_ingest_def calm_cli_def
        write_report_def ingest_exit_def del: parse_flags.simps(2))
  from ingest_status_zero[OF s zero] have "gsTable s = loaded_table (giDb pet_env) [b] Map.empty"
    using b(1) parse_pet by (auto simp: input_args simp del: parse_flags.simps(2))
  with s(1) zero b(2) show ?thesis by (intro exI[of _ s]) (simp add: loaded_table_def upsertSQL_def upsert_row_def)
qed

end
