(* ===== verification/Spec2Isabelle.thy ===== *)
theory Spec2Isabelle
  imports Rank_Theorems Search_Theorems Ingest_Main Ingest_Runs Embed_Pass End_To_End Commands
begin

text \<open>
  Lemon search: a verification library of the Go code under \<open>src/api\<close>.

  \<^bold>\<open>The program.\<close> \<open>cmd/api\<close> serves \<open>GET /search\<close>: the HTTP layer parses the request
  (\<open>internal/api\<close>), the search service (\<open>internal/search\<close>) extracts an intent overlay
  (\<open>internal/intent\<close>), perhaps embeds the query (\<open>internal/retrieve/embed\<close>), retrieves candidates
  and an exact-name pin from Postgres (\<open>internal/retrieve/postgres\<close>), ranks them by a configured
  weighted sum of seven signals (\<open>internal/rank\<close>, \<open>internal/config\<close>) and removes repeated names.
  \<open>cmd/ingest\<close> fills the database: a stream parser, a sanitizer, a geographic filter and a taxonomy
  feed a loader over a channel (\<open>internal/ingest\<close>); a second pass stores embeddings.
  \<open>cmd/bench-runner\<close> and \<open>cmd/loadbench\<close> measure the search: generated cases, ranking modes,
  quality metrics, a semantic A/B test, a Meilisearch adapter, and an open-loop load generator.

  \<^bold>\<open>The base.\<close> \<open>Prelude\<close>: rule collections and lemmas on lists and results. \<open>Float64\<close>: binary64
  as reals with NaN and infinities, rounded to nearest even; the sign of zero is not represented,
  and \<open>math\<close> functions are the exact value rounded once. \<open>Float_Order\<close>: the order of
  \<open>sort.Float64s\<close> as an instance of \<open>linorder\<close>. \<open>Go_Strings\<close>: strings as bytes, UTF-8 runes, and what
  the code uses of package \<open>strings\<close>. \<open>Go_Sort\<close>: the algorithm of \<open>sort.SliceStable\<close>, since one
  comparator is no ordering. \<open>Go_Fmt\<close>: the verbs the reports use. \<open>Go_Flag\<close>: package \<open>flag\<close>.

  \<^bold>\<open>The server.\<close> \<open>Domain\<close>: types and the ports \<open>BusinessRepo\<close> and \<open>Embedder\<close>, as locales. \<open>Config\<close>:
  \<open>types.go\<close>, \<open>loader.go\<close>; \<open>Ranking_Yaml\<close>: the shipped file. \<open>Signals\<close>, \<open>Scorer\<close>: \<open>rank/signals.go\<close>,
  \<open>rank/scorer.go\<close>, one definition per function, in place updates as list transformers. \<open>Intent\<close>:
  \<open>internal/intent\<close>. \<open>Search_Service\<close>: \<open>search/service.go\<close>, with the repository, the embedder and
  the clock as state-passing arguments. \<open>Embedders\<close>, \<open>Postgres_Repo\<close>: the adapters, each an
  interpretation of its port. \<open>Http_Api\<close>: \<open>internal/api\<close>. \<open>Api_Boot\<close>: \<open>cmd/api/main.go\<close>, \<open>flags\<close>,
  \<open>observ\<close>: what is built at startup, with every degradation, and the exit status.

  \<^bold>\<open>The database.\<close> The SQL functions in force after all migrations of \<open>supabase/migrations\<close>.
  \<open>Sql_Hours\<close>: \<open>lemon_parse_time\<close> and \<open>lemon_open_status\<close>. \<open>Sql_Match\<close>: \<open>lemon_name_match\<close>,
  \<open>lemon_prefix_match\<close>. \<open>Sql_Database\<close>: \<open>search_candidates\<close> and the exact-name statement of \<open>repo.go\<close>
  as queries over the rows that the loader upserts; together they make a pool for \<open>Postgres_Repo\<close>.

  \<^bold>\<open>The ingest.\<close> \<open>Ingest_Parser\<close>, \<open>Ingest_Record\<close>, \<open>Ingest_Loader\<close>, \<open>Ingest_Pipeline\<close>: the stages. A row reaches the
  table through the conversions of its columns (\<open>store\<close>), and only if they all take it (\<open>loadable\<close>).
  \<open>Ingest_System\<close>: the goroutines of \<open>cmd/ingest/main.go\<close>, the channel and the context as one
  step relation, so that a theorem over reachable states holds for every schedule.
  \<open>Ingest_Runs\<close>: complete runs. \<open>Ingest_Embed\<close>, \<open>Embed_Pass\<close>: the embedding pass.
  \<open>Ingest_Main\<close>: the command around them, its reports and its exit status.

  \<^bold>\<open>The benches.\<close> \<open>Edit_Distance\<close>: Levenshtein and the coverage match. \<open>Meili_Repo\<close>: the adapter,
  a second interpretation of the repository port. \<open>Bench_Cases\<close>, \<open>Bench_Score\<close>: generated
  cases and their scoring over the search service. \<open>Bench_Quality\<close>: quality metrics and the
  literal-against-decay comparison. \<open>Bench_Semantic\<close>: the two arms and the verdict. \<open>Bench_Report\<close>,
  \<open>Quality_Report\<close>: the text of the reports, byte for byte. \<open>Bench_Main\<close>: \<open>run\<close> with its modes.
  \<open>Load_Bench\<close>: the pieces of the load generator; \<open>Load_Dispatch\<close>: its dispatcher as a step relation,
  and the sweep; \<open>Load_Main\<close>: the command. \<open>Commands\<close>: the \<open>main\<close> functions with flags, of the ingest
  and both benches.

  \<^bold>\<open>What is shown.\<close> \<open>Rank_Order\<close>, \<open>Rank_Props\<close>, \<open>Rank_Theorems\<close>: the stages of \<open>Run\<close> composed, the
  pin first, the de-pin pass, bounds of signals and scores with rounding included, and
  where the result depends on the order of retrieval. \<open>Search_Theorems\<close>: the service refines a
  specification without clocks; distinct names; the pin and the categorical guard.
  \<open>Server_Theorems\<close>: the booted server over Postgres, from the request to the body, by what its own two
  statements answer. \<open>System_Theorems\<close>: the same over the modelled database, where the search statement of a request from
  a place on earth succeeds over sound rows and a stored name finds its business, within the cardinality guard.
  \<open>End_To_End\<close>: a name that the ingest wrote is found, under the same conditions.
  For the database: times are read back, the status is membership in the hours, the search keeps its
  limit, order and filters, and the bench's name match is the database's, bit for bit. For the
  ingest: printing and parsing round trips, rows that satisfy the constraints of the pipeline, a load
  that is all or nothing (after a failed commit, one of the two), termination and the outcome of every schedule,
  idempotence of the upsert, and the embedding pass. For the benches: the edit distance is the least number of
  edits, percentages and metrics are bounded, a comparison keeps its modes apart, a run writes
  one file or none, of which a failed write may leave a part, every choice of options can be given on the command line, and the dispatcher
  keeps its books, ends, and offers the same requests to every server. Status 0 of the ingest means
  that the whole file is in the table, as its columns keep it.

  \<^bold>\<open>Fuel.\<close> Two loops depend on the outside. The embedding pass reads pages after a cursor that is an
  identifier of 128 bits and grows strictly: \<open>2 ^ 128 + 1\<close> turns are enough
  (\<open>runEmbed_returns\<close>). Polling a Meilisearch task ends within 182 polls when every sleep lasts
  (\<open>waitTask_returns\<close>), and the whole of an indexing run returns (\<open>indexing_returns\<close>). All other
  loops are total recursive functions.

  \<^bold>\<open>Parameters.\<close> pgx and the extensions of Postgres (faults on every round trip, trigrams,
  full-text search, \<open>levenshtein\<close>, earth distance, the vector index and the vector cast, locale and time zone, the text
  encoding and the \<open>jsonb\<close> parser, and whether a commit that was reported as failed took effect),
  \<open>net/http\<close>, JSON and YAML decoding, the ONNX runtime, MD5, UUID
  printing and parsing, the Unicode tables and normalization, parsing of times and durations, the clock, the
  random source, the environment and the file system (with the bytes that a failed write leaves). They are arguments, and what a theorem
  needs of them is a hypothesis in its statement or a locale assumption discharged there.

  \<^bold>\<open>Not modelled.\<close> Log lines; the wording of error messages, which are constructors that carry
  the same data; usage texts; request cancellation inside a handler; package comments (\<open>doc.go\<close>); the
  indexes and superseded functions of the migrations (the types and constraints of the columns are in
  \<open>Ingest_Loader\<close>); the web client, scripts and deployment
  files.
\<close>

end
